(* ===== verification/Prelude.thy ===== *)
theory Prelude
  imports "HOL-Library.Word"
begin

text \<open>
  Shared vocabulary of the development: the C integer types, the outcome of a kernel
  function (a result, a call of \<open>panic\<close>, or a C-level fault such as an access outside an
  array), the alignment macros of \<open>include/kernel/macros.h\<close>, and the generic lemmas on
  words and lists the components use.
\<close>

unbundle bit_operations_syntax

section \<open>Integer types and outcomes\<close>

type_synonym u8 = "8 word"
type_synonym u16 = "16 word"
type_synonym u32 = "32 word"
type_synonym u64 = "64 word"

text \<open>
  Every kernel function is a HOL function to \<open>'a outcome\<close>. \<open>Panic msg\<close> is a call of
  \<open>panic(msg)\<close>, after which the kernel does not continue. \<open>Fault msg\<close> is behaviour that
  C leaves undefined and that the source does not exclude (a null pointer dereference, an
  index outside an array, signed overflow).
\<close>

datatype 'a outcome = Ok 'a | Panic string | Fault string

fun bnd :: "'a outcome \<Rightarrow> ('a \<Rightarrow> 'b outcome) \<Rightarrow> 'b outcome" where
  "bnd (Ok x) f = f x"
| "bnd (Panic e) f = Panic e"
| "bnd (Fault e) f = Fault e"

lemma bnd_cong [fundef_cong]: "m = m' \<Longrightarrow> (\<And>x. m' = Ok x \<Longrightarrow> f x = g x) \<Longrightarrow> bnd m f = bnd m' g"
  by (cases m') auto

text \<open>\<open>ALIGN_UP\<close> and \<open>ALIGN_DOWN\<close> of \<open>include/kernel/macros.h\<close>, on \<open>uint64\<close>.\<close>

definition ALIGN_UP :: "u64 \<Rightarrow> u64 \<Rightarrow> u64" where
  "ALIGN_UP value alignment = (value + alignment - 1) AND NOT (alignment - 1)"

definition ALIGN_DOWN :: "u64 \<Rightarrow> u64 \<Rightarrow> u64" where
  "ALIGN_DOWN value alignment = value AND NOT (alignment - 1)"

definition aligned :: "nat \<Rightarrow> u64 \<Rightarrow> bool" where
  "aligned n a \<longleftrightarrow> 2 ^ n dvd unat a"

text \<open>
  The two loop shapes of the sources: a loop over a sequence of indices, and a loop that steps an
  address by one page up to a bound. A body returns \<open>Some r\<close> for an early \<open>return r\<close>. An address
  that would step over the end of the 64-bit range is a fault.
\<close>

fun for_each :: "('i \<Rightarrow> 's \<Rightarrow> ('r option \<times> 's) outcome) \<Rightarrow> 'i list \<Rightarrow> 's \<Rightarrow> ('r option \<times> 's) outcome" where
  "for_each body [] s = Ok (None, s)"
| "for_each body (i # is) s =
     bnd (body i s) (\<lambda>(r, s). case r of None \<Rightarrow> for_each body is s | Some e \<Rightarrow> Ok (Some e, s))"

function for_pages ::
  "(u64 \<Rightarrow> 's \<Rightarrow> ('r option \<times> 's) outcome) \<Rightarrow> u64 \<Rightarrow> u64 \<Rightarrow> 's \<Rightarrow> ('r option \<times> 's) outcome" where
  "for_pages body a bound s =
     (if \<not> a < bound then Ok (None, s)
      else bnd (body a s) (\<lambda>(r, s).
        case r of Some e \<Rightarrow> Ok (Some e, s)
        | None \<Rightarrow> if unat a + 4096 \<ge> 2 ^ 64 then Fault ''page loop: address wraps around''
                  else for_pages body (a + 4096) bound s))"
  by pat_completeness auto
termination for_pages
  by (relation "measure (\<lambda>(body, a, bound, s). 2 ^ 64 - unat a)") (auto simp: unat_word_ariths)

declare for_pages.simps [simp del]

text \<open>Error numbers of \<open>include/kernel/errno.h\<close>.\<close>

abbreviation ENOENT :: int where "ENOENT \<equiv> 2"
abbreviation ESRCH :: int where "ESRCH \<equiv> 3"
abbreviation EINTR :: int where "EINTR \<equiv> 4"
abbreviation EIO :: int where "EIO \<equiv> 5"
abbreviation EBADF :: int where "EBADF \<equiv> 9"
abbreviation ECHILD :: int where "ECHILD \<equiv> 10"
abbreviation EAGAIN :: int where "EAGAIN \<equiv> 11"
abbreviation ENOMEM :: int where "ENOMEM \<equiv> 12"
abbreviation EFAULT :: int where "EFAULT \<equiv> 14"
abbreviation EBUSY :: int where "EBUSY \<equiv> 16"
abbreviation EEXIST :: int where "EEXIST \<equiv> 17"
abbreviation ENOTDIR :: int where "ENOTDIR \<equiv> 20"
abbreviation EISDIR :: int where "EISDIR \<equiv> 21"
abbreviation EINVAL :: int where "EINVAL \<equiv> 22"
abbreviation ENFILE :: int where "ENFILE \<equiv> 23"
abbreviation EMFILE :: int where "EMFILE \<equiv> 24"
abbreviation ENOTTY :: int where "ENOTTY \<equiv> 25"
abbreviation EFBIG :: int where "EFBIG \<equiv> 27"
abbreviation ENOSPC :: int where "ENOSPC \<equiv> 28"
abbreviation ESPIPE :: int where "ESPIPE \<equiv> 29"
abbreviation EPIPE :: int where "EPIPE \<equiv> 32"
abbreviation ENAMETOOLONG :: int where "ENAMETOOLONG \<equiv> 36"
abbreviation ENOTEMPTY :: int where "ENOTEMPTY \<equiv> 39"
abbreviation EOPNOTSUPP :: int where "EOPNOTSUPP \<equiv> 95"

text \<open>Conversion of a value to the C type \<open>int\<close>.\<close>

definition to_c_int :: "int \<Rightarrow> int" where
  "to_c_int i = sint (word_of_int i :: 32 word)"

named_theorems outcome_simps "inversion of a bind that returns"

section \<open>Outcomes\<close>

lemma bnd_Ok_iff [outcome_simps]: "bnd m f = Ok y \<longleftrightarrow> (\<exists>x. m = Ok x \<and> f x = Ok y)"
  by (cases m) auto

lemma bnd_assoc: "bnd (bnd m f) g = bnd m (\<lambda>x. bnd (f x) g)"
  by (cases m) auto

lemma bnd_if: "bnd (if b then m else m') f = (if b then bnd m f else bnd m' f)"
  by simp

text \<open>
  A loop over \<open>0, \<dots>, n - 1\<close> whose body keeps the invariant \<open>I\<close>, or leaves with a result that
  satisfies \<open>Q\<close>.
\<close>

lemma for_each_upt:
  assumes "I k s" "k \<le> n"
    and "\<And>k s. k < n \<Longrightarrow> I k s \<Longrightarrow> (\<exists>s'. body k s = Ok (None, s') \<and> I (Suc k) s') \<or> (\<exists>e s'. body k s = Ok (Some e, s') \<and> Q e s')"
  shows "(\<exists>s'. for_each body [k..<n] s = Ok (None, s') \<and> I n s') \<or> (\<exists>e s'. for_each body [k..<n] s = Ok (Some e, s') \<and> Q e s')"
  using assms(1,2)
proof (induction "n - k" arbitrary: k s)
  case 0
  then show ?case by simp
next
  case (Suc d)
  then have k: "k < n" "[k..<n] = k # [Suc k..<n]" "d = n - Suc k" by (simp_all add: upt_conv_Cons)
  from assms(3) [OF k(1) Suc.prems(1)] show ?case
  proof (elim disjE exE conjE)
    fix s' assume b: "body k s = Ok (None, s')" and i: "I (Suc k) s'"
    from Suc.hyps(1) [OF k(3) i] k(1) show ?thesis unfolding k(2) by (simp add: b)
  qed (simp add: k(2))
qed

section \<open>Words\<close>

lemma to_c_int_id: "- 2147483648 \<le> i \<Longrightarrow> i < 2147483648 \<Longrightarrow> to_c_int i = i"
  by (simp add: to_c_int_def signed_of_int signed_take_bit_int_eq_self)

lemma unat_of_nat_small: "n < 2 ^ LENGTH('a) \<Longrightarrow> unat (of_nat n :: 'a::len word) = n"
  by (simp add: unat_of_nat)

lemma word_eq_iff_unat: "a = b \<longleftrightarrow> unat a = unat b"
  by (simp add: word_unat_eq_iff)

lemma and_not_mask: "(a :: 'a::len word) AND NOT (mask n) = push_bit n (drop_bit n a)"
  by (rule bit_eqI) (auto simp: bit_simps)

lemma and_not_mask_plus: "((a :: 'a::len word) AND NOT (mask n)) + take_bit n a = a"
  by (simp add: and_not_mask bits_ident)

lemma unat_take_bit: "unat (take_bit n (a :: 'a::len word)) = unat a mod 2 ^ n"
  by (subst unsigned_take_bit_eq) (simp add: take_bit_eq_mod)

lemma unat_and_not_mask: "unat ((a :: 'a::len word) AND NOT (mask n)) = unat a - unat a mod 2 ^ n"
proof -
  have le: "take_bit n a \<le> a"
    by (simp add: word_le_nat_alt unat_take_bit)
  have "a AND NOT (mask n) = a - take_bit n a"
    using and_not_mask_plus [of a n] by (simp add: eq_diff_eq)
  then show ?thesis
    using le by (simp add: unat_sub unat_take_bit)
qed

lemma aligned_weaken: "aligned n a \<Longrightarrow> m \<le> n \<Longrightarrow> aligned m a"
  unfolding aligned_def by (meson dvd_trans le_imp_power_dvd)

lemma aligned_0 [simp]: "aligned n 0"
  by (simp add: aligned_def)

lemma aligned_add: "n \<le> 64 \<Longrightarrow> aligned n a \<Longrightarrow> aligned n b \<Longrightarrow> aligned n (a + b)"
  unfolding aligned_def unat_word_ariths
  by (intro dvd_mod dvd_add) (auto intro: le_imp_power_dvd [of n 64 "2 :: nat", simplified])

lemma aligned_add_unat:
  assumes "aligned n a" "j < 2 ^ n" "n \<le> 64"
  shows "unat (a + of_nat j) = unat a + j"
proof -
  have "unat a + j < 2 ^ 64"
  proof -
    obtain q where q: "unat a = 2 ^ n * q" using assms(1) by (auto simp: aligned_def elim: dvdE)
    have e: "(2::nat) ^ 64 = 2 ^ n * 2 ^ (64 - n)" using assms(3) by (simp only: flip: power_add) simp
    have "unat a < 2 ^ 64" using unsigned_less [of a] by simp
    then have "2 ^ n * q < 2 ^ n * 2 ^ (64 - n)" by (simp only: q e)
    then have "Suc q \<le> 2 ^ (64 - n)" by (simp only: mult_less_cancel1 Suc_le_eq)
    then have "2 ^ n * Suc q \<le> 2 ^ 64" unfolding e by (rule mult_le_mono2)
    then show ?thesis using assms(2) by (simp add: q)
  qed
  then show ?thesis by (simp add: unat_word_ariths unat_of_nat)
qed

end
