(* ===== verification/Memory.thy ===== *)
theory Memory
  imports Prelude
begin

text \<open>
  Kernel memory as bytes, little-endian accesses of 4 and 8 bytes, and the routines of
  \<open>kernel/core/string.c\<close> over it.
\<close>

unbundle bit_operations_syntax

section \<open>Byte memory and the routines of string.c\<close>

type_synonym memory = "u64 \<Rightarrow> u8"

primrec load_le :: "nat \<Rightarrow> memory \<Rightarrow> u64 \<Rightarrow> 'a::len word" where
  "load_le 0 m a = 0"
| "load_le (Suc k) m a = ucast (m a) OR push_bit 8 (load_le k m (a + 1))"

definition store_le :: "nat \<Rightarrow> memory \<Rightarrow> u64 \<Rightarrow> 'a::len word \<Rightarrow> memory" where
  "store_le k m a v =
     (\<lambda>x. if unat (x - a) < k then ucast (drop_bit (8 * unat (x - a)) v) else m x)"

definition load64 :: "memory \<Rightarrow> u64 \<Rightarrow> u64" where
  "load64 = load_le 8"

definition store64 :: "memory \<Rightarrow> u64 \<Rightarrow> u64 \<Rightarrow> memory" where
  "store64 = store_le 8"

definition load32 :: "memory \<Rightarrow> u64 \<Rightarrow> u32" where
  "load32 = load_le 4"

definition store32 :: "memory \<Rightarrow> u64 \<Rightarrow> u32 \<Rightarrow> memory" where
  "store32 = store_le 4"

text \<open>\<open>memset\<close>: the loop writes \<open>p[0]\<close>, \<open>p[1]\<close>, \<dots> in turn; a negative length writes nothing.\<close>

primrec memset_loop :: "nat \<Rightarrow> memory \<Rightarrow> u64 \<Rightarrow> u8 \<Rightarrow> memory" where
  "memset_loop 0 m p v = m"
| "memset_loop (Suc k) m p v = memset_loop k (m(p := v)) (p + 1) v"

definition memset :: "memory \<Rightarrow> u64 \<Rightarrow> int \<Rightarrow> int \<Rightarrow> memory" where
  "memset m s c n = memset_loop (nat n) m s (word_of_int c)"

primrec copy_up :: "nat \<Rightarrow> memory \<Rightarrow> u64 \<Rightarrow> u64 \<Rightarrow> memory" where
  "copy_up 0 m d s = m"
| "copy_up (Suc k) m d s = copy_up k (m(d := m s)) (d + 1) (s + 1)"

primrec copy_down :: "nat \<Rightarrow> memory \<Rightarrow> u64 \<Rightarrow> u64 \<Rightarrow> memory" where
  "copy_down 0 m d s = m"
| "copy_down (Suc k) m d s = copy_down k (m(d + of_nat k := m (s + of_nat k))) d s"

definition memcpy :: "memory \<Rightarrow> u64 \<Rightarrow> u64 \<Rightarrow> int \<Rightarrow> memory" where
  "memcpy m dest src n = copy_up (nat n) m dest src"

definition memmove :: "memory \<Rightarrow> u64 \<Rightarrow> u64 \<Rightarrow> int \<Rightarrow> memory" where
  "memmove m dest src n =
     (if dest = src then m
      else if dest < src then copy_up (nat n) m dest src
      else copy_down (nat n) m dest src)"

text \<open>
  The unbounded string loops end at a NUL byte; without one they never return, which is the
  value \<open>None\<close>.
\<close>

partial_function (option) strcpy :: "memory \<Rightarrow> u64 \<Rightarrow> u64 \<Rightarrow> memory option" where
  "strcpy m s1 s2 =
     (let c = m s2; m' = m(s1 := c)
      in if c \<noteq> 0 then strcpy m' (s1 + 1) (s2 + 1) else Some m')"

partial_function (option) strcmp :: "memory \<Rightarrow> u64 \<Rightarrow> u64 \<Rightarrow> int option" where
  "strcmp m s1 s2 =
     (if m s1 \<noteq> 0 \<and> m s1 = m s2 then strcmp m (s1 + 1) (s2 + 1)
      else Some (uint (m s1) - uint (m s2)))"

partial_function (option) strlen_loop :: "memory \<Rightarrow> u64 \<Rightarrow> int \<Rightarrow> int option" where
  "strlen_loop m str cnt = (if m str \<noteq> 0 then strlen_loop m (str + 1) (cnt + 1) else Some cnt)"

definition strlen :: "memory \<Rightarrow> u64 \<Rightarrow> int option" where
  "strlen m str = strlen_loop m str 0"

primrec strncpy_loop :: "nat \<Rightarrow> memory \<Rightarrow> u64 \<Rightarrow> u64 \<Rightarrow> memory" where
  "strncpy_loop 0 m s t = m"
| "strncpy_loop (Suc k) m s t =
     (let c = m t; m' = m(s := c)
      in if c \<noteq> 0 then strncpy_loop k m' (s + 1) (t + 1) else memset_loop k m' (s + 1) 0)"

definition strncpy :: "memory \<Rightarrow> u64 \<Rightarrow> u64 \<Rightarrow> int \<Rightarrow> memory" where
  "strncpy m s t n = strncpy_loop (nat n) m s t"

primrec strncmp_loop :: "nat \<Rightarrow> memory \<Rightarrow> u64 \<Rightarrow> u64 \<Rightarrow> int" where
  "strncmp_loop 0 m p q = 0"
| "strncmp_loop (Suc k) m p q =
     (if m p \<noteq> 0 \<and> m p = m q then strncmp_loop k m (p + 1) (q + 1)
      else uint (m p) - uint (m q))"

definition strncmp :: "memory \<Rightarrow> u64 \<Rightarrow> u64 \<Rightarrow> u32 \<Rightarrow> int" where
  "strncmp m p q n = strncmp_loop (unat n) m p q"

text \<open>The bytes of the NUL-terminated string at an address.\<close>

fun cstring :: "memory \<Rightarrow> u64 \<Rightarrow> u8 list \<Rightarrow> bool" where
  "cstring m a [] \<longleftrightarrow> m a = 0"
| "cstring m a (c # cs) \<longleftrightarrow> m a = c \<and> c \<noteq> 0 \<and> cstring m (a + 1) cs"

section \<open>Loads and stores\<close>

lemma bit_load_le:
  "bit (load_le k m a :: 'a::len word) n \<longleftrightarrow>
     n < LENGTH('a) \<and> n < 8 * k \<and> bit (m (a + of_nat (n div 8))) (n mod 8)"
proof (induction k arbitrary: a n)
  case 0
  then show ?case by simp
next
  case (Suc k)
  show ?case
  proof (cases "n < 8")
    case True
    then show ?thesis
      by (auto simp: bit_simps)
  next
    case False
    then obtain j where j: "n = j + 8" by (metis add.commute le_Suc_ex not_less)
    have d: "(j + 8) div 8 = Suc (j div 8)" by simp
    have "bit (m a) (j + 8) = False"
      using bit_imp_le_length by fastforce
    then show ?thesis
      unfolding j d by (auto simp: bit_simps Suc ac_simps)
  qed
qed

lemma load_store_le_same:
  assumes "LENGTH('a) = 8 * k" "k < 2 ^ 64"
  shows "load_le k (store_le k m a v) a = (v :: 'a::len word)"
proof (rule bit_eqI)
  fix n
  have "n < 8 * k \<Longrightarrow> unat (of_nat (n div 8) :: u64) = n div 8"
    using assms(2) by (intro unat_of_nat_small) auto
  then show "bit (load_le k (store_le k m a v) a :: 'a word) n = bit v n"
    using assms(1) bit_imp_le_length[of v n]
    by (auto simp: bit_load_le store_le_def bit_simps)
qed

lemma load_le_cong:
  assumes "\<And>i. i < k \<Longrightarrow> m (a + of_nat i) = m' (a + of_nat i)"
  shows "load_le k m a = load_le k m' a"
  using assms by (intro bit_eqI) (auto simp: bit_load_le less_mult_imp_div_less mult.commute cong: conj_cong)

lemma aligned_ranges_disjoint:
  assumes "aligned n a" "aligned n b" "a \<noteq> b" "n \<le> 64" "i < 2 ^ n"
  shows "\<not> unat (b + of_nat i - a) < 2 ^ n"
proof
  assume lt: "unat (b + of_nat i - a) < 2 ^ n"
  define j where "j = unat (b + of_nat i - a)"
  have "b + of_nat i = a + of_nat j"
    unfolding j_def by simp
  then have "unat b + i = unat a + j"
    using aligned_add_unat [of n b i] aligned_add_unat [of n a j] assms lt by (simp add: j_def)
  moreover obtain p q where "unat a = 2 ^ n * p" "unat b = 2 ^ n * q"
    using assms(1,2) by (auto simp: aligned_def elim!: dvdE)
  ultimately have "(2 ^ n * q + i) div 2 ^ n = (2 ^ n * p + j) div 2 ^ n"
    by simp
  then have "p = q"
    using lt assms(5) by (simp add: j_def)
  then show False
    using \<open>unat a = _\<close> \<open>unat b = _\<close> assms(3) by (simp add: word_eq_iff_unat)
qed

lemma load64_store64:
  assumes "aligned 3 a" "aligned 3 b"
  shows "load64 (store64 m a v) b = (if a = b then v else load64 m b)"
proof (cases "a = b")
  case True
  then show ?thesis by (simp add: load64_def store64_def load_store_le_same)
next
  case False
  have "unat (b + of_nat i - a) < 8 \<Longrightarrow> i < 8 \<Longrightarrow> False" for i
    using aligned_ranges_disjoint [of 3 a b i] assms False by simp
  then have "load_le 8 (store_le 8 m a v) b = (load_le 8 m b :: u64)"
    by (intro load_le_cong) (auto simp: store_le_def)
  then show ?thesis using False by (simp add: load64_def store64_def)
qed

lemma load64_store64_same [simp]: "load64 (store64 m a v) a = v"
  by (simp add: load64_def store64_def load_store_le_same)

section \<open>string.c\<close>

lemma memset_loop_eq:
  "n \<le> 2 ^ 64 \<Longrightarrow> memset_loop n m p v = (\<lambda>x. if unat (x - p) < n then v else m x)"
proof (induction n arbitrary: m p)
  case 0
  then show ?case by simp
next
  case (Suc n)
  have "unat (x - (p + 1)) < n \<or> x = p \<longleftrightarrow> unat (x - p) < Suc n" for x
  proof (cases "x = p")
    case False
    then have "x - p \<noteq> 0" by simp
    then have "unat (x - p) = Suc (unat (x - p - 1))"
      using unat_minus_one [of "x - p"] unat_gt_0 [of "x - p"] by linarith
    then show ?thesis using False by (simp add: diff_diff_eq)
  qed simp
  then show ?case using Suc by (auto simp: fun_eq_iff)
qed

lemma memset_eq:
  "n \<le> 2 ^ 64 \<Longrightarrow>
    memset m p c (int n) = (\<lambda>x. if unat (x - p) < n then word_of_int c else m x)"
  by (simp add: memset_def memset_loop_eq)

lemma unat_add_small: "unat a + n < 2 ^ 64 \<Longrightarrow> unat (a + of_nat n :: u64) = unat a + n"
  by (simp add: unat_word_ariths unat_of_nat)

lemma range_split:
  assumes "x \<noteq> (d :: u64)"
  shows "unat (x - d) = Suc (unat (x - (d + 1)))"
proof -
  have "x - d \<noteq> 0" using assms by simp
  then show ?thesis
    using unat_minus_one [of "x - d"] unat_gt_0 [of "x - d"] by (simp add: diff_diff_eq)
qed

lemma copy_up_eq:
  assumes "d \<le> s \<or> unat s + n \<le> unat d" "unat s + n \<le> 2 ^ 64" "unat d + n \<le> 2 ^ 64"
  shows "copy_up n m d s = (\<lambda>x. if unat (x - d) < n then m (s + (x - d)) else m x)"
  using assms
proof (induction n arbitrary: m d s)
  case 0
  then show ?case by simp
next
  case (Suc n)
  show ?case
  proof (cases "n = 0")
    case True
    then show ?thesis by (auto simp: fun_eq_iff unat_eq_zero)
  next
    case False
    have s1: "unat (s + 1) = unat s + 1" and d1: "unat (d + 1) = unat d + 1"
      using False Suc.prems unat_add_small [of s 1] unat_add_small [of d 1] by simp_all
    have IH: "copy_up n (m(d := m s)) (d + 1) (s + 1) =
        (\<lambda>x. if unat (x - (d + 1)) < n then (m(d := m s)) (s + 1 + (x - (d + 1)))
             else (m(d := m s)) x)"
      using Suc.prems by (intro Suc.IH) (auto simp: s1 d1 word_le_nat_alt)
    have "s + (x - d) \<noteq> d" if "x \<noteq> d" "unat (x - d) < Suc n" for x
    proof -
      have "unat (s + (x - d)) = unat s + unat (x - d)"
        using that Suc.prems by (simp add: unat_word_ariths)
      moreover have "0 < unat (x - d)" using that by (simp add: unat_gt_0)
      ultimately have "unat (s + (x - d)) \<noteq> unat d"
        using Suc.prems(1) that(2) unfolding word_le_nat_alt by linarith
      then show ?thesis by metis
    qed
    then show ?thesis
      using range_split [of _ d] by (auto simp: IH fun_eq_iff)
  qed
qed

lemma copy_down_eq:
  assumes "s \<le> d" "unat d + n \<le> 2 ^ 64"
  shows "copy_down n m d s = (\<lambda>x. if unat (x - d) < n then m (s + (x - d)) else m x)"
  using assms
proof (induction n arbitrary: m)
  case 0
  then show ?case by simp
next
  case (Suc n)
  have dn: "unat (d + of_nat n) = unat d + n" and sn: "unat s + n \<le> 2 ^ 64"
    using Suc.prems unat_add_small [of d n] by (auto simp: word_le_nat_alt)
  have "s + (x - d) \<noteq> d + of_nat n" if "unat (x - d) < n" for x
  proof -
    have "unat (s + (x - d)) = unat s + unat (x - d)"
      using that sn by (simp add: unat_word_ariths)
    then have "unat (s + (x - d)) \<noteq> unat (d + of_nat n)"
      using dn that Suc.prems(1) unfolding word_le_nat_alt by linarith
    then show ?thesis by metis
  qed
  moreover have "x = d + of_nat n \<longleftrightarrow> unat (x - d) = n" for x
    using Suc.prems(2) by (auto simp: unat_of_nat)
  ultimately show ?case
    using Suc.prems by (auto simp: Suc.IH fun_eq_iff less_Suc_eq)
qed

text \<open>\<open>memmove\<close> copies correctly whether or not the two ranges overlap.\<close>

lemma memmove_eq:
  assumes "unat dest + n \<le> 2 ^ 64" "unat src + n \<le> 2 ^ 64"
  shows "memmove m dest src (int n) =
    (\<lambda>x. if unat (x - dest) < n then m (src + (x - dest)) else m x)"
proof (cases dest src rule: linorder_cases)
  case less
  then have "dest \<noteq> src" "dest \<le> src" by auto
  with less show ?thesis using assms copy_up_eq [of dest src n m] by (simp add: memmove_def)
next
  case equal
  then show ?thesis by (simp add: memmove_def fun_eq_iff)
next
  case greater
  then have "dest \<noteq> src" "\<not> dest < src" "src \<le> dest" by auto
  then show ?thesis using assms copy_down_eq [of src dest n m] by (simp add: memmove_def)
qed

lemma memcpy_eq:
  assumes "unat dest + n \<le> 2 ^ 64" "unat src + n \<le> 2 ^ 64"
    and "dest \<le> src \<or> unat src + n \<le> unat dest"
  shows "memcpy m dest src (int n) =
    (\<lambda>x. if unat (x - dest) < n then m (src + (x - dest)) else m x)"
  using assms copy_up_eq [of dest src n m] by (simp add: memcpy_def)

lemma strlen_loop_cstring: "cstring m a cs \<Longrightarrow> strlen_loop m a k = Some (k + int (length cs))"
  by (induction cs arbitrary: a k) (simp_all add: strlen_loop.simps [of m] ac_simps)

lemma strlen_cstring: "cstring m a cs \<Longrightarrow> strlen m a = Some (int (length cs))"
  by (simp add: strlen_def strlen_loop_cstring)

lemma strcmp_cstring:
  assumes "cstring m a cs" "cstring m b ds"
  shows "\<exists>r. strcmp m a b = Some r \<and> (r = 0 \<longleftrightarrow> cs = ds)"
  using assms
proof (induction cs arbitrary: a b ds)
  case Nil
  then show ?case
    by (cases ds) (auto simp: strcmp.simps [of m a b] unsigned_eq_0_iff)
next
  case (Cons c cs)
  show ?case
  proof (cases ds)
    case Nil
    then show ?thesis using Cons.prems by (auto simp: strcmp.simps [of m a b] unsigned_eq_0_iff)
  next
    case (Cons d ds')
    show ?thesis
      using Cons.prems Cons.IH [of "a + 1" "b + 1" ds'] \<open>ds = d # ds'\<close>
      by (auto simp: strcmp.simps [of m a b] word_uint_eq_iff)
  qed
qed

lemma strncmp_loop_cstring:
  "cstring m p cs \<Longrightarrow> cstring m q ds \<Longrightarrow>
    strncmp_loop n m p q = 0 \<longleftrightarrow> take n cs = take n ds"
proof (induction n arbitrary: p q cs ds)
  case 0
  then show ?case by simp
next
  case (Suc n)
  note [simp] = word_uint_eq_iff [symmetric]
  show ?case
  proof (cases cs)
    case Nil
    then show ?thesis using Suc.prems by (cases ds) (simp_all add: unsigned_eq_0_iff)
  next
    case c: (Cons c cs')
    show ?thesis
    proof (cases ds)
      case Nil
      then show ?thesis using Suc.prems c by (simp add: unsigned_eq_0_iff)
    next
      case (Cons d ds')
      then show ?thesis
        using Suc.prems Suc.IH [of "p + 1" cs' "q + 1" ds'] c by simp
    qed
  qed
qed

lemma cstring_cong:
  "(\<And>i. i \<le> length cs \<Longrightarrow> m (a + of_nat i) = m' (a + of_nat i)) \<Longrightarrow> cstring m a cs = cstring m' a cs"
proof (induction cs arbitrary: a)
  case Nil
  then show ?case by simp
next
  case (Cons c cs)
  have "m (a + 1 + of_nat i) = m' (a + 1 + of_nat i)" if "i \<le> length cs" for i
    using Cons.prems [of "Suc i"] that by (simp add: ac_simps)
  then have "cstring m (a + 1) cs = cstring m' (a + 1) cs" by (rule Cons.IH)
  then show ?case using Cons.prems [of 0] by simp
qed

lemma strncpy_loop_cstring:
  assumes "cstring m t cs" "n \<le> 2 ^ 64"
    and "\<And>i j. i \<le> length cs \<Longrightarrow> j < n \<Longrightarrow> t + of_nat i \<noteq> s + of_nat j"
  shows "strncpy_loop n m s t =
    (\<lambda>x. if unat (x - s) < n
         then if unat (x - s) < length cs then cs ! unat (x - s) else 0 else m x)"
  using assms
proof (induction n arbitrary: m s t cs)
  case 0
  then show ?case by simp
next
  case (Suc n)
  show ?case
  proof (cases cs)
    case Nil
    then show ?thesis
      using Suc.prems range_split [of _ s] by (auto simp: fun_eq_iff memset_loop_eq)
  next
    case (Cons c cs')
    have ne: "t + 1 + of_nat i \<noteq> s + of_nat j" if "i \<le> length cs'" "j < Suc n" for i j
      using Suc.prems(3) [of "Suc i" j] that Cons by (simp add: ac_simps)
    have "cstring (m(s := c)) (t + 1) cs'"
      using Suc.prems(1) Cons ne [of _ 0] by (subst cstring_cong [where m' = m]) auto
    then have IH: "strncpy_loop n (m(s := c)) (s + 1) (t + 1) =
      (\<lambda>x. if unat (x - (s + 1)) < n
           then if unat (x - (s + 1)) < length cs' then cs' ! unat (x - (s + 1)) else 0
           else (m(s := c)) x)"
    proof (rule Suc.IH)
      show "t + 1 + of_nat i \<noteq> s + 1 + of_nat j" if "i \<le> length cs'" "j < n" for i j
        using ne [of i "Suc j"] that by (simp add: ac_simps)
    qed (use Suc.prems in simp)
    have "\<not> unat (- 1 :: u64) < n"
      using Suc.prems(2) by (simp add: unsigned_minus_1_eq_mask mask_eq_exp_minus_1)
    then show ?thesis
      using Suc.prems(1) Cons range_split [of _ s] by (auto simp: fun_eq_iff IH Let_def)
  qed
qed

section \<open>Properties\<close>

text \<open>
  C39. \<open>memmove\<close> copies \<open>n\<close> bytes correctly for every position of the two ranges, overlapping or
  not: the destination receives the bytes the source held before the call, and no other byte changes.
\<close>

theorem memmove_correct:
  assumes "unat dest + n \<le> 2 ^ 64" "unat src + n \<le> 2 ^ 64"
  shows "memmove m dest src (int n) x =
    (if unat (x - dest) < n then m (src + (x - dest)) else m x)"
  using assms by (simp add: memmove_eq)

theorem memmove_correct_witness:
  "memmove (\<lambda>x. ucast x) 2 0 (int 4) 5 = 3 \<and> memmove (\<lambda>x. ucast x) 0 2 (int 4) 1 = 3"
  using memmove_correct [of 2 4 0 "\<lambda>x. ucast x" 5] memmove_correct [of 0 4 2 "\<lambda>x. ucast x" 1]
  by simp

text \<open>
  On two NUL-terminated strings \<open>strcmp\<close> returns, with 0 exactly when the strings are equal.
\<close>

theorem strcmp_decides_equality:
  assumes "cstring m a cs" "cstring m b ds"
  shows "\<exists>r. strcmp m a b = Some r \<and> (r = 0 \<longleftrightarrow> cs = ds)"
  using assms by (rule strcmp_cstring)

theorem strcmp_decides_equality_witness:
  "\<exists>r. strcmp ((\<lambda>_. 0)(10 := 97, 20 := 97, 21 := 98)) 10 20 = Some r \<and> r \<noteq> 0"
  using strcmp_decides_equality [of "(\<lambda>_. 0)(10 := 97, 20 := 97, 21 := 98)" 10 "[97]" 20 "[97, 98]"]
  by auto

end
