(* ===== verification/Machine.thy ===== *)
theory Machine
  imports Memory
begin

text \<open>
  The part of the machine every component sees: the kernel's memory and the spinlocks the
  running CPU holds. Components extend the record with their own globals. \<open>acquire\<close> and
  \<open>release\<close> are the contract of \<open>kernel/core/spinlock.c\<close> as one CPU observes it on an
  uncontended lock; theory \<open>Spinlock\<close> models that file itself and proves that it implements
  this contract.
\<close>

datatype lockid =
    MemLock            \<comment> \<open>\<open>mem_lock\<close> of kalloc.c\<close>
  | SlabCacheLock      \<comment> \<open>\<open>slab_cache.lock\<close> of slab.c\<close>
  | CacheLock u64      \<comment> \<open>\<open>lock\<close> of the \<open>kmem_cache\<close> at this address\<close>
  | FtableLock         \<comment> \<open>\<open>ftable_lock\<close> of proc.c\<close>
  | ProcLock nat       \<comment> \<open>\<open>lock\<close> of a process slot\<close>
  | PidLock            \<comment> \<open>\<open>pid_lock\<close> of proc_base.c\<close>
  | PipeLock u64       \<comment> \<open>\<open>lock\<close> of the pipe at this address\<close>
  | SleepSpin nat      \<comment> \<open>the spinlock inside a sleep lock\<close>
  | IcacheLock         \<comment> \<open>\<open>icache.lock\<close> of inode_cache.c\<close>
  | BcacheLock         \<comment> \<open>\<open>bcache.bcache_lock\<close> of block_cache.c\<close>
  | TtyOwnerLock       \<comment> \<open>\<open>tty_owner_lock\<close> of tty.c\<close>
  | TtyLock            \<comment> \<open>\<open>tty_lock\<close> of tty.c\<close>
  | TimerLock          \<comment> \<open>\<open>timer_lock\<close> of sysproc.c\<close>

record machine =
  mem :: memory
  held :: "lockid list"

definition acquire :: "lockid \<Rightarrow> 'a machine_scheme \<Rightarrow> 'a machine_scheme outcome" where
  "acquire l s =
     (if l \<in> set (held s) then Panic ''acquire: already holding lock''
      else Ok (s\<lparr>held := l # held s\<rparr>))"

definition initlock_held :: "lockid \<Rightarrow> 'a machine_scheme \<Rightarrow> 'a machine_scheme" where
  "initlock_held l s = s\<lparr>held := removeAll l (held s)\<rparr>"

definition release :: "lockid \<Rightarrow> 'a machine_scheme \<Rightarrow> 'a machine_scheme outcome" where
  "release l s =
     (if l \<in> set (held s) then Ok (s\<lparr>held := remove1 l (held s)\<rparr>)
      else Panic ''release: not holding lock'')"

lemma acquire_free [simp]: "l \<notin> set (held s) \<Longrightarrow> acquire l s = Ok (s\<lparr>held := l # held s\<rparr>)"
  by (simp add: acquire_def)

lemma acquire_held [simp]:
  "l \<in> set (held s) \<Longrightarrow> acquire l s = Panic ''acquire: already holding lock''"
  by (simp add: acquire_def)

lemma release_hd [simp]: "held s = l # ls \<Longrightarrow> release l s = Ok (s\<lparr>held := ls\<rparr>)"
  by (simp add: release_def)

lemma acquire_Ok_iff [outcome_simps]:
  "acquire l s = Ok t \<longleftrightarrow> l \<notin> set (held s) \<and> t = s\<lparr>held := l # held s\<rparr>"
  by (auto simp: acquire_def)

lemma release_Ok_iff [outcome_simps]:
  "release l s = Ok t \<longleftrightarrow> l \<in> set (held s) \<and> t = s\<lparr>held := remove1 l (held s)\<rparr>"
  by (auto simp: release_def)

end
