(* ===== verification/Spinlock.thy ===== *)
theory Spinlock
  imports Machine
begin

text \<open>
  \<open>kernel/core/spinlock.c\<close>: the nested interrupt-disable counters, \<open>holding\<close>, \<open>acquire\<close> and
  \<open>release\<close>, for several CPUs. The first part models the functions as one CPU executes them,
  and proves that they implement the lock contract of theory \<open>Machine\<close>; the second models
  the interleaving of CPUs at the level of the atomic exchange, and proves mutual exclusion.
\<close>

section \<open>The functions of spinlock.c\<close>

record percpu =
  noff :: int
  intena :: bool
  sie :: bool   \<comment> \<open>\<open>sstatus.SIE\<close> of this CPU\<close>

record spinlock =
  locked :: bool
  lk_cpu :: "nat option"   \<comment> \<open>the CPU that holds the lock; \<open>None\<close> is the null pointer\<close>

record smp =
  cpus :: "nat \<Rightarrow> percpu"
  spin :: "lockid \<Rightarrow> spinlock"

definition initlock :: "lockid \<Rightarrow> smp \<Rightarrow> smp" where
  "initlock l s = s\<lparr>spin := (spin s)(l := \<lparr>locked = False, lk_cpu = None\<rparr>)\<rparr>"

text \<open>\<open>push_off\<close> on CPU \<open>c\<close>, with \<open>arch_irq_save\<close> written out.\<close>

definition push_off :: "nat \<Rightarrow> smp \<Rightarrow> smp" where
  "push_off c s =
     (let p = cpus s c; old = sie p; p = p\<lparr>sie := False\<rparr>;
          p = (if noff p = 0 then p\<lparr>intena := old\<rparr> else p)
      in s\<lparr>cpus := (cpus s)(c := p\<lparr>noff := noff p + 1\<rparr>)\<rparr>)"

definition pop_off :: "nat \<Rightarrow> smp \<Rightarrow> smp outcome" where
  "pop_off c s =
     (let p = cpus s c in
      if sie p then Panic ''pop_off: interrupt enabled''
      else if noff p < 1 then Panic ''pop_off''
      else let p = p\<lparr>noff := noff p - 1\<rparr>;
               p = (if noff p = 0 \<and> intena p then p\<lparr>sie := True\<rparr> else p)
           in Ok (s\<lparr>cpus := (cpus s)(c := p)\<rparr>))"

definition holding :: "lockid \<Rightarrow> nat \<Rightarrow> smp \<Rightarrow> (bool \<times> smp) outcome" where
  "holding l c s =
     (let s = push_off c s; r = (locked (spin s l) \<and> lk_cpu (spin s l) = Some c)
      in bnd (pop_off c s) (\<lambda>s. Ok (r, s)))"

text \<open>
  The exchange loop of \<open>acquire\<close> ends at once on a free lock. On a lock that another CPU
  holds it runs until that CPU releases it: as long as no other CPU moves it does not return,
  which is the value \<open>None\<close>.
\<close>

definition spin_acquire :: "lockid \<Rightarrow> nat \<Rightarrow> smp \<Rightarrow> smp outcome option" where
  "spin_acquire l c s =
     (let s = push_off c s in
      case holding l c s of
        Ok (r, s) \<Rightarrow>
          if r then Some (Panic ''acquire: already holding lock'')
          else if locked (spin s l) then None
          else Some (Ok (s\<lparr>spin := (spin s)(l := \<lparr>locked = True, lk_cpu = Some c\<rparr>)\<rparr>))
      | Panic e \<Rightarrow> Some (Panic e)
      | Fault e \<Rightarrow> Some (Fault e))"

definition spin_release :: "lockid \<Rightarrow> nat \<Rightarrow> smp \<Rightarrow> smp outcome" where
  "spin_release l c s =
     bnd (holding l c s) (\<lambda>(r, s).
     if \<not> r then Panic ''release: not holding lock''
     else pop_off c (s\<lparr>spin := (spin s)(l := \<lparr>locked = False, lk_cpu = None\<rparr>)\<rparr>))"

text \<open>
  The abstraction: the locks CPU \<open>c\<close> holds are exactly those that name it as holder, a lock
  is taken exactly when it names a holder, and \<open>noff\<close> counts the held locks (no caller of
  these functions uses \<open>push_off\<close> on its own).
\<close>

definition lock_rel :: "nat \<Rightarrow> smp \<Rightarrow> 'a machine_scheme \<Rightarrow> bool" where
  "lock_rel c s t \<longleftrightarrow>
     distinct (held t) \<and>
     (\<forall>l. l \<in> set (held t) \<longleftrightarrow> lk_cpu (spin s l) = Some c) \<and>
     (\<forall>l. locked (spin s l) \<longleftrightarrow> lk_cpu (spin s l) \<noteq> None) \<and>
     noff (cpus s c) = int (length (held t)) \<and>
     (held t \<noteq> [] \<longrightarrow> \<not> sie (cpus s c))"

section \<open>Interleaved CPUs\<close>

text \<open>
  One lock, any number of CPUs. A CPU that called \<open>acquire\<close> spins on the exchange; the
  exchange is one atomic step, the assignment of \<open>lk->cpu\<close> after it another; \<open>release\<close>
  clears \<open>lk->cpu\<close> in one step and \<open>lk->locked\<close> in the next.
\<close>

datatype lock_pc = Idle | Spinning | Exchanged | Critical | Releasing

record lock_sys =
  lpc :: "nat \<Rightarrow> lock_pc"
  the_lock :: spinlock

definition lock_init :: lock_sys where
  "lock_init = \<lparr>lpc = (\<lambda>_. Idle), the_lock = \<lparr>locked = False, lk_cpu = None\<rparr>\<rparr>"

inductive lock_step :: "lock_sys \<Rightarrow> lock_sys \<Rightarrow> bool" where
  call_acquire: "lpc s c = Idle \<Longrightarrow> \<not> (locked (the_lock s) \<and> lk_cpu (the_lock s) = Some c) \<Longrightarrow>
    lock_step s (s\<lparr>lpc := (lpc s)(c := Spinning)\<rparr>)"
| exchange: "lpc s c = Spinning \<Longrightarrow> \<not> locked (the_lock s) \<Longrightarrow>
    lock_step s (s\<lparr>lpc := (lpc s)(c := Exchanged), the_lock := (the_lock s)\<lparr>locked := True\<rparr>\<rparr>)"
| exchange_busy: "lpc s c = Spinning \<Longrightarrow> locked (the_lock s) \<Longrightarrow>
    lock_step s (s\<lparr>the_lock := (the_lock s)\<lparr>locked := True\<rparr>\<rparr>)"
| set_cpu: "lpc s c = Exchanged \<Longrightarrow>
    lock_step s (s\<lparr>lpc := (lpc s)(c := Critical), the_lock := (the_lock s)\<lparr>lk_cpu := Some c\<rparr>\<rparr>)"
| clear_cpu: "lpc s c = Critical \<Longrightarrow> locked (the_lock s) \<and> lk_cpu (the_lock s) = Some c \<Longrightarrow>
    lock_step s (s\<lparr>lpc := (lpc s)(c := Releasing), the_lock := (the_lock s)\<lparr>lk_cpu := None\<rparr>\<rparr>)"
| unlock: "lpc s c = Releasing \<Longrightarrow>
    lock_step s (s\<lparr>lpc := (lpc s)(c := Idle), the_lock := (the_lock s)\<lparr>locked := False\<rparr>\<rparr>)"

inductive lock_reachable :: "lock_sys \<Rightarrow> bool" where
  start: "lock_reachable lock_init"
| step: "lock_reachable s \<Longrightarrow> lock_step s t \<Longrightarrow> lock_reachable t"

definition owns :: "lock_pc \<Rightarrow> bool" where
  "owns p \<longleftrightarrow> p \<in> {Exchanged, Critical, Releasing}"

definition lock_inv :: "lock_sys \<Rightarrow> bool" where
  "lock_inv s \<longleftrightarrow>
     (\<exists>ow. (\<forall>c. owns (lpc s c) \<longleftrightarrow> ow = Some c) \<and>
           (locked (the_lock s) \<longleftrightarrow> ow \<noteq> None) \<and>
           (\<forall>c. lk_cpu (the_lock s) = Some c \<longleftrightarrow> lpc s c = Critical))"

lemma owns_simps [simp]:
  "\<not> owns Idle" "\<not> owns Spinning" "owns Exchanged" "owns Critical" "owns Releasing"
  by (simp_all add: owns_def)

lemma lock_invI:
  assumes "\<And>c. owns (lpc s c) \<longleftrightarrow> ow = Some c" "locked (the_lock s) \<longleftrightarrow> ow \<noteq> None"
    "\<And>c. lk_cpu (the_lock s) = Some c \<longleftrightarrow> lpc s c = Critical"
  shows "lock_inv s"
  using assms unfolding lock_inv_def by blast

lemma lock_inv_owner:
  assumes "lock_inv s" "owns (lpc s c)"
  shows "\<And>d. owns (lpc s d) \<longleftrightarrow> d = c" "locked (the_lock s)"
    "\<And>d. lk_cpu (the_lock s) = Some d \<longleftrightarrow> lpc s d = Critical"
    "\<And>d. lpc s d = Critical \<Longrightarrow> d = c"
  using assms unfolding lock_inv_def by auto (metis option.inject owns_simps(4))

lemma lock_inv_free:
  assumes "lock_inv s" "\<not> locked (the_lock s)"
  shows "\<And>d. \<not> owns (lpc s d)" "\<And>d. lk_cpu (the_lock s) = Some d \<longleftrightarrow> lpc s d = Critical"
  using assms unfolding lock_inv_def by auto

lemma lock_inv_spinner:
  assumes "lock_inv s" "lpc s c = Idle"
  shows "lock_inv (s\<lparr>lpc := (lpc s)(c := Spinning)\<rparr>)"
proof (cases "locked (the_lock s)")
  case True
  with assms(1) obtain d where "owns (lpc s d)" unfolding lock_inv_def by blast
  note d = lock_inv_owner [OF assms(1) this]
  show ?thesis
    by (rule lock_invI [where ow = "Some d"]) (use d(1) [of c] assms(2) in \<open>auto simp: d(1,2,3)\<close>)
next
  case False
  note d = lock_inv_free [OF assms(1) this]
  show ?thesis
    by (rule lock_invI [where ow = None]) (use d False assms(2) in auto)
qed

lemma lock_step_inv: "lock_step s t \<Longrightarrow> lock_inv s \<Longrightarrow> lock_inv t"
proof (induction rule: lock_step.induct)
  case (call_acquire s c)
  then show ?case by (simp add: lock_inv_spinner)
next
  case (exchange s c)
  note d = lock_inv_free [OF exchange(3,2)]
  show ?case by (rule lock_invI [where ow = "Some c"]) (use d exchange(1) in auto)
next
  case (exchange_busy s c)
  then show ?case by (simp add: lock_inv_def)
next
  case (set_cpu s c)
  have "owns (lpc s c)" using set_cpu(1) by simp
  note d = lock_inv_owner [OF set_cpu(2) this]
  show ?case by (rule lock_invI [where ow = "Some c"]) (auto simp: d(1,2,3) set_cpu(1) dest: d(4))
next
  case (clear_cpu s c)
  have "owns (lpc s c)" using clear_cpu(1) by simp
  note d = lock_inv_owner [OF clear_cpu(3) this]
  show ?case by (rule lock_invI [where ow = "Some c"]) (auto simp: d(1,2,3) clear_cpu(1) dest: d(4))
next
  case (unlock s c)
  have "owns (lpc s c)" using unlock(1) by simp
  note d = lock_inv_owner [OF unlock(2) this]
  show ?case by (rule lock_invI [where ow = None]) (auto simp: d(1,2,3) unlock(1) dest: d(4))
qed

lemma lock_reachable_inv: "lock_reachable s \<Longrightarrow> lock_inv s"
proof (induction rule: lock_reachable.induct)
  case start
  show ?case by (rule lock_invI [where ow = None]) (simp_all add: lock_init_def)
next
  case (step s t)
  then show ?case by (blast intro: lock_step_inv)
qed

section \<open>spinlock.c implements the contract\<close>

lemma push_off_simps [simp]:
  "spin (push_off c s) = spin s" "noff (cpus (push_off c s) c) = noff (cpus s c) + 1"
  "sie (cpus (push_off c s) c) = False"
  "intena (cpus (push_off c s) c) = (if noff (cpus s c) = 0 then sie (cpus s c) else intena (cpus s c))"
  by (simp_all add: push_off_def Let_def)

lemma holding_nested:
  assumes "1 \<le> noff (cpus s c)" "\<not> sie (cpus s c)"
  shows "holding l c s = Ok (locked (spin s l) \<and> lk_cpu (spin s l) = Some c, s)"
proof -
  have "(cpus s c)\<lparr>sie := False\<rparr> = cpus s c"
    using assms(2) by (cases "cpus s c") simp
  then have "s\<lparr>cpus := (cpus s)(c := (cpus s c)\<lparr>sie := False\<rparr>)\<rparr> = s"
    by (simp only: fun_upd_triv) simp
  then show ?thesis
    using assms by (simp add: holding_def push_off_def pop_off_def Let_def)
qed

lemma spin_acquire_eq:
  assumes "lock_rel c s t"
  shows "spin_acquire l c s =
    (if lk_cpu (spin s l) = Some c then Some (Panic ''acquire: already holding lock'')
     else if locked (spin s l) then None
     else Some (Ok ((push_off c s)\<lparr>spin := (spin s)(l := \<lparr>locked = True, lk_cpu = Some c\<rparr>)\<rparr>)))"
proof -
  have "holding l c (push_off c s) =
      Ok (locked (spin s l) \<and> lk_cpu (spin s l) = Some c, push_off c s)"
    using assms by (subst holding_nested) (simp_all add: lock_rel_def)
  moreover have "lk_cpu (spin s l) = Some c \<Longrightarrow> locked (spin s l)"
    using assms by (simp add: lock_rel_def)
  ultimately show ?thesis
    by (simp add: spin_acquire_def Let_def)
qed

lemma lock_rel_acquire:
  assumes "lock_rel c s t" "\<not> locked (spin s l)"
  shows "lock_rel c ((push_off c s)\<lparr>spin := (spin s)(l := \<lparr>locked = True, lk_cpu = Some c\<rparr>)\<rparr>)
           (t\<lparr>held := l # held t\<rparr>)"
  using assms by (auto simp: lock_rel_def)

lemma spin_release_eq:
  assumes "lock_rel c s t" "l \<in> set (held t)"
  shows "spin_release l c s =
    pop_off c (s\<lparr>spin := (spin s)(l := \<lparr>locked = False, lk_cpu = None\<rparr>)\<rparr>)"
proof -
  have "held t \<noteq> []" using assms(2) by auto
  then have "holding l c s = Ok (True, s)"
    using assms by (subst holding_nested) (auto simp: lock_rel_def neq_Nil_conv)
  then show ?thesis by (simp add: spin_release_def)
qed

lemma pop_off_nested:
  assumes "1 \<le> noff (cpus s c)" "\<not> sie (cpus s c)"
  shows "\<exists>s'. pop_off c s = Ok s' \<and> spin s' = spin s \<and> noff (cpus s' c) = noff (cpus s c) - 1 \<and>
    sie (cpus s' c) = (noff (cpus s c) = 1 \<and> intena (cpus s c)) \<and>
    intena (cpus s' c) = intena (cpus s c)"
  using assms by (simp add: pop_off_def Let_def)

lemma lock_rel_release:
  assumes "lock_rel c s t" "l \<in> set (held t)"
  shows "\<exists>s'. spin_release l c s = Ok s' \<and> lock_rel c s' (t\<lparr>held := remove1 l (held t)\<rparr>) \<and>
    sie (cpus s' c) = (remove1 l (held t) = [] \<and> intena (cpus s c))"
proof -
  define s1 where "s1 = s\<lparr>spin := (spin s)(l := \<lparr>locked = False, lk_cpu = None\<rparr>)\<rparr>"
  have len: "length (held t) = Suc (length (remove1 l (held t)))"
    using assms(2) by (simp add: length_remove1) (metis Suc_pred length_pos_if_in_set)
  then have "1 \<le> noff (cpus s1 c)" "\<not> sie (cpus s1 c)"
    using assms by (auto simp: s1_def lock_rel_def)
  from pop_off_nested [OF this] obtain s2 where s2: "pop_off c s1 = Ok s2" "spin s2 = spin s1"
    "noff (cpus s2 c) = noff (cpus s1 c) - 1"
    "sie (cpus s2 c) = (noff (cpus s1 c) = 1 \<and> intena (cpus s1 c))"
    by blast
  have "lock_rel c s2 (t\<lparr>held := remove1 l (held t)\<rparr>)"
    using assms len s2 by (auto simp: lock_rel_def s1_def)
  moreover have "sie (cpus s2 c) = (remove1 l (held t) = [] \<and> intena (cpus s c))"
    using s2(4) assms(1) len by (auto simp: lock_rel_def s1_def)
  ultimately show ?thesis
    using s2(1) spin_release_eq [OF assms] by (simp add: s1_def)
qed

lemma holding_idle:
  assumes "noff (cpus s c) = 0"
  shows "\<exists>s'. holding l c s = Ok (locked (spin s l) \<and> lk_cpu (spin s l) = Some c, s')"
  using assms by (simp add: holding_def push_off_def pop_off_def Let_def)

lemma spin_release_not_held:
  assumes "lock_rel c s t" "l \<notin> set (held t)"
  shows "spin_release l c s = Panic ''release: not holding lock''"
proof -
  have "\<exists>s'. holding l c s = Ok (locked (spin s l) \<and> lk_cpu (spin s l) = Some c, s')"
  proof (cases "held t")
    case Nil
    then show ?thesis using assms(1) by (intro holding_idle) (simp add: lock_rel_def)
  next
    case (Cons k ks)
    then show ?thesis using assms(1) holding_nested [of s c l] by (auto simp: lock_rel_def)
  qed
  moreover have "lk_cpu (spin s l) \<noteq> Some c" using assms by (simp add: lock_rel_def)
  ultimately show ?thesis by (auto simp: spin_release_def)
qed

section \<open>Properties\<close>

text \<open>
  C24. Mutual exclusion: in every state that any number of CPUs can reach by running \<open>acquire\<close> and
  \<open>release\<close> on one lock in any interleaving, at most one CPU is between the two calls.
\<close>

theorem spinlock_mutual_exclusion:
  assumes "lock_reachable s" "lpc s c = Critical" "lpc s d = Critical"
  shows "c = d"
proof -
  have "owns (lpc s d)" using assms(3) by simp
  from lock_inv_owner(4) [OF lock_reachable_inv [OF assms(1)] this assms(2)] show ?thesis .
qed

theorem spinlock_mutual_exclusion_witness:
  "\<exists>s. lock_reachable s \<and> lpc s 3 = Critical \<and> (\<forall>d. lpc s d = Critical \<longrightarrow> 3 = d)"
proof -
  define s1 where "s1 = lock_init\<lparr>lpc := (lpc lock_init)(3 := Spinning)\<rparr>"
  define s2 where "s2 = s1\<lparr>lpc := (lpc s1)(3 := Exchanged), the_lock := (the_lock s1)\<lparr>locked := True\<rparr>\<rparr>"
  define s3 where "s3 = s2\<lparr>lpc := (lpc s2)(3 := Critical), the_lock := (the_lock s2)\<lparr>lk_cpu := Some 3\<rparr>\<rparr>"
  have "lock_step lock_init s1" unfolding s1_def by (rule call_acquire) (simp_all add: lock_init_def)
  moreover have "lock_step s1 s2" unfolding s2_def by (rule exchange) (simp_all add: s1_def lock_init_def)
  moreover have "lock_step s2 s3" unfolding s3_def by (rule set_cpu) (simp add: s2_def)
  ultimately have "lock_reachable s3" by (meson lock_reachable.intros)
  moreover have "lpc s3 3 = Critical" by (simp add: s3_def)
  ultimately show ?thesis by (blast intro: spinlock_mutual_exclusion)
qed


definition smp_boot :: smp where
  "smp_boot = \<lparr>cpus = \<lambda>_. \<lparr>noff = 0, intena = False, sie = True\<rparr>,
     spin = \<lambda>_. \<lparr>locked = False, lk_cpu = None\<rparr>\<rparr>"


end
