(* ===== verification/Kalloc.thy ===== *)
theory Kalloc
  imports Machine "HOL-Library.Signed_Division"
begin

text \<open>
  The physical page allocator, \<open>kernel/mm/kalloc.c\<close>, on RISC-V with the bare-metal memory
  layout of \<open>arch/riscv/include/asm/machine.h\<close>: a free list threaded through the free pages
  themselves, and the table of page reference counts that copy-on-write uses.
\<close>

unbundle bit_operations_syntax

section \<open>Memory layout and state\<close>

abbreviation PGSIZE :: u64 where "PGSIZE \<equiv> 4096"
abbreviation KERNEL_VIRT_OFFSET :: u64 where "KERNEL_VIRT_OFFSET \<equiv> 0xFFFFFFC000000000"
abbreviation DRAM_BASE_LOW :: u64 where "DRAM_BASE_LOW \<equiv> 0x80000000"
abbreviation KERNEL_BASE_HIGH :: u64 where "KERNEL_BASE_HIGH \<equiv> 0xFFFFFFC080000000"
abbreviation PHYSTOP_LOW :: u64 where "PHYSTOP_LOW \<equiv> 0x88000000"
abbreviation PHYSTOP_HIGH :: u64 where "PHYSTOP_HIGH \<equiv> 0xFFFFFFC088000000"
abbreviation REFCNT_LEN :: int where "REFCNT_LEN \<equiv> 32768"

definition PA2VA :: "u64 \<Rightarrow> u64" where
  "PA2VA adr = adr + KERNEL_VIRT_OFFSET"

definition VA2PA :: "u64 \<Rightarrow> u64" where
  "VA2PA adr = adr - KERNEL_VIRT_OFFSET"

definition IS_RAM_KVA :: "u64 \<Rightarrow> bool" where
  "IS_RAM_KVA va \<longleftrightarrow> va \<ge> KERNEL_BASE_HIGH \<and> va \<le> PHYSTOP_HIGH"

text \<open>
  \<open>head_addr\<close> and \<open>kernel_end\<close> are link-time addresses (\<open>&head\<close> and the linker symbol
  \<open>_kernel_end\<close>); the other fields are the globals of the file.
\<close>

record kalloc_state = machine +
  head_addr :: u64
  kernel_end :: u64
  head_next :: u64
  FMM_size :: u64
  refcnt :: "nat \<Rightarrow> int"
  ekalloc_ptr :: u64

section \<open>Operations\<close>

text \<open>
  \<open>(int64) (arch_kva_to_pa(va) - ARCH_DRAM_BASE_LOW) / ARCH_PGSIZE\<close>, a signed division.
\<close>

definition page_index :: "u64 \<Rightarrow> int" where
  "page_index va = sint (VA2PA va - DRAM_BASE_LOW) sdiv 4096"

definition refcnt_read :: "int \<Rightarrow> 'a kalloc_state_scheme \<Rightarrow> int outcome" where
  "refcnt_read i s =
     (if 0 \<le> i \<and> i < REFCNT_LEN then Ok (refcnt s (nat i)) else Fault ''refcnt: index out of range'')"

definition refcnt_write :: "int \<Rightarrow> int \<Rightarrow> 'a kalloc_state_scheme \<Rightarrow> 'a kalloc_state_scheme outcome" where
  "refcnt_write i v s =
     (if \<not> (0 \<le> i \<and> i < REFCNT_LEN) then Fault ''refcnt: index out of range''
      else if v > 2147483647 then Fault ''refcnt: signed overflow''
      else Ok (s\<lparr>refcnt := (refcnt s)(nat i := v)\<rparr>))"

definition refcnt_inc :: "u64 \<Rightarrow> 'a kalloc_state_scheme \<Rightarrow> (int \<times> 'a kalloc_state_scheme) outcome" where
  "refcnt_inc va s =
     bnd (acquire MemLock s) (\<lambda>s.
     let refnum = to_c_int (page_index va) in
     bnd (refcnt_read refnum s) (\<lambda>r.
     if r \<le> 0 then Panic ''refcnt_inc: refcnt is 0'' else
     bnd (refcnt_write refnum (r + 1) s) (\<lambda>s.
     bnd (release MemLock s) (\<lambda>s. Ok (0, s)))))"

definition refcnt_dec :: "u64 \<Rightarrow> 'a kalloc_state_scheme \<Rightarrow> (int \<times> 'a kalloc_state_scheme) outcome" where
  "refcnt_dec va s =
     bnd (acquire MemLock s) (\<lambda>s.
     let refnum = to_c_int (page_index va) in
     bnd (refcnt_read refnum s) (\<lambda>r.
     if r \<le> 0 then Panic ''refcnt_dec: refcnt is 0'' else
     bnd (refcnt_write refnum (r - 1) s) (\<lambda>s.
     bnd (release MemLock s) (\<lambda>s. Ok (0, s)))))"

definition kfree :: "u64 \<Rightarrow> 'a kalloc_state_scheme \<Rightarrow> 'a kalloc_state_scheme outcome" where
  "kfree va s =
     (if \<not> IS_RAM_KVA va then Panic ''kfree: Low-address space cannot be released''
      else if va mod PGSIZE \<noteq> 0 \<or> va > PHYSTOP_HIGH \<or> va < kernel_end s
      then Panic ''kfree encounter an error''
      else
        bnd (acquire MemLock s) (\<lambda>s.
        bnd (refcnt_read (page_index va) s) (\<lambda>r.
        if r > 1 then
          bnd (refcnt_write (page_index va) (r - 1) s) (\<lambda>s. release MemLock s)
        else
          bnd (release MemLock s) (\<lambda>s.
          let s = s\<lparr>mem := memset (mem s) va 0 4096\<rparr> in
          bnd (acquire MemLock s) (\<lambda>s.
          let s = s\<lparr>mem := store64 (mem s) va (head_next s)\<rparr>;
              s = s\<lparr>head_next := va\<rparr>;
              s = s\<lparr>FMM_size := FMM_size s + 1\<rparr>
          in release MemLock s)))))"

definition kalloc :: "'a kalloc_state_scheme \<Rightarrow> (u64 \<times> 'a kalloc_state_scheme) outcome" where
  "kalloc s =
     bnd (acquire MemLock s) (\<lambda>s.
     if head_next s = head_addr s then bnd (release MemLock s) (\<lambda>s. Ok (0, s))
     else
       let temp = head_next s;
           s = s\<lparr>head_next := load64 (mem s) temp\<rparr>;
           s = s\<lparr>FMM_size := FMM_size s - 1\<rparr>;
           refnum = to_c_int (page_index temp)
       in bnd (refcnt_write refnum 1 s) (\<lambda>s.
          bnd (release MemLock s) (\<lambda>s.
          Ok (temp, s\<lparr>mem := memset (mem s) temp 0 4096\<rparr>))))"

text \<open>
  \<open>freerange\<close>: the loop condition is \<open>ps + ARCH_PGSIZE <= pe\<close> on pointers; a pointer addition
  that wraps is a fault.
\<close>

function freerange_loop ::
  "u64 \<Rightarrow> u64 \<Rightarrow> 'a kalloc_state_scheme \<Rightarrow> 'a kalloc_state_scheme outcome" where
  "freerange_loop ps pe s =
     (if unat ps + 4096 \<ge> 2 ^ 64 then Fault ''freerange: pointer overflow''
      else if ps + PGSIZE \<le> pe then bnd (kfree ps s) (\<lambda>s. freerange_loop (ps + PGSIZE) pe s)
      else Ok s)"
  by pat_completeness auto
termination
  by (relation "measure (\<lambda>(ps, pe, s). 2 ^ 64 - unat ps)") (auto simp: unat_word_ariths)

definition freerange :: "u64 \<Rightarrow> u64 \<Rightarrow> 'a kalloc_state_scheme \<Rightarrow> 'a kalloc_state_scheme outcome" where
  "freerange pa_start pa_end s =
     (if \<not> IS_RAM_KVA pa_start \<or> \<not> IS_RAM_KVA pa_end
      then Panic ''freerange: It must be a high address''
      else freerange_loop pa_start pa_end s)"

definition kalloc_init :: "'a kalloc_state_scheme \<Rightarrow> 'a kalloc_state_scheme outcome" where
  "kalloc_init s =
     (let s = initlock_held MemLock s;
          s = s\<lparr>head_next := head_addr s\<rparr>
      in freerange (ekalloc_ptr s) PHYSTOP_HIGH s)"

definition ekalloc :: "'a kalloc_state_scheme \<Rightarrow> (u64 \<times> 'a kalloc_state_scheme) outcome" where
  "ekalloc s =
     (if ekalloc_ptr s mod PGSIZE \<noteq> 0 then Panic ''ekalloc panic''
      else Ok (VA2PA (ekalloc_ptr s), s\<lparr>ekalloc_ptr := ekalloc_ptr s + PGSIZE\<rparr>))"

section \<open>The invariant\<close>

text \<open>\<open>free_path m h p xs\<close>: the list from pointer \<open>p\<close> back to the list head \<open>h\<close> visits \<open>xs\<close>.\<close>

fun free_path :: "memory \<Rightarrow> u64 \<Rightarrow> u64 \<Rightarrow> u64 list \<Rightarrow> bool" where
  "free_path m h p [] \<longleftrightarrow> p = h"
| "free_path m h p (x # xs) \<longleftrightarrow> p = x \<and> x \<noteq> h \<and> free_path m h (load64 m x) xs"

definition kpage :: "'a kalloc_state_scheme \<Rightarrow> u64 \<Rightarrow> bool" where
  "kpage s p \<longleftrightarrow> aligned 12 p \<and> kernel_end s \<le> p \<and> p < PHYSTOP_HIGH"

definition page_ref :: "'a kalloc_state_scheme \<Rightarrow> u64 \<Rightarrow> int" where
  "page_ref s p = refcnt s (nat (page_index p))"

definition kalloc_inv :: "'a kalloc_state_scheme \<Rightarrow> u64 list \<Rightarrow> bool" where
  "kalloc_inv s xs \<longleftrightarrow>
     KERNEL_BASE_HIGH \<le> kernel_end s \<and> head_addr s < kernel_end s \<and>
     free_path (mem s) (head_addr s) (head_next s) xs \<and> distinct xs \<and>
     (\<forall>x \<in> set xs. kpage s x) \<and> FMM_size s = of_nat (length xs)"

section \<open>Pages\<close>

definition in_page :: "u64 \<Rightarrow> u64 \<Rightarrow> bool" where
  "in_page p x \<longleftrightarrow> unat (x - p) < 4096"

lemma in_page_div:
  assumes "aligned 12 p"
  shows "in_page p x \<longleftrightarrow> unat x div 4096 = unat p div 4096"
proof -
  obtain q where q: "unat p = 4096 * q"
    using assms by (auto simp: aligned_def elim: dvdE)
  show ?thesis
  proof
    assume "in_page p x"
    then have "unat x = unat p + unat (x - p)"
      using aligned_add_unat [of 12 p "unat (x - p)"] assms by (simp add: in_page_def)
    then show "unat x div 4096 = unat p div 4096"
      using \<open>in_page p x\<close> by (simp add: q in_page_def)
  next
    assume "unat x div 4096 = unat p div 4096"
    then have "unat x div 4096 = q" by (simp add: q)
    then have "unat p \<le> unat x" "unat x - unat p < 4096" by (auto simp: q)
    then show "in_page p x" by (simp add: in_page_def unat_sub_if')
  qed
qed

lemma in_page_unique: "aligned 12 p \<Longrightarrow> aligned 12 q \<Longrightarrow> in_page p x \<Longrightarrow> in_page q x \<Longrightarrow> p = q"
  by (auto simp: in_page_div aligned_def word_eq_iff_unat elim!: dvdE)

lemma in_page_self [simp]: "in_page p p"
  by (simp add: in_page_def)

lemma in_page_word:
  assumes "aligned 12 p" "aligned 3 b" "i < 8"
  shows "in_page p (b + of_nat i) \<longleftrightarrow> in_page p b"
proof -
  obtain k where "unat b = 8 * k" using assms(2) by (auto simp: aligned_def elim: dvdE)
  then have "unat (b + of_nat i) div 4096 = unat b div 4096"
    using aligned_add_unat [of 3 b i] assms(2,3) by simp
  then show ?thesis using assms(1) by (simp add: in_page_div)
qed

lemma memset_page: "memset m p c 4096 = (\<lambda>x. if in_page p x then word_of_int c else m x)"
  using memset_eq [of 4096 m p c] by (simp add: in_page_def)

lemma load64_memset_page:
  assumes "aligned 12 p" "aligned 3 b"
  shows "load64 (memset m p 0 4096) b = (if in_page p b then 0 else load64 m b)"
proof (cases "in_page p b")
  case True
  then have "load_le 8 (memset m p 0 4096) b = (load_le 8 (\<lambda>_. 0) b :: u64)"
    using in_page_word [OF assms] by (intro load_le_cong) (simp add: memset_page)
  also have "\<dots> = 0" by (rule bit_eqI) (simp add: bit_load_le)
  finally show ?thesis using True by (simp add: load64_def)
next
  case False
  then have "load_le 8 (memset m p 0 4096) b = (load_le 8 m b :: u64)"
    using in_page_word [OF assms] by (intro load_le_cong) (simp add: memset_page)
  then show ?thesis using False by (simp add: load64_def)
qed

lemma kpage_aligned: "kpage s p \<Longrightarrow> aligned 12 p" "kpage s p \<Longrightarrow> aligned 3 p"
  by (auto simp: kpage_def intro: aligned_weaken)

lemma kpage_in_page: "kpage s p \<Longrightarrow> kpage s q \<Longrightarrow> in_page p q \<longleftrightarrow> p = q"
  using in_page_unique [of p q q] by (auto simp: kpage_aligned)

text \<open>The reference count index of a RAM page.\<close>

lemma page_index_eq:
  assumes "KERNEL_BASE_HIGH \<le> va" "va \<le> PHYSTOP_HIGH"
  shows "page_index va = int ((unat va - unat KERNEL_BASE_HIGH) div 4096)"
proof -
  define d where "d = va - KERNEL_BASE_HIGH"
  have d: "VA2PA va - DRAM_BASE_LOW = d" by (simp add: VA2PA_def d_def)
  have ud: "unat d = unat va - unat KERNEL_BASE_HIGH"
    using assms(1) unfolding d_def by (simp only: unat_sub)
  moreover have "unat va \<le> unat PHYSTOP_HIGH" using assms(2) by (simp only: word_le_nat_alt)
  ultimately have "unat d \<le> 134217728" by simp
  then have "int (unat d) \<le> 134217728" by linarith
  then have u: "uint d \<le> 134217728" by (simp only: uint_nat)
  have l: "- 9223372036854775808 \<le> uint d" using uint_ge_0 [of d] by linarith
  have "sint d = uint d"
    using u l unfolding sint_uint by (intro signed_take_bit_int_eq_self) simp_all
  then have "sint d = int (unat d)" by (simp only: uint_nat)
  moreover have "int n sdiv 4096 = int (n div 4096)" for n
    by (cases "n = 0") (simp_all add: signed_divide_int_def zdiv_int sgn_mult)
  ultimately show ?thesis
    by (simp only: page_index_def d ud)
qed

lemma page_index_bounds:
  assumes "KERNEL_BASE_HIGH \<le> kernel_end s" "kpage s p"
  shows "0 \<le> page_index p" "page_index p < REFCNT_LEN" "to_c_int (page_index p) = page_index p"
proof -
  have p: "KERNEL_BASE_HIGH \<le> p" "p < PHYSTOP_HIGH"
    using assms by (auto simp: kpage_def)
  then have i: "page_index p = int ((unat p - unat KERNEL_BASE_HIGH) div 4096)"
    by (intro page_index_eq) auto
  have "unat p < unat PHYSTOP_HIGH" using p(2) by (simp only: word_less_nat_alt)
  then show "page_index p < REFCNT_LEN" by (simp add: i)
  show "0 \<le> page_index p" by (simp add: i)
  with \<open>page_index p < REFCNT_LEN\<close> show "to_c_int (page_index p) = page_index p"
    by (simp add: to_c_int_def signed_of_int signed_take_bit_int_eq_self)
qed

lemma page_index_inj:
  assumes "KERNEL_BASE_HIGH \<le> kernel_end s" "kpage s p" "kpage s q" "page_index p = page_index q"
  shows "p = q"
proof -
  define k :: nat where "k = unat KERNEL_BASE_HIGH div 4096"
  have k: "unat KERNEL_BASE_HIGH = 4096 * k" by (simp add: k_def)
  have le: "KERNEL_BASE_HIGH \<le> p" "p \<le> PHYSTOP_HIGH" "KERNEL_BASE_HIGH \<le> q" "q \<le> PHYSTOP_HIGH"
    using assms(1,2,3) by (auto simp: kpage_def)
  obtain i j where ij: "unat p = 4096 * i" "unat q = 4096 * j"
    using assms(2,3) by (auto simp: kpage_def aligned_def elim!: dvdE)
  have "(4096 * i - 4096 * k) div 4096 = (4096 * j - 4096 * k) div 4096"
    using assms(4) page_index_eq [OF le(1,2)] page_index_eq [OF le(3,4)] by (simp only: ij k of_nat_eq_iff)
  then have "i - k = j - k" by (simp flip: diff_mult_distrib2)
  moreover have "k \<le> i" "k \<le> j"
    using le(1,3) unfolding word_le_nat_alt k ij by simp_all
  ultimately show ?thesis
    using ij by (simp add: word_eq_iff_unat)
qed

section \<open>Allocation and release\<close>

lemma free_path_cong:
  "(\<And>x. x \<in> set xs \<Longrightarrow> load64 m x = load64 m' x) \<Longrightarrow> free_path m h p xs = free_path m' h p xs"
  by (induction xs arbitrary: p) auto

lemma kalloc_invD:
  assumes "kalloc_inv s xs"
  shows "KERNEL_BASE_HIGH \<le> kernel_end s" "head_addr s < kernel_end s" "distinct xs"
    "\<And>x. x \<in> set xs \<Longrightarrow> kpage s x" "FMM_size s = of_nat (length xs)"
    "free_path (mem s) (head_addr s) (head_next s) xs"
  using assms by (auto simp: kalloc_inv_def)

definition kalloc_take :: "u64 \<Rightarrow> 'a kalloc_state_scheme \<Rightarrow> 'a kalloc_state_scheme" where
  "kalloc_take x s = s\<lparr>mem := memset (mem s) x 0 4096, head_next := load64 (mem s) x,
     FMM_size := FMM_size s - 1, refcnt := (refcnt s)(nat (page_index x) := 1)\<rparr>"

definition kfree_put :: "u64 \<Rightarrow> 'a kalloc_state_scheme \<Rightarrow> 'a kalloc_state_scheme" where
  "kfree_put x s = s\<lparr>mem := store64 (memset (mem s) x 0 4096) x (head_next s), head_next := x,
     FMM_size := FMM_size s + 1\<rparr>"

lemma kalloc_Nil:
  assumes "kalloc_inv s []" "MemLock \<notin> set (held s)"
  shows "kalloc s = Ok (0, s)"
  using assms by (simp add: kalloc_def kalloc_inv_def)

lemma kalloc_Cons:
  assumes "kalloc_inv s (x # xs)" "MemLock \<notin> set (held s)"
  shows "kalloc s = Ok (x, kalloc_take x s)"
proof -
  have "kpage s x" "head_next s = x" "x \<noteq> head_addr s"
    using assms(1) by (auto simp: kalloc_inv_def)
  moreover note page_index_bounds [OF kalloc_invD(1) [OF assms(1)] \<open>kpage s x\<close>]
  ultimately show ?thesis
    using assms(2) by (simp add: kalloc_def refcnt_write_def kalloc_take_def Let_def)
qed

lemma kalloc_take_inv:
  assumes "kalloc_inv s (x # xs)"
  shows "kalloc_inv (kalloc_take x s) xs"
proof -
  note D = kalloc_invD [OF assms]
  have "load64 (memset (mem s) x 0 4096) y = load64 (mem s) y" if "y \<in> set xs" for y
  proof -
    have "kpage s x" "kpage s y" "x \<noteq> y" using D(3,4) that by auto
    then show ?thesis
      using kpage_in_page [of s x y] by (simp add: load64_memset_page kpage_aligned)
  qed
  then have "free_path (memset (mem s) x 0 4096) (head_addr s) (load64 (mem s) x) xs"
    using D(6) by (subst free_path_cong [where m' = "mem s"]) auto
  then show ?thesis
    using D by (auto simp: kalloc_inv_def kalloc_take_def kpage_def)
qed

lemma kfree_eq:
  assumes "KERNEL_BASE_HIGH \<le> kernel_end s" "kpage s p" "MemLock \<notin> set (held s)"
  shows "kfree p s =
    (if page_ref s p > 1 then
       if page_ref s p - 1 > 2147483647 then Fault ''refcnt: signed overflow''
       else Ok (s\<lparr>refcnt := (refcnt s)(nat (page_index p) := page_ref s p - 1)\<rparr>)
     else Ok (kfree_put p s))"
proof -
  have "IS_RAM_KVA p" "\<not> p > PHYSTOP_HIGH" "\<not> p < kernel_end s"
    using assms(1,2) by (auto simp: kpage_def IS_RAM_KVA_def)
  moreover have "p mod PGSIZE = 0"
    using assms(2) by (simp add: kpage_def aligned_def word_eq_iff_unat unat_mod mod_eq_0_iff_dvd)
  moreover note page_index_bounds [OF assms(1,2)]
  ultimately show ?thesis
    using assms(3)
    by (simp add: kfree_def refcnt_read_def refcnt_write_def kfree_put_def page_ref_def Let_def)
qed

lemma kfree_put_inv:
  assumes "kalloc_inv s xs" "kpage s p" "p \<notin> set xs"
  shows "kalloc_inv (kfree_put p s) (p # xs)"
proof -
  note D = kalloc_invD [OF assms(1)]
  have "load64 (store64 (memset (mem s) p 0 4096) p (head_next s)) y = load64 (mem s) y"
    if "y \<in> set xs" for y
  proof -
    have "kpage s y" "p \<noteq> y" using D(4) that assms(3) by auto
    then show ?thesis
      using kpage_in_page [of s p y] assms(2)
      by (simp add: load64_store64 load64_memset_page kpage_aligned)
  qed
  then have "free_path (store64 (memset (mem s) p 0 4096) p (head_next s)) (head_addr s) (head_next s) xs"
    using D(6) by (subst free_path_cong [where m' = "mem s"]) auto
  moreover have "p \<noteq> head_addr s"
    using D(2) assms(2) by (auto simp: kpage_def)
  ultimately show ?thesis
    using D assms(2,3) by (auto simp: kalloc_inv_def kfree_put_def kpage_def)
qed

section \<open>The allocator interface\<close>

text \<open>
  What a client of the allocator relies on: from a state whose free list is \<open>x # xs\<close>, \<open>alloc\<close>
  returns \<open>x\<close>, zeroed, and touches no other page; from an empty list it returns 0 and changes
  nothing; \<open>free\<close> of an owned page with one reference puts the page back.
\<close>

fun alloc_many :: "('s \<Rightarrow> (u64 \<times> 's) outcome) \<Rightarrow> nat \<Rightarrow> 's \<Rightarrow> (u64 list \<times> 's) outcome" where
  "alloc_many alloc 0 s = Ok ([], s)"
| "alloc_many alloc (Suc n) s =
     bnd (alloc s) (\<lambda>(p, s). bnd (alloc_many alloc n s) (\<lambda>(ps, s). Ok (p # ps, s)))"

fun free_many :: "(u64 \<Rightarrow> 's \<Rightarrow> 's outcome) \<Rightarrow> u64 list \<Rightarrow> 's \<Rightarrow> 's outcome" where
  "free_many free [] s = Ok s"
| "free_many free (p # ps) s = bnd (free p s) (free_many free ps)"

locale page_allocator =
  fixes alloc :: "'s \<Rightarrow> (u64 \<times> 's) outcome"
    and free :: "u64 \<Rightarrow> 's \<Rightarrow> 's outcome"
    and inv :: "'s \<Rightarrow> u64 list \<Rightarrow> bool"
    and page :: "'s \<Rightarrow> u64 \<Rightarrow> bool"
    and refs :: "'s \<Rightarrow> u64 \<Rightarrow> int"
    and bytes :: "'s \<Rightarrow> memory"
  assumes alloc_empty: "inv s [] \<Longrightarrow> alloc s = Ok (0, s)"
    and alloc_some: "inv s (x # xs) \<Longrightarrow> \<exists>s'. alloc s = Ok (x, s') \<and> inv s' xs \<and>
      (\<forall>a. bytes s' a = (if in_page x a then 0 else bytes s a)) \<and>
      (\<forall>p. page s' p = page s p) \<and> refs s' x = 1 \<and>
      (\<forall>p. page s p \<longrightarrow> p \<noteq> x \<longrightarrow> refs s' p = refs s p)"
    and free_last: "inv s xs \<Longrightarrow> page s p \<Longrightarrow> p \<notin> set xs \<Longrightarrow> refs s p \<le> 1 \<Longrightarrow>
      \<exists>s'. free p s = Ok s' \<and> inv s' (p # xs) \<and> (\<forall>a. \<not> in_page p a \<longrightarrow> bytes s' a = bytes s a) \<and>
        (\<forall>p. page s' p = page s p) \<and> refs s' = refs s"
    and inv_distinct: "inv s xs \<Longrightarrow> distinct xs"
    and inv_page: "inv s xs \<Longrightarrow> x \<in> set xs \<Longrightarrow> page s x"
begin

lemma alloc_many_takes:
  "inv s (xs @ ys) \<Longrightarrow>
    \<exists>s'. alloc_many alloc (length xs) s = Ok (xs, s') \<and> inv s' ys \<and> (\<forall>p. page s' p = page s p)"
proof (induction xs arbitrary: s)
  case Nil
  then show ?case by simp
next
  case (Cons x xs)
  from alloc_some [of s x "xs @ ys"] Cons.prems obtain s1
    where s1: "alloc s = Ok (x, s1)" "inv s1 (xs @ ys)" "\<forall>p. page s1 p = page s p"
    by auto
  from Cons.IH [OF s1(2)] s1 show ?case by auto
qed

lemma alloc_many_fresh:
  assumes "inv s xs" "n \<le> length xs"
  shows "\<exists>ps s'. alloc_many alloc n s = Ok (ps, s') \<and> length ps = n \<and> distinct ps \<and>
    set ps \<inter> set (drop n xs) = {} \<and> inv s' (drop n xs)"
proof -
  have "inv s (take n xs @ drop n xs)" using assms(1) by simp
  from alloc_many_takes [OF this] assms(2) obtain s'
    where "alloc_many alloc n s = Ok (take n xs, s')" "inv s' (drop n xs)" by auto
  moreover have "distinct (take n xs @ drop n xs)" using inv_distinct [OF assms(1)] by simp
  ultimately show ?thesis using assms(2) by (auto simp only: distinct_append length_take) force
qed

lemma free_then_alloc:
  assumes "inv s xs" "page s p" "p \<notin> set xs" "refs s p \<le> 1"
  shows "\<exists>s1 s2. free p s = Ok s1 \<and> alloc s1 = Ok (p, s2) \<and> inv s2 xs \<and> refs s2 p = 1 \<and>
    (\<forall>a. bytes s2 a = (if in_page p a then 0 else bytes s a))"
proof -
  from free_last [OF assms] obtain s1 where s1: "free p s = Ok s1" "inv s1 (p # xs)"
    "\<forall>a. \<not> in_page p a \<longrightarrow> bytes s1 a = bytes s a" by blast
  from alloc_some [OF s1(2)] s1 show ?thesis by force
qed

end

text \<open>kalloc.c provides it, whenever \<open>mem_lock\<close> is free.\<close>

definition kalloc_ready :: "'a kalloc_state_scheme \<Rightarrow> u64 list \<Rightarrow> bool" where
  "kalloc_ready s xs \<longleftrightarrow> kalloc_inv s xs \<and> MemLock \<notin> set (held s)"

lemma kalloc_take_simps [simp]:
  "held (kalloc_take x s) = held s" "kernel_end (kalloc_take x s) = kernel_end s"
  "kpage (kalloc_take x s) = kpage s" "mem (kalloc_take x s) = memset (mem s) x 0 4096"
  "head_addr (kalloc_take x s) = head_addr s"
  by (auto simp: kalloc_take_def kpage_def fun_eq_iff)

lemma kfree_put_simps [simp]:
  "held (kfree_put x s) = held s" "kernel_end (kfree_put x s) = kernel_end s"
  "kpage (kfree_put x s) = kpage s" "refcnt (kfree_put x s) = refcnt s"
  "head_addr (kfree_put x s) = head_addr s"
  by (auto simp: kfree_put_def kpage_def fun_eq_iff)

lemma store64_other: "\<not> unat (a - p) < 8 \<Longrightarrow> store64 m p v a = m a"
  by (simp add: store64_def store_le_def)

lemma page_ref_take:
  assumes "KERNEL_BASE_HIGH \<le> kernel_end s" "kpage s x" "kpage s p"
  shows "page_ref (kalloc_take x s) p = (if p = x then 1 else page_ref s p)"
  using page_index_inj [OF assms(1,3,2)] page_index_bounds [OF assms(1)] assms(2,3)
  by (auto simp: page_ref_def kalloc_take_def nat_eq_iff2)

interpretation ka: page_allocator kalloc kfree kalloc_ready kpage page_ref mem
proof unfold_locales
  fix s :: "'a kalloc_state_scheme" and x xs
  assume ready: "kalloc_ready s (x # xs)"
  then have i: "kalloc_inv s (x # xs)" "kpage s x" by (auto simp: kalloc_ready_def kalloc_inv_def)
  show "\<exists>s'. kalloc s = Ok (x, s') \<and> kalloc_ready s' xs \<and>
      (\<forall>a. mem s' a = (if in_page x a then 0 else mem s a)) \<and> (\<forall>p. kpage s' p = kpage s p) \<and>
      page_ref s' x = 1 \<and> (\<forall>p. kpage s p \<longrightarrow> p \<noteq> x \<longrightarrow> page_ref s' p = page_ref s p)"
    using ready kalloc_Cons [OF i(1)] kalloc_take_inv [OF i(1)] i(2)
      page_ref_take [OF kalloc_invD(1) [OF i(1)] i(2)]
    by (auto simp: kalloc_ready_def memset_page)
next
  fix s :: "'a kalloc_state_scheme" and xs p
  assume r: "kalloc_ready s xs" "kpage s p" "p \<notin> set xs" "page_ref s p \<le> 1"
  have "mem (kfree_put p s) a = mem s a" if "\<not> in_page p a" for a
    using that by (auto simp: kfree_put_def store64_other memset_page in_page_def)
  then show "\<exists>s'. kfree p s = Ok s' \<and> kalloc_ready s' (p # xs) \<and>
      (\<forall>a. \<not> in_page p a \<longrightarrow> mem s' a = mem s a) \<and> (\<forall>q. kpage s' q = kpage s q) \<and>
      page_ref s' = page_ref s"
    using r kfree_eq [of s p] kfree_put_inv [of s xs p]
    by (auto simp: kalloc_ready_def page_ref_def fun_eq_iff dest: kalloc_invD(1))
qed (auto simp: kalloc_ready_def kalloc_Nil dest: kalloc_invD)

section \<open>Reference counts\<close>

definition ref_set :: "u64 \<Rightarrow> int \<Rightarrow> 'a kalloc_state_scheme \<Rightarrow> 'a kalloc_state_scheme" where
  "ref_set p n s = s\<lparr>refcnt := (refcnt s)(nat (page_index p) := n)\<rparr>"

lemma refcnt_inc_eq:
  assumes "KERNEL_BASE_HIGH \<le> kernel_end s" "kpage s p" "MemLock \<notin> set (held s)"
    "0 < page_ref s p" "page_ref s p < 2147483647"
  shows "refcnt_inc p s = Ok (0, ref_set p (page_ref s p + 1) s)"
  using page_index_bounds [OF assms(1,2)] assms(3-5)
  by (simp add: refcnt_inc_def refcnt_read_def refcnt_write_def page_ref_def ref_set_def Let_def)

lemma refcnt_dec_eq:
  assumes "KERNEL_BASE_HIGH \<le> kernel_end s" "kpage s p" "MemLock \<notin> set (held s)"
    "0 < page_ref s p" "page_ref s p \<le> 2147483647"
  shows "refcnt_dec p s = Ok (0, ref_set p (page_ref s p - 1) s)"
  using page_index_bounds [OF assms(1,2)] assms(3-5)
  by (simp add: refcnt_dec_def refcnt_read_def refcnt_write_def page_ref_def ref_set_def Let_def)

lemma ref_set_simps [simp]:
  "mem (ref_set p n s) = mem s" "held (ref_set p n s) = held s" "kpage (ref_set p n s) = kpage s"
  "kernel_end (ref_set p n s) = kernel_end s" "kalloc_ready (ref_set p n s) = kalloc_ready s"
  by (simp_all add: ref_set_def kpage_def kalloc_ready_def kalloc_inv_def fun_eq_iff)

lemma page_ref_set:
  assumes "KERNEL_BASE_HIGH \<le> kernel_end s" "kpage s p" "kpage s q"
  shows "page_ref (ref_set p n s) q = (if q = p then n else page_ref s q)"
  using page_index_inj [OF assms(1,3,2)] page_index_bounds [OF assms(1)] assms(2,3)
  by (auto simp: page_ref_def ref_set_def nat_eq_iff2)

section \<open>Initialisation\<close>

text \<open>The pages \<open>[a, a + 4096 n)\<close> in the order \<open>freerange\<close> visits them.\<close>

fun page_range :: "u64 \<Rightarrow> nat \<Rightarrow> u64 list" where
  "page_range a 0 = []"
| "page_range a (Suc n) = a # page_range (a + PGSIZE) n"

lemma unat_add_page: "unat (a :: u64) + 4096 < 2 ^ 64 \<Longrightarrow> unat (a + PGSIZE) = unat a + 4096"
  by (simp add: unat_word_ariths)

lemma aligned_add_page: "aligned 12 a \<Longrightarrow> aligned 12 (a + PGSIZE)"
  using aligned_add [of 12 a 4096] by (simp add: aligned_def)

lemma freerange_loop_frees:
  assumes "kalloc_ready s xs" "aligned 12 ps" "kernel_end s \<le> ps"
    "unat ps + 4096 * n = unat PHYSTOP_HIGH" "\<And>x. x \<in> set xs \<Longrightarrow> x < ps" "\<And>i. refcnt s i \<le> 1"
  shows "\<exists>s'. freerange_loop ps PHYSTOP_HIGH s = Ok s' \<and> kalloc_ready s' (rev (page_range ps n) @ xs) \<and>
    refcnt s' = refcnt s \<and> ekalloc_ptr s' = ekalloc_ptr s \<and> kernel_end s' = kernel_end s"
  using assms
proof (induction n arbitrary: ps s xs)
  case 0
  have "ps = PHYSTOP_HIGH" using "0.prems"(4) by (simp only: word_eq_iff_unat)
  then show ?case using "0.prems"(1) by (subst freerange_loop.simps) simp
next
  case (Suc n)
  have small: "unat ps + 4096 < 2 ^ 64" using Suc.prems(4) by simp
  note up = unat_add_page [OF small]
  have "unat ps < unat PHYSTOP_HIGH" "unat (ps + PGSIZE) \<le> unat PHYSTOP_HIGH" "unat ps < unat (ps + PGSIZE)"
    using Suc.prems(4) up by simp_all
  then have lt: "ps < PHYSTOP_HIGH" "ps + PGSIZE \<le> PHYSTOP_HIGH" "ps < ps + PGSIZE"
    by (simp_all only: word_less_nat_alt word_le_nat_alt)
  have kp: "kpage s ps" using Suc.prems(2,3) lt by (simp add: kpage_def)
  have "ps \<notin> set xs" using Suc.prems(5) by force
  moreover have "kalloc_inv s xs" "MemLock \<notin> set (held s)" using Suc.prems(1) by (auto simp: kalloc_ready_def)
  moreover have "\<not> page_ref s ps > 1" using Suc.prems(6) by (simp add: page_ref_def linorder_not_less)
  ultimately have free: "kfree ps s = Ok (kfree_put ps s)" "kalloc_ready (kfree_put ps s) (ps # xs)"
    using kp kfree_eq [of s ps] kfree_put_inv [of s xs ps] by (auto simp: kalloc_ready_def dest: kalloc_invD(1))
  have "\<exists>s'. freerange_loop (ps + PGSIZE) PHYSTOP_HIGH (kfree_put ps s) = Ok s' \<and>
      kalloc_ready s' (rev (page_range (ps + PGSIZE) n) @ ps # xs) \<and>
      refcnt s' = refcnt (kfree_put ps s) \<and> ekalloc_ptr s' = ekalloc_ptr (kfree_put ps s) \<and>
      kernel_end s' = kernel_end (kfree_put ps s)"
  proof (rule Suc.IH [OF free(2) aligned_add_page [OF Suc.prems(2)]])
    show "kernel_end (kfree_put ps s) \<le> ps + PGSIZE" using Suc.prems(3) lt(3) by simp
    show "unat (ps + PGSIZE) + 4096 * n = unat PHYSTOP_HIGH" using Suc.prems(4) up by simp
    show "x < ps + PGSIZE" if "x \<in> set (ps # xs)" for x
      using that lt(3) Suc.prems(5) [of x] by auto
    show "refcnt (kfree_put ps s) i \<le> 1" for i using Suc.prems(6) by simp
  qed
  then obtain s' where s': "freerange_loop (ps + PGSIZE) PHYSTOP_HIGH (kfree_put ps s) = Ok s'"
      "kalloc_ready s' (rev (page_range (ps + PGSIZE) n) @ ps # xs)" "refcnt s' = refcnt s"
      "ekalloc_ptr s' = ekalloc_ptr s" "kernel_end s' = kernel_end s"
    by (auto simp: kfree_put_def)
  have "freerange_loop ps PHYSTOP_HIGH s = freerange_loop (ps + PGSIZE) PHYSTOP_HIGH (kfree_put ps s)"
    using small lt(2) free(1) by (subst freerange_loop.simps) (simp del: freerange_loop.simps)
  then show ?case using s' by (simp del: freerange_loop.simps)
qed

section \<open>Properties\<close>

text \<open>A machine with two pages of free RAM, for the witnesses.\<close>

definition boot :: kalloc_state where
  "boot = \<lparr>mem = \<lambda>_. 0, held = [], head_addr = 0xFFFFFFC087FFD000, kernel_end = 0xFFFFFFC087FFE000,
     head_next = 0xFFFFFFC087FFD000, FMM_size = 0, refcnt = \<lambda>_. 0, ekalloc_ptr = 0xFFFFFFC087FFE000\<rparr>"

abbreviation boot_p :: u64 where "boot_p \<equiv> 0xFFFFFFC087FFE000"

lemma boot_ready: "kalloc_ready boot []" "kpage boot boot_p"
  "page_ref boot boot_p = 0" "kalloc_ready (kfree_put boot_p boot) [boot_p]"
proof -
  show r: "kalloc_ready boot []" "kpage boot boot_p" "page_ref boot boot_p = 0"
    by (simp_all add: boot_def kalloc_ready_def kalloc_inv_def kpage_def aligned_def page_ref_def)
  then have "kalloc_inv (kfree_put boot_p boot) [boot_p]"
    by (intro kfree_put_inv) (auto simp: kalloc_ready_def)
  then show "kalloc_ready (kfree_put boot_p boot) [boot_p]"
    by (simp add: kalloc_ready_def boot_def)
qed

text \<open>
  C23. With the free list \<open>xs\<close>, \<open>kalloc\<close> returns a null pointer and changes nothing when \<open>xs\<close> is
  empty. Otherwise it returns the first free page, removes it from the list, gives it the reference
  count 1, fills it with zeros, and changes no byte outside it and no other reference count.
\<close>

theorem kalloc_correct:
  assumes "kalloc_ready s xs"
  shows "case xs of
      [] \<Rightarrow> kalloc s = Ok (0, s)
    | x # ys \<Rightarrow> \<exists>s'. kalloc s = Ok (x, s') \<and> kalloc_ready s' ys \<and> page_ref s' x = 1 \<and>
        (\<forall>a. mem s' a = (if in_page x a then 0 else mem s a)) \<and>
        (\<forall>p. kpage s p \<longrightarrow> p \<noteq> x \<longrightarrow> page_ref s' p = page_ref s p)"
  using ka.alloc_empty [of s] ka.alloc_some [of s] assms by (cases xs) fastforce+

theorem kalloc_correct_witness:
  "\<exists>s'. kalloc (kfree_put boot_p boot) = Ok (boot_p, s') \<and> kalloc_ready s' []"
  using kalloc_correct [OF boot_ready(4)] by auto

text \<open>
  Allocation never hands out a page twice: as long as \<open>n\<close> pages are free, \<open>n\<close> calls of
  \<open>kalloc\<close> succeed, their results are pairwise distinct, and none of them is still on the free list.
\<close>

theorem kalloc_no_double_allocation:
  assumes "kalloc_ready s xs" "n \<le> length xs"
  shows "\<exists>ps s'. alloc_many kalloc n s = Ok (ps, s') \<and> length ps = n \<and> distinct ps \<and>
    set ps \<inter> set (drop n xs) = {} \<and> kalloc_ready s' (drop n xs)"
  using assms by (rule ka.alloc_many_fresh)

theorem kalloc_no_double_allocation_witness:
  "\<exists>ps s'. alloc_many kalloc 1 (kfree_put boot_p boot) = Ok (ps, s') \<and> length ps = 1"
  using kalloc_no_double_allocation [OF boot_ready(4), of 1] by auto

text \<open>
  Releasing the last reference to a page and allocating again gives the same page back, zeroed,
  with reference count 1, with the free list as it was and every byte outside the page unchanged.
\<close>

theorem kfree_kalloc_roundtrip:
  assumes "kalloc_ready s xs" "kpage s p" "p \<notin> set xs" "page_ref s p \<le> 1"
  shows "\<exists>s1 s2. kfree p s = Ok s1 \<and> kalloc s1 = Ok (p, s2) \<and> kalloc_ready s2 xs \<and>
    page_ref s2 p = 1 \<and> (\<forall>a. mem s2 a = (if in_page p a then 0 else mem s a))"
  using assms by (rule ka.free_then_alloc)

theorem kfree_kalloc_roundtrip_witness:
  "\<exists>s1 s2. kfree boot_p boot = Ok s1 \<and> kalloc s1 = Ok (boot_p, s2)"
  using kfree_kalloc_roundtrip [OF boot_ready(1,2)] boot_ready(3) by auto

text \<open>
  C27. \<open>kalloc_init\<close>, started with no reference counts and the early allocator's pointer at a page
  boundary of the RAM behind the kernel image, ends normally, and the free list then holds every
  page between that pointer and the end of RAM, each once; \<open>FMM.size\<close> counts them.
\<close>

theorem kalloc_init_frees_all:
  assumes "KERNEL_BASE_HIGH \<le> kernel_end s" "head_addr s < kernel_end s" "FMM_size s = 0"
    "\<And>i. refcnt s i = 0" "aligned 12 (ekalloc_ptr s)" "kernel_end s \<le> ekalloc_ptr s"
    "ekalloc_ptr s \<le> PHYSTOP_HIGH"
  defines "n \<equiv> (unat PHYSTOP_HIGH - unat (ekalloc_ptr s)) div 4096"
  shows "\<exists>s'. kalloc_init s = Ok s' \<and> kalloc_ready s' (rev (page_range (ekalloc_ptr s) n)) \<and>
    FMM_size s' = of_nat n"
proof -
  define t where "t = (initlock_held MemLock s)\<lparr>head_next := head_addr s\<rparr>"
  have t: "kalloc_ready t []" "ekalloc_ptr t = ekalloc_ptr s" "kernel_end t = kernel_end s" "refcnt t = refcnt s"
    using assms(1-3) by (auto simp: t_def kalloc_ready_def kalloc_inv_def initlock_held_def)
  obtain k where k: "unat (ekalloc_ptr s) = 4096 * k"
    using assms(5) by (auto simp: aligned_def elim: dvdE)
  have "unat (ekalloc_ptr s) \<le> unat PHYSTOP_HIGH" using assms(7) by (simp only: word_le_nat_alt)
  then have n: "unat (ekalloc_ptr t) + 4096 * n = unat PHYSTOP_HIGH"
    unfolding n_def t(2) k by simp
  have "\<exists>s'. freerange_loop (ekalloc_ptr t) PHYSTOP_HIGH t = Ok s' \<and>
      kalloc_ready s' (rev (page_range (ekalloc_ptr t) n) @ []) \<and> refcnt s' = refcnt t \<and>
      ekalloc_ptr s' = ekalloc_ptr t \<and> kernel_end s' = kernel_end t"
    using assms(4-6) t by (intro freerange_loop_frees n) auto
  moreover have "kalloc_init s = freerange_loop (ekalloc_ptr t) PHYSTOP_HIGH t"
    using order.trans [OF assms(1,6)] assms(7) t(2)
    by (simp add: kalloc_init_def freerange_def IS_RAM_KVA_def t_def initlock_held_def Let_def
      del: freerange_loop.simps)
  moreover have "length (page_range a m) = m" for a m by (induction m arbitrary: a) auto
  ultimately show ?thesis
    by (auto simp: t kalloc_ready_def kalloc_inv_def simp del: freerange_loop.simps)
qed

theorem kalloc_init_frees_all_witness:
  "\<exists>s'. kalloc_init boot = Ok s' \<and> kalloc_ready s' [0xFFFFFFC087FFF000, 0xFFFFFFC087FFE000] \<and> FMM_size s' = 2"
proof -
  have "page_range boot_p (Suc (Suc 0)) = [0xFFFFFFC087FFE000, 0xFFFFFFC087FFF000]" by simp
  then have "page_range boot_p 2 = [0xFFFFFFC087FFE000, 0xFFFFFFC087FFF000]" by (simp only: numeral_2_eq_2)
  then show ?thesis using kalloc_init_frees_all [of boot] by (simp add: boot_def aligned_def)
qed

text \<open>
  Sharing a page and dropping one share cancel out: \<open>refcnt_inc\<close> of an allocated page followed
  by \<open>kfree\<close> of it leaves the whole state as it was, so the page stays allocated with its contents.
\<close>

theorem refcnt_inc_kfree:
  assumes "kalloc_ready s xs" "kpage s p" "0 < page_ref s p" "page_ref s p < 2147483647"
  shows "\<exists>s1. refcnt_inc p s = Ok (0, s1) \<and> page_ref s1 p = page_ref s p + 1 \<and> kfree p s1 = Ok s"
proof -
  have i: "KERNEL_BASE_HIGH \<le> kernel_end s" "MemLock \<notin> set (held s)"
    using assms(1) by (auto simp: kalloc_ready_def dest: kalloc_invD)
  define s1 where "s1 = ref_set p (page_ref s p + 1) s"
  have "refcnt_inc p s = Ok (0, s1)"
    unfolding s1_def using i assms(2-4) by (intro refcnt_inc_eq) auto
  moreover have r1: "page_ref s1 p = page_ref s p + 1" by (simp add: s1_def page_ref_set i assms(2))
  moreover have "kfree p s1 = Ok s"
    using kfree_eq [of s1 p] i assms(2-4) r1 by (simp add: s1_def ref_set_def page_ref_def kpage_def)
  ultimately show ?thesis by blast
qed

theorem refcnt_inc_kfree_witness:
  "\<exists>s1. refcnt_inc boot_p (kalloc_take boot_p (kfree_put boot_p boot)) = Ok (0, s1)"
  using refcnt_inc_kfree [of "kalloc_take boot_p (kfree_put boot_p boot)" "[]" boot_p]
    kalloc_take_inv [of "kfree_put boot_p boot" boot_p "[]"] boot_ready
  by (auto simp: kalloc_ready_def page_ref_take boot_def)

text \<open>
  \<open>kfree\<close> does not detect a double free: the reference count of a released page stays at most 1,
  so a second \<open>kfree\<close> succeeds, and the next two calls of \<open>kalloc\<close> return that same page both times.
\<close>

theorem kfree_double_free:
  assumes "kalloc_ready s xs" "kpage s p" "p \<notin> set xs" "page_ref s p \<le> 1"
  shows "\<exists>s'. bnd (kfree p s) (kfree p) = Ok s' \<and> (\<exists>t. alloc_many kalloc 2 s' = Ok ([p, p], t))"
proof -
  have i: "kalloc_inv s xs" "KERNEL_BASE_HIGH \<le> kernel_end s" "MemLock \<notin> set (held s)"
    "head_addr s < kernel_end s"
    using assms(1) by (auto simp: kalloc_ready_def dest: kalloc_invD)
  note b = page_index_bounds [OF i(2) assms(2)]
  have p: "p \<noteq> head_addr s" "aligned 3 p" using i(4) assms(2) by (auto simp: kpage_def kpage_aligned(2))
  define s2 where "s2 = kfree_put p (kfree_put p s)"
  have "bnd (kfree p s) (kfree p) = Ok s2"
    using kfree_eq [OF i(2) assms(2) i(3)] kfree_eq [of "kfree_put p s" p] i assms(2,4)
    by (simp add: s2_def page_ref_def)
  moreover have "head_next s2 = p" "load64 (mem s2) p = p" "held s2 = held s" "head_addr s2 = head_addr s"
    by (auto simp: s2_def kfree_put_def load64_store64_same)
  moreover have "kalloc t = Ok (p, kalloc_take p t)"
    if "head_next t = p" "held t = held s" "head_addr t = head_addr s" for t :: "'a kalloc_state_scheme"
    using that i(3) b p(1) by (simp add: kalloc_def refcnt_write_def kalloc_take_def)
  ultimately show ?thesis by (auto simp: numeral_2_eq_2 kalloc_take_def)
qed

theorem kfree_double_free_witness:
  "\<exists>s' t. bnd (kfree boot_p boot) (kfree boot_p) = Ok s' \<and> alloc_many kalloc 2 s' = Ok ([boot_p, boot_p], t)"
  using kfree_double_free [OF boot_ready(1,2)] boot_ready(3) by auto

text \<open>
  The upper bound check of \<open>kfree\<close> is off by one: the address just behind RAM passes every
  guard, whatever the state, and \<open>kfree\<close> then reads \<open>refcnt\<close> one element past its end.
\<close>

theorem kfree_end_of_ram:
  assumes "kernel_end s \<le> PHYSTOP_HIGH" "MemLock \<notin> set (held s)"
  shows "kfree PHYSTOP_HIGH s = Fault ''refcnt: index out of range''"
proof -
  have "page_index PHYSTOP_HIGH = REFCNT_LEN"
    by (subst page_index_eq) simp_all
  then show ?thesis using assms by (simp add: kfree_def IS_RAM_KVA_def refcnt_read_def)
qed

theorem kfree_end_of_ram_witness: "kfree PHYSTOP_HIGH boot = Fault ''refcnt: index out of range''"
  using kfree_end_of_ram [of boot] by (simp add: boot_def)

end
