(* ===== verification/Process.thy ===== *)
theory Process
  imports Kalloc
begin

text \<open>
  The data of \<open>include/kernel/proc.h\<close>, \<open>vma.h\<close> and \<open>signal.h\<close>: the process structure with its
  memory areas and signal state, and the kernel globals the memory management code reaches.
  Pointers to processes and open files are indices into \<open>proc[]\<close> and \<open>ftable[]\<close>.
\<close>

abbreviation NPROC :: nat where "NPROC \<equiv> 64"
abbreviation NVMA :: nat where "NVMA \<equiv> 16"
abbreviation NSIG :: nat where "NSIG \<equiv> 64"

datatype proc_state = UNUSED | USED | RUNNABLE | RUNNING | SLEEPING | ZOMBIE

text \<open>
  The addresses that processes sleep on: a process structure, the two counters of a pipe, a sleep
  lock, and \<open>timer_chan\<close> of sysproc.c.
\<close>

datatype channel =
    ProcChan nat
  | PipeRead u64
  | PipeWrite u64
  | LockChan nat
  | TimerChan

record vm_area_struct =
  used :: bool
  va_start :: u64
  va_end :: u64
  vma_flags :: u64
  file_offset :: u64
  vm_page_prot :: u64
  vma_file :: "nat option"

record sigaction =
  sa_handler :: u64
  sa_flags :: u64
  sa_restorer :: u64
  sa_mask :: u64

record sighand =
  sig_pending :: u64
  sig_blocked :: u64
  actions :: "nat \<Rightarrow> sigaction"

record Process =
  state :: proc_state
  chan :: "channel option"
  pid :: int
  proc_name :: string
  ofile :: "nat \<Rightarrow> nat option"
  cwd :: string
  exit_code :: int
  kstack :: u64
  parent :: "nat option"
  pagetable :: u64
  proc_context :: u64
  trapframe :: u64
  proc_size :: u64
  heap_bottom :: u64
  heap_top :: u64
  stack_bottom :: u64
  stack_top :: u64
  vm_area :: "nat \<Rightarrow> vm_area_struct"
  proc_sighand :: sighand

definition vma_zero :: vm_area_struct where
  "vma_zero = \<lparr>used = False, va_start = 0, va_end = 0, vma_flags = 0, file_offset = 0,
     vm_page_prot = 0, vma_file = None\<rparr>"

text \<open>
  \<open>cur_proc\<close> is the process of the running CPU (\<open>get_cpu()->proc\<close>), \<open>divide_addr\<close> the linker
  symbol \<open>_divide\<close>, \<open>satp\<close> the translation register, \<open>used_addr\<close> the static of mmap.c.
\<close>

record kern = kalloc_state +
  early_mode :: bool
  kernel_table :: u64
  divide_addr :: u64
  satp :: u64
  used_addr :: u64
  proc :: "nat \<Rightarrow> Process"
  cur_proc :: nat

definition get_proc :: "'a kern_scheme \<Rightarrow> Process" where
  "get_proc s = proc s (cur_proc s)"

definition set_proc :: "(Process \<Rightarrow> Process) \<Rightarrow> 'a kern_scheme \<Rightarrow> 'a kern_scheme" where
  "set_proc f s = s\<lparr>proc := (proc s)(cur_proc s := f (proc s (cur_proc s)))\<rparr>"

end
