(* ===== verification/Vma.thy ===== *)
theory Vma
  imports Process
begin

text \<open>
  The memory area table of a process: the helpers of \<open>kernel/mm/mmap.c\<close> that the page-fault code
  of \<open>arch/riscv/mm/vm.c\<close> calls as well.
\<close>

unbundle bit_operations_syntax

abbreviation PTE_READ :: u64 where "PTE_READ \<equiv> 1"
abbreviation PTE_WRITE :: u64 where "PTE_WRITE \<equiv> 2"
abbreviation PTE_EXEC :: u64 where "PTE_EXEC \<equiv> 4"
abbreviation PTE_USER :: u64 where "PTE_USER \<equiv> 8"

abbreviation PROT_NONE :: int where "PROT_NONE \<equiv> 0"
abbreviation PROT_READ :: int where "PROT_READ \<equiv> 1"
abbreviation PROT_WRITE :: int where "PROT_WRITE \<equiv> 2"
abbreviation PROT_EXEC :: int where "PROT_EXEC \<equiv> 4"

section \<open>Operations\<close>

definition find_free_vma_slot :: "'a kern_scheme \<Rightarrow> nat option" where
  "find_free_vma_slot s = find (\<lambda>i. \<not> used (vm_area (get_proc s) i)) [0..<NVMA]"

definition set_vma :: "nat \<Rightarrow> (vm_area_struct \<Rightarrow> vm_area_struct) \<Rightarrow> 'a kern_scheme \<Rightarrow> 'a kern_scheme" where
  "set_vma i f = set_proc (\<lambda>p. p\<lparr>vm_area := (vm_area p)(i := f (vm_area p i))\<rparr>)"

definition alloc_vma :: "u64 \<Rightarrow> u64 \<Rightarrow> 'a kern_scheme \<Rightarrow> nat option \<times> 'a kern_scheme" where
  "alloc_vma start end s =
     (case find_free_vma_slot s of
        None \<Rightarrow> (None, s)
      | Some slot \<Rightarrow>
          (Some slot, set_vma slot (\<lambda>_. vma_zero\<lparr>va_start := start, va_end := end, used := True\<rparr>) s))"

text \<open>
  \<open>find_free_range\<close>. The first test is written before the local variable \<open>proc\<close> is declared, so
  its \<open>proc->stack_bottom\<close> is the field of element 0 of the global process table.
\<close>

definition vma_overlaps :: "vm_area_struct \<Rightarrow> u64 \<Rightarrow> u64 \<Rightarrow> bool" where
  "vma_overlaps vma addr len \<longleftrightarrow> used vma \<and> addr < va_end vma \<and> va_start vma < addr + len"

definition find_free_range :: "u64 \<Rightarrow> 'a kern_scheme \<Rightarrow> (nat option \<times> 'a kern_scheme) outcome" where
  "find_free_range len s =
     (if used_addr s > stack_bottom (proc s 0) \<or> len > stack_bottom (proc s 0) - used_addr s
      then Ok (None, s)
      else
        bnd (for_pages
          (\<lambda>faddr s.
             if list_ex (\<lambda>j. vma_overlaps (vm_area (get_proc s) j) faddr len) [0..<NVMA]
             then Ok (None, s)
             else let (vma, s) = alloc_vma faddr (faddr + len) s in Ok (Some vma, s))
          (used_addr s) (stack_bottom (get_proc s)) s)
        (\<lambda>(r, s). Ok (case r of Some vma \<Rightarrow> vma | None \<Rightarrow> None, s)))"

definition find_overlapping_vma :: "u64 \<Rightarrow> u64 \<Rightarrow> 'a kern_scheme \<Rightarrow> nat option" where
  "find_overlapping_vma addr len s =
     (if addr \<noteq> 0 then find (\<lambda>i. vma_overlaps (vm_area (get_proc s) i) addr len) [0..<NVMA]
      else None)"

definition prot2pte :: "int \<Rightarrow> u64" where
  "prot2pte prot =
     (if prot = PROT_NONE then 0
      else PTE_USER
        OR (if prot AND PROT_READ \<noteq> 0 then PTE_READ else 0)
        OR (if prot AND PROT_WRITE \<noteq> 0 then PTE_WRITE else 0)
        OR (if prot AND PROT_EXEC \<noteq> 0 then PTE_EXEC else 0))"

end
