(* ===== verification/Vm.thy ===== *)
theory Vm
  imports Vma
begin

text \<open>
  Sv39 page tables, \<open>arch/riscv/mm/vm.c\<close>, in the kernel's raw memory: the table walk, mapping and
  unmapping, user address spaces, copy-on-write and lazy allocation faults, and the copies between
  kernel and user memory.
\<close>

unbundle bit_operations_syntax

section \<open>Page table entries\<close>

abbreviation PTE_V :: u64 where "PTE_V \<equiv> 1"
abbreviation PTE_R :: u64 where "PTE_R \<equiv> 2"
abbreviation PTE_W :: u64 where "PTE_W \<equiv> 4"
abbreviation PTE_X :: u64 where "PTE_X \<equiv> 8"
abbreviation PTE_U :: u64 where "PTE_U \<equiv> 16"
abbreviation PTE_COW :: u64 where "PTE_COW \<equiv> 256"

definition VPN_GET :: "u64 \<Rightarrow> nat \<Rightarrow> u64" where
  "VPN_GET va i = drop_bit (12 + 9 * i) va AND 0x1ff"

definition PTE2PA :: "u64 \<Rightarrow> u64" where
  "PTE2PA pte = push_bit 12 (drop_bit 10 pte)"

definition PA2PTE :: "u64 \<Rightarrow> u64" where
  "PA2PTE pa = push_bit 10 (drop_bit 12 pa)"

definition PTE_FLAGS :: "u64 \<Rightarrow> u64" where
  "PTE_FLAGS pte = pte AND 0x3ff"

definition pte_from_perm :: "u64 \<Rightarrow> u64" where
  "pte_from_perm perm =
     (if perm AND PTE_READ \<noteq> 0 then PTE_R else 0)
     OR (if perm AND PTE_WRITE \<noteq> 0 then PTE_W else 0)
     OR (if perm AND PTE_EXEC \<noteq> 0 then PTE_X else 0)
     OR (if perm AND PTE_USER \<noteq> 0 then PTE_U else 0)"

definition MAKE_SATP :: "u64 \<Rightarrow> u64" where
  "MAKE_SATP pt = 0x8000000000000000 OR drop_bit 12 pt"

definition PGROUNDUP :: "u64 \<Rightarrow> u64" where
  "PGROUNDUP value = ALIGN_UP value PGSIZE"

definition PGROUNDDOWN :: "u64 \<Rightarrow> u64" where
  "PGROUNDDOWN value = ALIGN_DOWN value PGSIZE"

definition store_pte :: "u64 \<Rightarrow> u64 \<Rightarrow> 'a machine_scheme \<Rightarrow> 'a machine_scheme" where
  "store_pte pte v s = s\<lparr>mem := store64 (mem s) pte v\<rparr>"

section \<open>Walking and mapping\<close>

definition pt_alloc_page_pa :: "'a kern_scheme \<Rightarrow> (u64 \<times> 'a kern_scheme) outcome" where
  "pt_alloc_page_pa s = (if early_mode s then ekalloc s else kalloc s)"

text \<open>The loop of \<open>walk\<close> at level \<open>i\<close>, with the table of that level.\<close>

fun walk_loop :: "nat \<Rightarrow> u64 \<Rightarrow> u64 \<Rightarrow> bool \<Rightarrow> 'a kern_scheme \<Rightarrow> (u64 \<times> 'a kern_scheme) outcome" where
  "walk_loop 0 pt va alloc s = Ok (pt + 8 * VPN_GET va 0, s)"
| "walk_loop (Suc i) pt va alloc s =
     (let pte = pt + 8 * VPN_GET va (Suc i); v = load64 (mem s) pte in
      if v AND PTE_V \<noteq> 0 then
        let pa = PTE2PA v in walk_loop i (if early_mode s then pa else PA2VA pa) va alloc s
      else if \<not> alloc then Ok (0, s)
      else bnd (pt_alloc_page_pa s) (\<lambda>(p, s).
        if p = 0 then Ok (0, s)
        else let s = s\<lparr>mem := memset (mem s) p 0 4096\<rparr>;
                 s = store_pte pte (PA2PTE (if early_mode s then p else VA2PA p) OR PTE_V) s
             in walk_loop i p va alloc s))"

definition walk :: "u64 \<Rightarrow> u64 \<Rightarrow> bool \<Rightarrow> 'a kern_scheme \<Rightarrow> (u64 \<times> 'a kern_scheme) outcome" where
  "walk pt va alloc s = walk_loop 2 pt va alloc s"

definition walk_addr :: "u64 \<Rightarrow> u64 \<Rightarrow> 'a kern_scheme \<Rightarrow> (u64 \<times> 'a kern_scheme) outcome" where
  "walk_addr pt va s =
     bnd (walk pt va False s) (\<lambda>(pte, s).
     if pte = 0 then Ok (0, s)
     else if load64 (mem s) pte AND PTE_V = 0 then Ok (0, s)
     else Ok (PTE2PA (load64 (mem s) pte), s))"

text \<open>
  The loop of \<open>mappages\<close> runs until \<open>a == last\<close>. Both are congruent modulo the page size, so the
  distance to \<open>last\<close> is at least a page when they differ; the remaining case is a fault.
\<close>

function mappages_loop ::
  "u64 \<Rightarrow> u64 \<Rightarrow> u64 \<Rightarrow> u64 \<Rightarrow> int \<Rightarrow> 'a kern_scheme \<Rightarrow> (int \<times> 'a kern_scheme) outcome" where
  "mappages_loop pt a lst pa perm s =
     bnd (walk pt a True s) (\<lambda>(pte, s).
     if pte = 0 then Ok (- 1, s)
     else if load64 (mem s) pte AND PTE_V \<noteq> 0 then Panic ''mappages: remap''
     else let s = store_pte pte (PA2PTE pa OR word_of_int perm OR PTE_V) s in
       if a = lst then Ok (0, s)
       else if unat (lst - a) < 4096 then Fault ''mappages: last page is not reached''
       else mappages_loop pt (a + PGSIZE) lst (pa + PGSIZE) perm s)"
  by pat_completeness auto

definition mappages ::
  "u64 \<Rightarrow> u64 \<Rightarrow> u64 \<Rightarrow> int \<Rightarrow> int \<Rightarrow> 'a kern_scheme \<Rightarrow> (int \<times> 'a kern_scheme) outcome" where
  "mappages pt va pa sz perm s =
     (if va mod PGSIZE \<noteq> 0 then Panic ''mappages: va not aligned''
      else if sz mod 4096 \<noteq> 0 then Panic ''mappages: sz not aligned''
      else if sz = 0 then Panic ''mappages: sz''
      else mappages_loop pt va (va + word_of_int sz - PGSIZE) pa perm s)"

definition kvmmap ::
  "u64 \<Rightarrow> u64 \<Rightarrow> u64 \<Rightarrow> int \<Rightarrow> int \<Rightarrow> 'a kern_scheme \<Rightarrow> (int \<times> 'a kern_scheme) outcome" where
  "kvmmap pt va pa sz perm s =
     mappages pt va pa sz (to_c_int (uint (pte_from_perm (word_of_int perm)))) s"

section \<open>The kernel page table\<close>

abbreviation UART0_BASE :: u64 where "UART0_BASE \<equiv> 0x10000000"
abbreviation VIRTIO_MMIO_PHY_BASE :: u64 where "VIRTIO_MMIO_PHY_BASE \<equiv> 0x10001000"
abbreviation VIRTIO_MMIO_VIRT_BASE :: u64 where "VIRTIO_MMIO_VIRT_BASE \<equiv> 0xFFFFFFC010001000"
abbreviation PLIC_PHY_BASE :: u64 where "PLIC_PHY_BASE \<equiv> 0x0C000000"
abbreviation PLIC_VIRT_BASE :: u64 where "PLIC_VIRT_BASE \<equiv> 0xFFFFFFFF40000000"
abbreviation PLIC_MM_SIZE :: int where "PLIC_MM_SIZE \<equiv> 0x400000"
abbreviation QEMU_TEST_BASE :: u64 where "QEMU_TEST_BASE \<equiv> 0x100000"

text \<open>The result of \<open>kvmmap\<close> is not tested.\<close>

definition kvmmap_all ::
  "u64 \<Rightarrow> (u64 \<times> u64 \<times> int \<times> int) list \<Rightarrow> 'a kern_scheme \<Rightarrow> (unit option \<times> 'a kern_scheme) outcome" where
  "kvmmap_all pt =
     for_each (\<lambda>(va, pa, size, perm) s. bnd (kvmmap pt va pa size perm s) (\<lambda>(r, s). Ok (None, s)))"

definition kvmmake :: "'a kern_scheme \<Rightarrow> (u64 \<times> 'a kern_scheme) outcome" where
  "kvmmake s =
     bnd (ekalloc s) (\<lambda>(pt, s).
     let s = s\<lparr>mem := memset (mem s) pt 0 4096\<rparr>; d = divide_addr s in
     bnd (kvmmap_all pt
       [(UART0_BASE, UART0_BASE, 4096, 3),
        (VIRTIO_MMIO_VIRT_BASE, VIRTIO_MMIO_PHY_BASE, 4096, 7),
        (PLIC_VIRT_BASE, PLIC_PHY_BASE, PLIC_MM_SIZE, 7),
        (DRAM_BASE_LOW, DRAM_BASE_LOW, to_c_int (uint (d - DRAM_BASE_LOW)), 5),
        (d, d, to_c_int (uint (PHYSTOP_LOW - d)), 3),
        (PA2VA UART0_BASE, UART0_BASE, 4096, 3),
        (PA2VA QEMU_TEST_BASE, QEMU_TEST_BASE, 4096, 3),
        (KERNEL_BASE_HIGH, DRAM_BASE_LOW, to_c_int (uint (PA2VA d - KERNEL_BASE_HIGH)), 5),
        (PA2VA d, d, to_c_int (uint (PHYSTOP_HIGH - PA2VA d)), 3)] s)
     (\<lambda>(_, s). Ok (pt, s)))"

definition kvminit :: "'a kern_scheme \<Rightarrow> 'a kern_scheme outcome" where
  "kvminit s = bnd (kvmmake s) (\<lambda>(pt, s). Ok (s\<lparr>kernel_table := pt\<rparr>))"

definition kvminithart :: "'a kern_scheme \<Rightarrow> 'a kern_scheme outcome" where
  "kvminithart s =
     (if kernel_table s = 0 then Panic ''kernel_table is null''
      else Ok (s\<lparr>satp := MAKE_SATP (kernel_table s)\<rparr>))"

definition clear_low_memory_mappings :: "'a kern_scheme \<Rightarrow> (unit option \<times> 'a kern_scheme) outcome" where
  "clear_low_memory_mappings s =
     for_each (\<lambda>i s. Ok (None, store_pte (kernel_table s + 8 * of_nat i) 0 s)) [0..<3] s"

definition switch_to_process :: "u64 \<Rightarrow> 'a kern_scheme \<Rightarrow> 'a kern_scheme" where
  "switch_to_process pt s = s\<lparr>satp := MAKE_SATP (VA2PA pt)\<rparr>"

definition switch_to_kernel :: "'a kern_scheme \<Rightarrow> 'a kern_scheme" where
  "switch_to_kernel s = switch_to_process (kernel_table s) s"

definition uvmswitch :: "u64 \<Rightarrow> 'a kern_scheme \<Rightarrow> 'a kern_scheme" where
  "uvmswitch pt s = switch_to_process pt s"

section \<open>User address spaces\<close>

text \<open>One iteration of the loops of \<open>kvmunmap\<close> and \<open>uvmunmap\<close>.\<close>

definition unmap_page ::
  "u64 \<Rightarrow> bool \<Rightarrow> u64 \<Rightarrow> 'a kern_scheme \<Rightarrow> (unit option \<times> 'a kern_scheme) outcome" where
  "unmap_page pt do_free va s =
     bnd (walk pt va False s) (\<lambda>(pte, s).
     if pte = 0 then Ok (None, s)
     else let v = load64 (mem s) pte in
       if v AND PTE_V = 0 then Ok (None, s)
       else if PTE_FLAGS v = PTE_V then Ok (None, s)
       else bnd (if do_free then kfree (PA2VA (PTE2PA v)) s else Ok s) (\<lambda>s.
            Ok (None, store_pte pte 0 s)))"

definition kvmunmap :: "u64 \<Rightarrow> u64 \<Rightarrow> u64 \<Rightarrow> bool \<Rightarrow> 'a kern_scheme \<Rightarrow> 'a kern_scheme outcome" where
  "kvmunmap pt va sz do_free_pa s =
     (if va mod PGSIZE \<noteq> 0 \<or> sz mod PGSIZE \<noteq> 0 then Panic ''kvmunmap: va not aligned''
      else bnd (for_pages (unmap_page pt do_free_pa) va (va + sz) s) (\<lambda>(_, s). Ok s))"

definition uvmunmap :: "u64 \<Rightarrow> u64 \<Rightarrow> int \<Rightarrow> bool \<Rightarrow> 'a kern_scheme \<Rightarrow> 'a kern_scheme outcome" where
  "uvmunmap pt va npage do_free s =
     bnd (for_pages (unmap_page pt do_free) va (va + word_of_int npage * PGSIZE) s) (\<lambda>(_, s). Ok s)"

definition uvmdealloc :: "u64 \<Rightarrow> u64 \<Rightarrow> u64 \<Rightarrow> 'a kern_scheme \<Rightarrow> (int \<times> 'a kern_scheme) outcome" where
  "uvmdealloc pt va sz s =
     (if sz = 0 then Ok (0, s)
      else
        let old_top = va + sz; rounded_va = PGROUNDUP va in
        bnd (if rounded_va < old_top then
               let rounded_old_top = PGROUNDUP old_top;
                   bytes_to_free = rounded_old_top - rounded_va;
                   npages = to_c_int (uint (bytes_to_free div PGSIZE))
               in uvmunmap pt rounded_va npages True s
             else Ok s) (\<lambda>s. Ok (0, s)))"

definition uvmalloc :: "u64 \<Rightarrow> u64 \<Rightarrow> u64 \<Rightarrow> int \<Rightarrow> 'a kern_scheme \<Rightarrow> (int \<times> 'a kern_scheme) outcome" where
  "uvmalloc pt va sz perm s =
     (let start = PGROUNDDOWN va; end = PGROUNDUP (va + sz) in
      bnd (for_pages (\<lambda>i s.
        bnd (kalloc s) (\<lambda>(p, s).
        if p = 0 then bnd (uvmdealloc pt start (i - start) s) (\<lambda>(_, s). Ok (Some (- 1), s))
        else bnd (mappages pt i (VA2PA p) 4096
                   (to_c_int (uint (pte_from_perm (word_of_int perm OR PTE_USER)))) s) (\<lambda>(r, s).
          if r < 0 then
            bnd (kfree p s) (\<lambda>s.
            bnd (uvmdealloc pt start (i - start) s) (\<lambda>(_, s). Ok (Some (- 1), s)))
          else Ok (None, s)))) start end s)
      (\<lambda>(r, s). Ok (case r of Some e \<Rightarrow> e | None \<Rightarrow> 0, s)))"

text \<open>
  \<open>freewalk\<close> calls itself on every valid entry without permission bits. The first argument bounds
  the depth; the tables of an Sv39 address space have three levels.
\<close>

fun freewalk :: "nat \<Rightarrow> u64 \<Rightarrow> 'a kern_scheme \<Rightarrow> 'a kern_scheme outcome" where
  "freewalk 0 pt s = Fault ''freewalk: more than three levels''"
| "freewalk (Suc d) pt s =
     bnd (for_each (\<lambda>i s.
       let pte = load64 (mem s) (pt + 8 * of_nat i) in
       if pte AND PTE_V \<noteq> 0 \<and> pte AND (PTE_R OR PTE_W OR PTE_X) = 0 then
         bnd (freewalk d (PA2VA (PTE2PA pte)) s) (\<lambda>s.
         Ok (None :: unit option, store_pte (pt + 8 * of_nat i) 0 s))
       else Ok (None, s)) [0..<512] s)
     (\<lambda>(_, s). kfree pt s)"

definition uvmfree :: "u64 \<Rightarrow> Process \<Rightarrow> 'a kern_scheme \<Rightarrow> 'a kern_scheme outcome" where
  "uvmfree pt p s =
     bnd (if heap_top p > 0 then
            uvmunmap pt 0 (to_c_int (uint (PGROUNDUP (heap_top p) div PGSIZE))) True s
          else Ok s) (\<lambda>s.
     bnd (if stack_top p > stack_bottom p then
            uvmunmap pt (stack_bottom p)
              (to_c_int (uint (PGROUNDUP (stack_top p - stack_bottom p) div PGSIZE))) True s
          else Ok s) (\<lambda>s.
     bnd (for_each (\<lambda>i s. Ok (None :: unit option, store_pte (pt + 8 * of_nat i) 0 s)) [256..<512] s)
     (\<lambda>(_, s). freewalk 3 pt s)))"

definition uvmcreate :: "'a kern_scheme \<Rightarrow> (u64 \<times> 'a kern_scheme) outcome" where
  "uvmcreate s =
     bnd (kalloc s) (\<lambda>(pt, s).
     if pt = 0 then Panic ''Failed to allocate memory''
     else bnd (for_each (\<lambda>i s. Ok (None :: unit option,
            store_pte (pt + 8 * of_nat i) (load64 (mem s) (kernel_table s + 8 * of_nat i)) s)) [256..<512] s)
          (\<lambda>(_, s). Ok (pt, s)))"

text \<open>The innermost body of \<open>uvmcopy\<close>, for the leaf entry at \<open>pte0\<close> that maps \<open>va\<close>.\<close>

definition uvmcopy_page ::
  "u64 \<Rightarrow> u64 \<Rightarrow> u64 \<Rightarrow> 'a kern_scheme \<Rightarrow> (int option \<times> 'a kern_scheme) outcome" where
  "uvmcopy_page new va pte0 s =
     (let v = load64 (mem s) pte0 in
      if v AND PTE_V = 0 then Ok (None, s)
      else
        let pa = PTE2PA v; ptewrite = (v AND PTE_W \<noteq> 0);
            v' = (v OR PTE_COW) AND NOT PTE_W;
            s = store_pte pte0 v' s; flags = PTE_FLAGS v'
        in bnd (refcnt_inc (PA2VA pa) s) (\<lambda>(_, s).
           bnd (mappages new va pa 4096 (to_c_int (uint flags)) s) (\<lambda>(r, s).
           if r < 0 then
             let w = load64 (mem s) pte0 AND NOT PTE_COW;
                 s = store_pte pte0 (if ptewrite then w OR PTE_W else w) s
             in bnd (refcnt_dec (PA2VA pa) s) (\<lambda>(_, s). Ok (Some (- 1), s))
           else Ok (None, s))))"

definition uvmcopy :: "u64 \<Rightarrow> u64 \<Rightarrow> 'a kern_scheme \<Rightarrow> (int \<times> 'a kern_scheme) outcome" where
  "uvmcopy old new s =
     bnd (for_each (\<lambda>i2 s.
       let v2 = load64 (mem s) (old + 8 * of_nat i2) in
       if v2 AND PTE_V = 0 then Ok (None, s)
       else let pt1 = PA2VA (PTE2PA v2) in
         for_each (\<lambda>i1 s.
           let v1 = load64 (mem s) (pt1 + 8 * of_nat i1) in
           if v1 AND PTE_V = 0 then Ok (None, s)
           else let pt0 = PA2VA (PTE2PA v1) in
             for_each (\<lambda>i0 s.
               uvmcopy_page new (push_bit 30 (of_nat i2) OR push_bit 21 (of_nat i1) OR push_bit 12 (of_nat i0))
                 (pt0 + 8 * of_nat i0) s) [0..<512] s) [0..<512] s) [0..<256] s)
     (\<lambda>(r, s). Ok (case r of Some e \<Rightarrow> e | None \<Rightarrow> 0, s))"

section \<open>Page faults\<close>

definition handle_page_fault :: "u64 \<Rightarrow> u64 \<Rightarrow> 'a kern_scheme \<Rightarrow> (int \<times> 'a kern_scheme) outcome" where
  "handle_page_fault pt va s =
     (let va = PGROUNDDOWN va in
      if va > stack_bottom (get_proc s) then Ok (- 1, s)
      else if va < heap_bottom (get_proc s) then Ok (- 1, s)
      else bnd (kalloc s) (\<lambda>(p, s).
        if p = 0 then Ok (- 1, s)
        else bnd (mappages pt va (VA2PA p) 4096 (uint (PTE_V OR PTE_R OR PTE_W OR PTE_U)) s) (\<lambda>(r, s).
          if r < 0 then bnd (kfree p s) (\<lambda>s. Ok (- 1, s)) else Ok (0, s))))"

definition handle_anonymous_vma_fault ::
  "vm_area_struct \<Rightarrow> u64 \<Rightarrow> 'a kern_scheme \<Rightarrow> (int \<times> 'a kern_scheme) outcome" where
  "handle_anonymous_vma_fault vma va s =
     bnd (kalloc s) (\<lambda>(p, s).
     if p = 0 then Ok (- 1, s)
     else bnd (kvmmap (pagetable (get_proc s)) va (VA2PA p) 4096 (to_c_int (uint (vm_page_prot vma))) s)
       (\<lambda>(r, s). if r < 0 then bnd (kfree p s) (\<lambda>s. Ok (- 1, s)) else Ok (0, s)))"

text \<open>
  \<open>vfs_read_at\<close> calls the \<open>read\<close> operation through the node's function pointer; it is an argument:
  the open file, the offset, the buffer address and the size give the number of bytes read.
\<close>

type_synonym 's read_at = "nat \<Rightarrow> u64 \<Rightarrow> u64 \<Rightarrow> u64 \<Rightarrow> 's \<Rightarrow> (int \<times> 's) outcome"

definition handle_file_vma_fault ::
  "'a kern_scheme read_at \<Rightarrow> vm_area_struct \<Rightarrow> nat \<Rightarrow> u64 \<Rightarrow> 'a kern_scheme \<Rightarrow> (int \<times> 'a kern_scheme) outcome" where
  "handle_file_vma_fault vfs_read_at vma file va s =
     bnd (kalloc s) (\<lambda>(buf, s).
     if buf = 0 then Ok (- 1, s)
     else
       let s = s\<lparr>mem := memset (mem s) buf 0 4096\<rparr>; off = file_offset vma + (va - va_start vma) in
       bnd (vfs_read_at file off buf PGSIZE s) (\<lambda>(n, s).
       if n < 0 then bnd (kfree buf s) (\<lambda>s. Ok (- 1, s))
       else bnd (kvmmap (pagetable (get_proc s)) va (VA2PA buf) 4096 (to_c_int (uint (vm_page_prot vma))) s)
         (\<lambda>(r, s). if r < 0 then bnd (kfree buf s) (\<lambda>s. Ok (- 1, s)) else Ok (0, s))))"

definition handle_vma_fault ::
  "'a kern_scheme read_at \<Rightarrow> u64 \<Rightarrow> 'a kern_scheme \<Rightarrow> (int \<times> 'a kern_scheme) outcome" where
  "handle_vma_fault vfs_read_at va s =
     (let va = PGROUNDDOWN va in
      case find_overlapping_vma va PGSIZE s of
        None \<Rightarrow> Ok (- 1, s)
      | Some i \<Rightarrow>
          let vma = vm_area (get_proc s) i in
          case vma_file vma of
            Some file \<Rightarrow> handle_file_vma_fault vfs_read_at vma file va s
          | None \<Rightarrow> handle_anonymous_vma_fault vma va s)"

definition is_cow_fault :: "u64 \<Rightarrow> u64 \<Rightarrow> 'a kern_scheme \<Rightarrow> (int \<times> 'a kern_scheme) outcome" where
  "is_cow_fault pt va s =
     bnd (walk pt (PGROUNDDOWN va) False s) (\<lambda>(pte, s).
     if pte = 0 then Ok (- 1, s)
     else if load64 (mem s) pte AND PTE_V = 0 then Ok (- 1, s)
     else if load64 (mem s) pte AND PTE_COW \<noteq> 0 then Ok (0, s)
     else Ok (- 1, s))"

definition handle_cow_fault :: "u64 \<Rightarrow> u64 \<Rightarrow> 'a kern_scheme \<Rightarrow> (int \<times> 'a kern_scheme) outcome" where
  "handle_cow_fault pt va s =
     bnd (walk pt (PGROUNDDOWN va) False s) (\<lambda>(pte, s).
     if pte = 0 then Fault ''handle_cow_fault: null pointer''
     else
       let v = load64 (mem s) pte; pa = PTE2PA v; flags = PTE_FLAGS v in
       bnd (kalloc s) (\<lambda>(p, s).
       if p = 0 then Ok (- 1, s)
       else
         let s = s\<lparr>mem := memmove (mem s) p (PA2VA pa) 4096\<rparr>;
             flags = (flags AND NOT PTE_COW) OR PTE_W
         in bnd (kfree (PA2VA pa) s) (\<lambda>s.
            Ok (0, store_pte pte (PA2PTE (VA2PA p) OR flags) s))))"

section \<open>Copies between kernel and user memory\<close>

text \<open>
  The common head of the loops of \<open>copyin\<close> and \<open>copyout\<close>: look the page up, and let the fault
  handlers allocate it when it has no valid entry. \<open>Some pte\<close> is the entry's address after that,
  \<open>None\<close> the return value -1.
\<close>

definition fault_in ::
  "'a kern_scheme read_at \<Rightarrow> u64 \<Rightarrow> u64 \<Rightarrow> 'a kern_scheme \<Rightarrow> (u64 option \<times> 'a kern_scheme) outcome" where
  "fault_in vfs_read_at pt va s =
     bnd (walk pt va False s) (\<lambda>(pte, s).
     if pte = 0 \<or> load64 (mem s) pte AND PTE_V = 0 then
       let p = get_proc s;
           is_text_data = (va \<ge> 0x10000 \<and> va < heap_bottom p - PGSIZE);
           is_heap = (va \<ge> heap_bottom p \<and> va < heap_top p);
           is_stack = (va \<ge> stack_bottom p \<and> va < stack_top p)
       in bnd (if is_heap \<or> is_stack \<or> is_text_data then handle_page_fault pt va s
               else if find_overlapping_vma va PGSIZE s \<noteq> None then handle_vma_fault vfs_read_at va s
               else Ok (- 1, s)) (\<lambda>(r, s).
          if r < 0 then Ok (None, s)
          else bnd (walk pt va False s) (\<lambda>(pte, s). Ok (Some pte, s)))
     else Ok (Some pte, s))"

function copyin ::
  "'a kern_scheme read_at \<Rightarrow> u64 \<Rightarrow> u64 \<Rightarrow> u64 \<Rightarrow> int \<Rightarrow> 'a kern_scheme \<Rightarrow> (int \<times> 'a kern_scheme) outcome" where
  "copyin vfs_read_at pt dst src len s =
     (if len \<le> 0 then Ok (0, s)
      else
        let va = PGROUNDDOWN src in
        bnd (fault_in vfs_read_at pt va s) (\<lambda>(r, s).
        case r of None \<Rightarrow> Ok (- 1, s)
        | Some pte \<Rightarrow>
            let v = load64 (mem s) pte in
            if pte = 0 \<or> v AND PTE_V = 0 \<or> v AND PTE_U = 0 then Ok (- 1, s)
            else
              let kernel_va = PA2VA (PTE2PA v); offset = src - va;
                  size = min (4096 - uint offset) len;
                  s = s\<lparr>mem := memmove (mem s) dst (kernel_va + offset) size\<rparr>
              in copyin vfs_read_at pt (dst + word_of_int size) (src + word_of_int size) (len - size) s))"
  by pat_completeness auto

function copyout ::
  "'a kern_scheme read_at \<Rightarrow> u64 \<Rightarrow> u64 \<Rightarrow> u64 \<Rightarrow> int \<Rightarrow> 'a kern_scheme \<Rightarrow> (int \<times> 'a kern_scheme) outcome" where
  "copyout vfs_read_at pt dst src len s =
     (if len \<le> 0 then Ok (0, s)
      else
        let va = PGROUNDDOWN dst in
        bnd (fault_in vfs_read_at pt va s) (\<lambda>(r, s).
        case r of None \<Rightarrow> Ok (- 1, s)
        | Some pte \<Rightarrow>
            bnd (if pte \<noteq> 0 \<and> load64 (mem s) pte AND PTE_COW \<noteq> 0 then
                   bnd (handle_cow_fault pt va s) (\<lambda>(r, s).
                   if r < 0 then Ok (None, s)
                   else bnd (walk pt va False s) (\<lambda>(pte, s). Ok (Some pte, s)))
                 else Ok (Some pte, s)) (\<lambda>(r, s).
            case r of None \<Rightarrow> Ok (- 1, s)
            | Some pte \<Rightarrow>
                let v = load64 (mem s) pte in
                if pte = 0 then Fault ''copyout: null pointer''
                else if v AND PTE_V = 0 \<or> v AND (PTE_W OR PTE_U) \<noteq> PTE_W OR PTE_U then Ok (- 1, s)
                else
                  let pa = PTE2PA v in
                  if pa > PHYSTOP_LOW then Panic ''copyout: pa out of range''
                  else
                    let translated_dst = PA2VA pa; offset = dst - va;
                        size = min (4096 - uint offset) len;
                        s = s\<lparr>mem := memmove (mem s) (translated_dst + offset) src size\<rparr>
                    in copyout vfs_read_at pt (dst + word_of_int size) (src + word_of_int size) (len - size) s)))"
  by pat_completeness auto

section \<open>Termination\<close>

lemma PGROUNDDOWN_eq: "PGROUNDDOWN a = a AND NOT (mask 12)"
  by (simp add: PGROUNDDOWN_def ALIGN_DOWN_def mask_eq_exp_minus_1)

lemma PGROUNDDOWN_offset: "a - PGROUNDDOWN a = take_bit 12 a"
  using and_not_mask_plus [of a 12] by (simp add: PGROUNDDOWN_eq algebra_simps)

lemma offset_bound: "uint (a - PGROUNDDOWN a) < 4096"
  unfolding PGROUNDDOWN_offset by (subst unsigned_take_bit_eq) (simp add: take_bit_eq_mod)

lemma unat_sub_page: "\<not> unat (d :: u64) < 4096 \<Longrightarrow> unat (d - PGSIZE) = unat d - 4096"
  by (subst unat_sub) (simp_all add: word_le_nat_alt)

lemma page_step: "\<not> unat (b - a :: u64) < 4096 \<Longrightarrow> unat (b - (a + PGSIZE)) = unat (b - a) - 4096"
  using unat_sub_page [of "b - a"] by (simp add: diff_diff_eq)

termination mappages_loop
  by (relation "measure (\<lambda>(pt, a, lst, pa, perm, s). unat (lst - a))") (simp_all add: page_step)

termination copyin
  by (relation "measure (\<lambda>(r, pt, dst, src, len, s). nat len)")
    (use offset_bound in \<open>auto simp: min_def not_le\<close>)

termination copyout
  by (relation "measure (\<lambda>(r, pt, dst, src, len, s). nat len)")
    (use offset_bound in \<open>auto simp: min_def not_le\<close>)

declare mappages_loop.simps [simp del] copyin.simps [simp del] copyout.simps [simp del]

end
