(* ===== verification/Pagetable.thy ===== *)
theory Pagetable
  imports Vm
begin

text \<open>
  The tree of page tables in raw memory: which tables a root reaches, what a walk finds, how stores
  change it, and the invariant that ties page tables, mapped pages, the free list and the page
  reference counts together.
\<close>

unbundle bit_operations_syntax

section \<open>Reading the tree\<close>

definition valid :: "u64 \<Rightarrow> bool" where
  "valid v \<longleftrightarrow> v AND PTE_V \<noteq> 0"

definition target :: "u64 \<Rightarrow> u64" where
  "target v = PA2VA (PTE2PA v)"

definition slot :: "u64 \<Rightarrow> nat \<Rightarrow> u64" where
  "slot a k = a + 8 * of_nat k"

definition vpn :: "u64 \<Rightarrow> nat \<Rightarrow> nat" where
  "vpn va i = unat (VPN_GET va i)"

text \<open>The table at the end of a path of indices from the table \<open>pt\<close>.\<close>

fun table :: "memory \<Rightarrow> u64 \<Rightarrow> nat list \<Rightarrow> u64 option" where
  "table m pt [] = Some pt"
| "table m pt (k # ks) =
     (let v = load64 m (slot pt k) in if valid v then table m (target v) ks else None)"

definition entry :: "memory \<Rightarrow> u64 \<Rightarrow> nat list \<Rightarrow> nat \<Rightarrow> u64" where
  "entry m pt p k = (case table m pt p of None \<Rightarrow> 0 | Some t \<Rightarrow> load64 m (slot t k))"

text \<open>The paths of the user half of an address space, and the keys of its leaf entries.\<close>

definition upath :: "nat list \<Rightarrow> bool" where
  "upath p \<longleftrightarrow> length p \<le> 2 \<and> (\<forall>k \<in> set p. k < 512) \<and> (p \<noteq> [] \<longrightarrow> hd p < 256)"

definition leafkey :: "nat list \<Rightarrow> nat \<Rightarrow> bool" where
  "leafkey p k \<longleftrightarrow> upath p \<and> length p = 2 \<and> k < 512"

definition vpath :: "u64 \<Rightarrow> nat list" where
  "vpath va = [vpn va 2, vpn va 1]"

section \<open>Words and slots\<close>

lemma mask9: "(0x1ff :: u64) = mask 9"
  by (simp add: mask_eq_exp_minus_1)

lemma mask10: "(0x3ff :: u64) = mask 10"
  by (simp add: mask_eq_exp_minus_1)

lemma vpn_eq: "vpn va i = unat va div 2 ^ (12 + 9 * i) mod 512"
proof -
  have "VPN_GET va i = take_bit 9 (drop_bit (12 + 9 * i) va)"
    by (simp only: VPN_GET_def mask9 take_bit_eq_mask)
  then have v: "vpn va i = unat (drop_bit (12 + 9 * i) va) mod 512"
    by (simp only: vpn_def unat_take_bit) simp
  have va: "unat va < 2 ^ 64" using unsigned_less [of va] by simp
  have "unat (drop_bit (12 + 9 * i) va) = unat va div 2 ^ (12 + 9 * i)"
    using va unfolding unsigned_drop_bit_eq by (simp add: drop_bit_eq_div take_bit_eq_mod)
  with v show ?thesis by simp
qed

lemma vpn_less [simp]: "vpn va i < 512"
  by (simp add: vpn_eq)

lemma of_nat_vpn: "of_nat (vpn va i) = VPN_GET va i"
  by (simp add: vpn_def)

lemma slot_vpn: "pt + 8 * VPN_GET va i = slot pt (vpn va i)"
  by (simp add: slot_def of_nat_vpn)

lemma unat_slot:
  assumes "aligned 12 a" "k < 512"
  shows "unat (slot a k) = unat a + 8 * k"
proof -
  have "slot a k = a + of_nat (8 * k)" by (simp add: slot_def)
  then show ?thesis using aligned_add_unat [of 12 a "8 * k"] assms by simp
qed

lemma slot_in_page: "aligned 12 a \<Longrightarrow> k < 512 \<Longrightarrow> in_page a (slot a k)"
  by (simp add: in_page_def unat_sub_if' unat_slot)

lemma slot_aligned:
  assumes "aligned 12 a" "k < 512"
  shows "aligned 3 (slot a k)"
proof -
  have "2 ^ 3 dvd unat a" using aligned_weaken [OF assms(1), of 3] by (simp add: aligned_def)
  then have "2 ^ 3 dvd unat a + 8 * k" by (intro dvd_add) auto
  then show ?thesis by (simp only: aligned_def unat_slot [OF assms])
qed

lemma slot_inj:
  assumes "aligned 12 a" "aligned 12 b" "k < 512" "l < 512" "slot a k = slot b l"
  shows "a = b \<and> k = l"
proof -
  have "in_page b (slot a k)" using slot_in_page [OF assms(2,4)] unfolding assms(5) .
  with in_page_unique [OF assms(1,2) slot_in_page [OF assms(1,3)]] have "a = b" .
  moreover have "unat a + 8 * k = unat b + 8 * l"
    unfolding unat_slot [OF assms(1,3), symmetric] unat_slot [OF assms(2,4), symmetric] assms(5) ..
  ultimately show ?thesis by simp
qed

lemma slot_not_in_page:
  assumes "aligned 12 a" "aligned 12 b" "k < 512" "a \<noteq> b"
  shows "\<not> in_page b (slot a k)"
  using assms slot_in_page [of a k] in_page_unique by blast

lemma slot_nonzero: "aligned 12 a \<Longrightarrow> k < 512 \<Longrightarrow> a \<noteq> 0 \<Longrightarrow> slot a k \<noteq> 0"
  using unat_slot [of a k] by (auto simp: unsigned_eq_0_iff)

lemma PTE_V_bit: "v AND PTE_V \<noteq> 0 \<longleftrightarrow> bit v 0"
  unfolding and_one_eq bit_0 by (simp add: even_iff_mod_2_eq_zero)

text \<open>An entry made from a page address and flags gives both back.\<close>

lemma PTE2PA_PA2PTE:
  assumes "aligned 12 pa" "unat pa < 2 ^ 54" "f AND NOT 0x3ff = 0"
  shows "PTE2PA (PA2PTE pa OR f) = pa" "PTE_FLAGS (PA2PTE pa OR f) = f"
proof -
  have f: "\<not> bit f n" if "10 \<le> n" for n
  proof
    assume "bit f n"
    then have "bit (f AND NOT 0x3ff) n"
      using that bit_imp_le_length [of f n] unfolding mask10 by (simp add: bit_simps)
    then show False unfolding assms(3) by simp
  qed
  have lo: "\<not> bit pa n" if "n < 12" for n
  proof -
    have "unat (take_bit 12 pa) = 0"
      using assms(1) by (simp only: unat_take_bit aligned_def mod_eq_0_iff_dvd)
    then have "take_bit 12 pa = 0" by (simp only: unsigned_eq_0_iff)
    then have "\<not> bit (take_bit 12 pa) n" by simp
    then show ?thesis using that by (simp add: bit_take_bit_iff)
  qed
  have hi: "\<not> bit pa n" if "54 \<le> n" for n
  proof -
    have "take_bit 54 pa = pa" using assms(2) by (simp add: word_eq_iff_unat unat_take_bit)
    then show ?thesis using that bit_take_bit_iff [of 54 pa n] by simp
  qed
  show "PTE2PA (PA2PTE pa OR f) = pa"
  proof (rule bit_eqI)
    fix n assume "possible_bit TYPE(64 word) n"
    then show "bit (PTE2PA (PA2PTE pa OR f)) n = bit pa n"
      using f [of "n - 2"] lo [of n] hi [of n]
      by (cases "n < 12") (auto simp: PTE2PA_def PA2PTE_def bit_simps)
  qed
  show "PTE_FLAGS (PA2PTE pa OR f) = f"
  proof (rule bit_eqI)
    fix n assume "possible_bit TYPE(64 word) n"
    then show "bit (PTE_FLAGS (PA2PTE pa OR f)) n = bit f n"
      using f [of n] unfolding PTE_FLAGS_def PA2PTE_def mask10 by (cases "n < 10") (auto simp: bit_simps)
  qed
qed

lemma target_mk:
  assumes "kpage s x" "KERNEL_BASE_HIGH \<le> kernel_end s" "f AND NOT 0x3ff = 0"
  shows "target (PA2PTE (VA2PA x) OR f) = x" "PTE_FLAGS (PA2PTE (VA2PA x) OR f) = f"
proof -
  have x: "aligned 12 x" "KERNEL_BASE_HIGH \<le> x" "x < PHYSTOP_HIGH"
    using assms(1,2) by (auto simp: kpage_def)
  have u: "unat (VA2PA x) = unat x - unat KERNEL_VIRT_OFFSET" "unat KERNEL_VIRT_OFFSET \<le> unat x"
  proof -
    have le: "KERNEL_VIRT_OFFSET \<le> x" using x(2) by (rule order.trans [rotated]) simp
    show "unat (VA2PA x) = unat x - unat KERNEL_VIRT_OFFSET"
      unfolding VA2PA_def by (rule unat_sub [OF le])
    show "unat KERNEL_VIRT_OFFSET \<le> unat x" using le by (simp only: word_le_nat_alt)
  qed
  have "unat x < unat PHYSTOP_HIGH" using x(3) by (simp only: word_less_nat_alt)
  then have "unat (VA2PA x) < 2 ^ 54" using u by simp
  moreover have "aligned 12 (VA2PA x)"
    using x(1) u unfolding aligned_def by (simp add: dvd_diff_nat)
  ultimately show "target (PA2PTE (VA2PA x) OR f) = x" "PTE_FLAGS (PA2PTE (VA2PA x) OR f) = f"
    using PTE2PA_PA2PTE [of "VA2PA x" f] assms(3) by (simp_all add: target_def PA2VA_def VA2PA_def)
qed

lemma valid_or [simp]: "valid (a OR f OR PTE_V)" "valid (a OR PTE_V)"
  unfolding valid_def PTE_V_bit by (simp_all add: bit_simps)

lemma not_valid_0 [simp]: "\<not> valid 0"
  by (simp add: valid_def)

section \<open>Paths\<close>

lemma upath_Nil [simp]: "upath []"
  by (simp add: upath_def)

lemma upath_snocD:
  assumes "upath (p @ [k])"
  shows "upath p" "length p < 2" "k < 512"
  using assms by (auto simp: upath_def hd_append split: if_splits)

lemma leafkeyD: "leafkey p k \<Longrightarrow> upath p" "leafkey p k \<Longrightarrow> length p = 2" "leafkey p k \<Longrightarrow> k < 512"
  by (auto simp: leafkey_def)

lemma table_snoc:
  "table m r (p @ [k]) = (case table m r p of None \<Rightarrow> None
     | Some a \<Rightarrow> if valid (load64 m (slot a k)) then Some (target (load64 m (slot a k))) else None)"
  by (induction p arbitrary: r) (auto simp: Let_def)

lemma table_cong:
  assumes "\<And>p k a. upath (p @ [k]) \<Longrightarrow> table m r p = Some a \<Longrightarrow> load64 m' (slot a k) = load64 m (slot a k)"
  shows "upath q \<Longrightarrow> table m' r q = table m r q"
proof (induction q rule: rev_induct)
  case Nil
  then show ?case by simp
next
  case (snoc k q)
  then have "table m' r q = table m r q" by (simp add: upath_snocD)
  then show ?case
    using assms [OF snoc.prems] by (auto simp: table_snoc split: option.splits)
qed

text \<open>
  The tables of a set of address spaces \<open>R\<close> are disjoint pages: every user path of every root ends
  in a page of its own.
\<close>

definition tables_ok :: "memory \<Rightarrow> u64 set \<Rightarrow> bool" where
  "tables_ok m R \<longleftrightarrow>
     (\<forall>r \<in> R. \<forall>p a. upath p \<longrightarrow> table m r p = Some a \<longrightarrow> aligned 12 a) \<and>
     (\<forall>r \<in> R. \<forall>r' \<in> R. \<forall>p p' a. upath p \<longrightarrow> upath p' \<longrightarrow>
        table m r p = Some a \<longrightarrow> table m r' p' = Some a \<longrightarrow> r = r' \<and> p = p')"

definition is_table :: "memory \<Rightarrow> u64 set \<Rightarrow> u64 \<Rightarrow> bool" where
  "is_table m R a \<longleftrightarrow> (\<exists>r \<in> R. \<exists>p. upath p \<and> table m r p = Some a)"

lemma tables_okD:
  assumes "tables_ok m R" "r \<in> R" "upath p" "table m r p = Some a"
  shows "aligned 12 a" "\<And>r' p'. r' \<in> R \<Longrightarrow> upath p' \<Longrightarrow> table m r' p' = Some a \<Longrightarrow> r' = r \<and> p' = p"
  using assms unfolding tables_ok_def by blast+

lemma is_tableI: "r \<in> R \<Longrightarrow> upath p \<Longrightarrow> table m r p = Some a \<Longrightarrow> is_table m R a"
  unfolding is_table_def by blast

text \<open>A change of memory that spares the tables changes no table and no entry.\<close>

lemma tables_frame:
  assumes "\<And>a k. is_table m R a \<Longrightarrow> k < 512 \<Longrightarrow> load64 m' (slot a k) = load64 m (slot a k)" "r \<in> R" "upath q"
  shows "table m' r q = table m r q" "k < 512 \<Longrightarrow> entry m' r q k = entry m r q k"
proof -
  show t: "table m' r q = table m r q"
    using assms(1) is_tableI [OF assms(2)] upath_snocD by (intro table_cong [OF _ assms(3)]) blast
  show "entry m' r q k = entry m r q k" if "k < 512"
    using assms(1) [OF is_tableI [OF assms(2,3)] that] t by (auto simp: entry_def split: option.splits)
qed

text \<open>A store to a leaf entry changes that entry and nothing else.\<close>

lemma leaf_store:
  assumes ok: "tables_ok m R" and r: "r \<in> R" "leafkey p k" "table m r p = Some a"
    and m': "m' = store64 m (slot a k) v"
  shows "r' \<in> R \<Longrightarrow> upath q \<Longrightarrow> table m' r' q = table m r' q"
    and "r' \<in> R \<Longrightarrow> leafkey q j \<Longrightarrow>
      entry m' r' q j = (if r' = r \<and> q = p \<and> j = k then v else entry m r' q j)"
proof -
  note A = tables_okD [OF ok r(1) leafkeyD(1) [OF r(2)] r(3)]
  have load: "load64 m' (slot b j) = (if b = a \<and> j = k then v else load64 m (slot b j))"
    if "aligned 12 b" "j < 512" for b j
    using slot_inj [OF A(1) that(1) leafkeyD(3) [OF r(2)] that(2)] that A(1) leafkeyD(3) [OF r(2)]
    by (auto simp: m' load64_store64 slot_aligned)
  show t: "table m' r' q = table m r' q" if "r' \<in> R" "upath q" for r' q
  proof (rule table_cong [OF _ that(2)])
    fix p' l b
    assume p': "upath (p' @ [l])" "table m r' p' = Some b"
    note u = upath_snocD [OF p'(1)]
    have "b \<noteq> a" using A(2) [OF that(1) u(1)] p'(2) u(2) leafkeyD(2) [OF r(2)] by auto
    then show "load64 m' (slot b l) = load64 m (slot b l)"
      using load tables_okD(1) [OF ok that(1) u(1) p'(2)] u(3) by simp
  qed
  show "entry m' r' q j = (if r' = r \<and> q = p \<and> j = k then v else entry m r' q j)"
    if "r' \<in> R" "leafkey q j"
  proof (cases "table m r' q")
    case None
    then show ?thesis using t [OF that(1) leafkeyD(1) [OF that(2)]] r(3) by (auto simp: entry_def)
  next
    case (Some b)
    have "b = a \<longleftrightarrow> r' = r \<and> q = p"
      using A(2) [OF that(1) leafkeyD(1) [OF that(2)]] Some r(3) by auto
    then show ?thesis
      using t [OF that(1) leafkeyD(1) [OF that(2)]] Some
        load [OF tables_okD(1) [OF ok that(1) leafkeyD(1) [OF that(2)] Some] leafkeyD(3) [OF that(2)]]
      by (auto simp: entry_def)
  qed
qed

text \<open>
  Hanging a fresh, zeroed page \<open>b\<close> into an empty interior entry adds the one path to \<open>b\<close> and
  changes no leaf entry.
\<close>

lemma interior_store:
  assumes ok: "tables_ok m R" and r: "r \<in> R" "upath (p @ [k])" "table m r p = Some a"
    and empty: "\<not> valid (load64 m (slot a k))"
    and b: "aligned 12 b" "\<not> is_table m R b" "\<And>j. j < 512 \<Longrightarrow> load64 m (slot b j) = 0"
    and v: "valid v" "target v = b" and m': "m' = store64 m (slot a k) v"
  shows "r' \<in> R \<Longrightarrow> upath q \<Longrightarrow>
      table m' r' q = (if r' = r \<and> q = p @ [k] then Some b else table m r' q)"
    and "r' \<in> R \<Longrightarrow> leafkey q j \<Longrightarrow> entry m' r' q j = entry m r' q j"
proof -
  note u = upath_snocD [OF r(2)]
  note A = tables_okD [OF ok r(1) u(1) r(3)]
  have load: "load64 m' (slot c j) = (if c = a \<and> j = k then v else load64 m (slot c j))"
    if "aligned 12 c" "j < 512" for c j
    using slot_inj [OF A(1) that(1) u(3) that(2)] that A(1) u(3)
    by (auto simp: m' load64_store64 slot_aligned)
  have ab: "a \<noteq> b" using b(2) is_tableI [OF r(1) u(1) r(3)] by auto
  have none: "table m r (p @ [k]) = None" using r(3) empty by (simp add: table_snoc)
  show t: "table m' r' q = (if r' = r \<and> q = p @ [k] then Some b else table m r' q)"
    if "r' \<in> R" "upath q" for r' q
    using that
  proof (induction q rule: rev_induct)
    case Nil
    then show ?case by simp
  next
    case (snoc l q)
    note w = upath_snocD [OF snoc.prems(2)]
    have IH: "table m' r' q = (if r' = r \<and> q = p @ [k] then Some b else table m r' q)"
      using snoc.IH snoc.prems w by simp
    show ?case
    proof (cases "r' = r \<and> q = p @ [k]")
      case True
      then have "table m r' q = None" using none by simp
      then have "table m r' (q @ [l]) = None" unfolding table_snoc by simp
      moreover have "load64 m' (slot b l) = 0" using load [OF b(1) w(3)] b(3) [OF w(3)] ab by simp
      moreover have "table m' r' q = Some b" using IH True by simp
      ultimately have "table m' r' (q @ [l]) = None" "table m r' (q @ [l]) = None"
        unfolding table_snoc by simp_all
      then show ?thesis using True by simp
    next
      case False
      then have "table m' r' q = table m r' q" using IH by auto
      moreover have "load64 m' (slot c l) = (if r' = r \<and> q = p \<and> l = k then v else load64 m (slot c l))"
        if c: "table m r' q = Some c" for c
      proof -
        have "c = a \<longleftrightarrow> r' = r \<and> q = p"
          using A(2) [OF snoc.prems(1) w(1)] c r(3) by auto
        then show ?thesis
          using load [OF tables_okD(1) [OF ok snoc.prems(1) w(1) c] w(3)] by auto
      qed
      ultimately show ?thesis
        using v r(3) by (auto simp: table_snoc split: option.splits)
    qed
  qed
  show "entry m' r' q j = entry m r' q j" if "r' \<in> R" "leafkey q j"
  proof (cases "r' = r \<and> q = p @ [k]")
    case True
    then have "entry m r' q j = 0" using none by (simp add: entry_def)
    moreover have "load64 m' (slot b j) = 0"
      using load [OF b(1) leafkeyD(3) [OF that(2)]] b(3) [OF leafkeyD(3) [OF that(2)]] ab by simp
    ultimately show ?thesis using True t [OF that(1) leafkeyD(1) [OF that(2)]] by (simp add: entry_def)
  next
    case False
    then have same: "table m' r' q = table m r' q" using t [OF that(1) leafkeyD(1) [OF that(2)]] by auto
    show ?thesis
    proof (cases "table m r' q")
      case None
      then show ?thesis using same by (simp add: entry_def)
    next
      case (Some c)
      have "c \<noteq> a"
        using A(2) [OF that(1) leafkeyD(1) [OF that(2)]] Some leafkeyD(2) [OF that(2)] u(2) by auto
      then show ?thesis
        using same Some load [OF tables_okD(1) [OF ok that(1) leafkeyD(1) [OF that(2)] Some] leafkeyD(3) [OF that(2)]]
        by (simp add: entry_def)
    qed
  qed
qed

end
