(* ===== verification/Addrspace.thy ===== *)
theory Addrspace
  imports Pagetable
begin

text \<open>
  The invariant of the virtual memory system and the walk that allocates tables: page tables, mapped
  pages and free pages are disjoint, and no page is mapped more often than its reference count says.
\<close>

unbundle bit_operations_syntax

section \<open>The invariant\<close>

definition maps :: "memory \<Rightarrow> u64 set \<Rightarrow> u64 \<Rightarrow> (u64 \<times> nat list \<times> nat) set" where
  "maps m R a = {(r, p, k). r \<in> R \<and> leafkey p k \<and> valid (entry m r p k) \<and> target (entry m r p k) = a}"

definition writable :: "u64 \<Rightarrow> bool" where
  "writable v \<longleftrightarrow> v AND PTE_W \<noteq> 0"

text \<open>
  For a set \<open>R\<close> of address spaces and a free list \<open>xs\<close>: tables are disjoint allocated pages with one
  reference, mapped pages are allocated and no tables, a page that some entry maps writable has no
  other mapping, and the reference count of a page bounds the number of its mappings.
\<close>

definition vm_inv :: "'a kern_scheme \<Rightarrow> u64 set \<Rightarrow> u64 list \<Rightarrow> bool" where
  "vm_inv s R xs \<longleftrightarrow>
     finite R \<and> \<not> early_mode s \<and> kalloc_ready s xs \<and> tables_ok (mem s) R \<and>
     (\<forall>a. is_table (mem s) R a \<longrightarrow> kpage s a \<and> a \<notin> set xs \<and> page_ref s a = 1) \<and>
     (\<forall>r \<in> R. \<forall>p k. leafkey p k \<longrightarrow> valid (entry (mem s) r p k) \<longrightarrow>
        kpage s (target (entry (mem s) r p k)) \<and> target (entry (mem s) r p k) \<notin> set xs \<and>
        \<not> is_table (mem s) R (target (entry (mem s) r p k)) \<and>
        (writable (entry (mem s) r p k) \<longrightarrow> maps (mem s) R (target (entry (mem s) r p k)) = {(r, p, k)})) \<and>
     (\<forall>a. kpage s a \<longrightarrow> page_ref s a \<le> 2147483647 \<and>
        (maps (mem s) R a \<noteq> {} \<longrightarrow> int (card (maps (mem s) R a)) \<le> page_ref s a))"

text \<open>Everything of the state but the memory and the allocator's bookkeeping.\<close>

definition kframe :: "'a kalloc_state_scheme \<Rightarrow> 'a kalloc_state_scheme" where
  "kframe s = s\<lparr>mem := (\<lambda>_. 0), head_next := 0, FMM_size := 0, refcnt := (\<lambda>_. 0)\<rparr>"

text \<open>
  \<open>vm_eff s s' R xs xs' e\<close>: a step that at most takes pages from the free list \<open>xs\<close> for new tables,
  after which the leaf entries are given by \<open>e\<close>. Mapped and otherwise allocated pages and their
  reference counts stay the same.
\<close>

definition vm_eff :: "'a kern_scheme \<Rightarrow> 'a kern_scheme \<Rightarrow> u64 set \<Rightarrow> u64 list \<Rightarrow> u64 list \<Rightarrow>
    (u64 \<Rightarrow> nat list \<Rightarrow> nat \<Rightarrow> u64) \<Rightarrow> bool" where
  "vm_eff s s' R xs xs' e \<longleftrightarrow>
     kframe s' = kframe s \<and> set xs' \<subseteq> set xs \<and>
     (\<forall>r \<in> R. \<forall>p k. leafkey p k \<longrightarrow> entry (mem s') r p k = e r p k) \<and>
     (\<forall>r \<in> R. \<forall>p a. upath p \<longrightarrow> table (mem s) r p = Some a \<longrightarrow> table (mem s') r p = Some a) \<and>
     (\<forall>a. is_table (mem s') R a \<longrightarrow> is_table (mem s) R a \<or> a \<in> set xs) \<and>
     (\<forall>a. kpage s a \<longrightarrow> a \<notin> set xs \<longrightarrow> page_ref s' a = page_ref s a) \<and>
     (\<forall>a x. kpage s a \<longrightarrow> a \<notin> set xs \<longrightarrow> \<not> is_table (mem s) R a \<longrightarrow> in_page a x \<longrightarrow> mem s' x = mem s x)"

abbreviation vm_grow :: "'a kern_scheme \<Rightarrow> 'a kern_scheme \<Rightarrow> u64 set \<Rightarrow> u64 list \<Rightarrow> u64 list \<Rightarrow> bool" where
  "vm_grow s s' R xs xs' \<equiv> vm_eff s s' R xs xs' (entry (mem s))"

definition uva :: "u64 \<Rightarrow> bool" where
  "uva va \<longleftrightarrow> vpn va 2 < 256"

section \<open>Frames\<close>

lemma kframe_simps:
  "held (kframe s) = held s" "head_addr (kframe s) = head_addr s" "kernel_end (kframe s) = kernel_end s"
  by (simp_all add: kframe_def)

lemma kframe_kern_simps:
  "early_mode (kframe s) = early_mode s" "kernel_table (kframe s) = kernel_table s"
  "proc (kframe s) = proc s" "cur_proc (kframe s) = cur_proc s" "get_proc (kframe s) = get_proc s"
  by (simp_all add: kframe_def get_proc_def)

lemma kframeD:
  assumes "kframe s' = kframe s"
  shows "held s' = held s" "head_addr s' = head_addr s" "kernel_end s' = kernel_end s" "kpage s' = kpage s"
  using arg_cong [OF assms, of held] arg_cong [OF assms, of head_addr] arg_cong [OF assms, of kernel_end]
  by (simp_all add: kframe_simps kpage_def fun_eq_iff)

lemma kframe_kernD:
  assumes "kframe s' = kframe (s :: 'a kern_scheme)"
  shows "early_mode s' = early_mode s" "kernel_table s' = kernel_table s" "proc s' = proc s"
    "cur_proc s' = cur_proc s" "get_proc s' = get_proc s"
  using arg_cong [OF assms, of early_mode] arg_cong [OF assms, of kernel_table] arg_cong [OF assms, of proc]
    arg_cong [OF assms, of cur_proc] arg_cong [OF assms, of get_proc]
  by (simp_all add: kframe_kern_simps)

lemma kframe_ops [simp]:
  "kframe (kalloc_take x s) = kframe s" "kframe (kfree_put x s) = kframe s"
  "kframe (store_pte a v s) = kframe s" "kframe (s\<lparr>mem := m\<rparr>) = kframe s"
  "kframe (s\<lparr>refcnt := rc\<rparr>) = kframe s"
  by (simp_all add: kframe_def kalloc_take_def kfree_put_def store_pte_def)

lemma vm_invD:
  assumes "vm_inv s R xs"
  shows "finite R" "\<not> early_mode s" "kalloc_ready s xs" "tables_ok (mem s) R"
    "\<And>a. is_table (mem s) R a \<Longrightarrow> kpage s a \<and> a \<notin> set xs \<and> page_ref s a = 1"
    "\<And>r p k. r \<in> R \<Longrightarrow> leafkey p k \<Longrightarrow> valid (entry (mem s) r p k) \<Longrightarrow>
      kpage s (target (entry (mem s) r p k)) \<and> target (entry (mem s) r p k) \<notin> set xs \<and>
      \<not> is_table (mem s) R (target (entry (mem s) r p k)) \<and>
      (writable (entry (mem s) r p k) \<longrightarrow> maps (mem s) R (target (entry (mem s) r p k)) = {(r, p, k)})"
    "\<And>a. kpage s a \<Longrightarrow> page_ref s a \<le> 2147483647 \<and>
      (maps (mem s) R a \<noteq> {} \<longrightarrow> int (card (maps (mem s) R a)) \<le> page_ref s a)"
    "KERNEL_BASE_HIGH \<le> kernel_end s" "kalloc_inv s xs" "MemLock \<notin> set (held s)"
  using assms unfolding vm_inv_def kalloc_ready_def by (auto dest: kalloc_invD(1))

lemma kpage_nonzero: "KERNEL_BASE_HIGH \<le> kernel_end s \<Longrightarrow> kpage s a \<Longrightarrow> a \<noteq> 0"
  by (auto simp: kpage_def)

lemma vm_grow_refl: "vm_grow s s R xs xs"
  by (simp add: vm_eff_def)

lemma vm_effD:
  assumes "vm_eff s s' R xs xs' e"
  shows "kframe s' = kframe s" "kpage s' = kpage s" "set xs' \<subseteq> set xs"
    "\<And>r p k. r \<in> R \<Longrightarrow> leafkey p k \<Longrightarrow> entry (mem s') r p k = e r p k"
    "\<And>r p a. r \<in> R \<Longrightarrow> upath p \<Longrightarrow> table (mem s) r p = Some a \<Longrightarrow> table (mem s') r p = Some a"
    "\<And>a. is_table (mem s') R a \<Longrightarrow> is_table (mem s) R a \<or> a \<in> set xs"
    "\<And>a. kpage s a \<Longrightarrow> a \<notin> set xs \<Longrightarrow> page_ref s' a = page_ref s a"
    "\<And>a x. kpage s a \<Longrightarrow> a \<notin> set xs \<Longrightarrow> \<not> is_table (mem s) R a \<Longrightarrow> in_page a x \<Longrightarrow> mem s' x = mem s x"
    "\<And>a. is_table (mem s) R a \<Longrightarrow> is_table (mem s') R a"
proof -
  show f: "kframe s' = kframe s" using assms by (simp add: vm_eff_def)
  show "kpage s' = kpage s" by (rule kframeD(4) [OF f])
  have t: "\<And>r p a. r \<in> R \<Longrightarrow> upath p \<Longrightarrow> table (mem s) r p = Some a \<Longrightarrow> table (mem s') r p = Some a"
    using assms by (auto simp: vm_eff_def)
  then show "\<And>a. is_table (mem s) R a \<Longrightarrow> is_table (mem s') R a"
    unfolding is_table_def by blast
qed (use assms in \<open>auto simp: vm_eff_def\<close>)

lemma vm_eff_trans:
  assumes "vm_eff s s1 R xs ys d" "vm_eff s1 s2 R zs ws e" "set zs \<subseteq> set xs"
  shows "vm_eff s s2 R xs ws e"
proof -
  note A = vm_effD [OF assms(1)] and B = vm_effD [OF assms(2)]
  have "page_ref s2 a = page_ref s a" if "kpage s a" "a \<notin> set xs" for a
    using A(2) A(7) [OF that] B(7) [of a] that assms(3) by auto
  moreover have "mem s2 x = mem s x" if "kpage s a" "a \<notin> set xs" "\<not> is_table (mem s) R a" "in_page a x" for a x
    using A(2,6) A(8) [OF that] B(8) [of a x] that assms(3) by auto
  moreover have "is_table (mem s) R a \<or> a \<in> set xs" if "is_table (mem s2) R a" for a
    using B(6) [OF that] A(6) assms(3) by auto
  ultimately show ?thesis
    unfolding vm_eff_def using A(1,5) B(1,3,4,5) assms(3) by auto
qed

lemma vm_eff_cong:
  assumes "vm_eff s s' R xs xs' d" "\<And>r p k. r \<in> R \<Longrightarrow> leafkey p k \<Longrightarrow> d r p k = e r p k"
  shows "vm_eff s s' R xs xs' e"
  using assms unfolding vm_eff_def by auto

lemma vm_grow_trans:
  assumes "vm_grow s s1 R xs ys" "vm_grow s1 s2 R zs ws" "set zs \<subseteq> set xs"
  shows "vm_grow s s2 R xs ws"
  using vm_eff_trans [OF assms] by (rule vm_eff_cong) (use vm_effD(4) [OF assms(1)] in blast)

section \<open>Taking a page\<close>

lemma load64_take:
  assumes "kpage s a" "kpage s x" "a \<noteq> x" "k < 512"
  shows "load64 (mem (kalloc_take x s)) (slot a k) = load64 (mem s) (slot a k)"
  using assms kpage_aligned [OF assms(1)] kpage_aligned [OF assms(2)] slot_aligned [of a k]
    slot_not_in_page [of a x k]
  by (simp add: load64_memset_page)

lemma load64_take_self:
  assumes "kpage s x" "k < 512"
  shows "load64 (mem (kalloc_take x s)) (slot x k) = 0"
  using assms kpage_aligned [OF assms(1)] slot_aligned [of x k] slot_in_page [of x k]
  by (simp add: load64_memset_page)

text \<open>A page taken from the free list is no table and is not mapped; nothing else changes.\<close>

lemma vm_take:
  assumes inv: "vm_inv s R (x # xs)"
  defines "s' \<equiv> kalloc_take x s"
  shows "kalloc s = Ok (x, s')" "vm_inv s' R xs" "vm_grow s s' R (x # xs) xs" "kpage s x"
    "\<not> is_table (mem s') R x" "maps (mem s') R x = {}" "page_ref s' x = 1" "x \<notin> set xs"
    "\<And>r p. r \<in> R \<Longrightarrow> upath p \<Longrightarrow> table (mem s') r p = table (mem s) r p"
proof -
  note D = vm_invD [OF inv]
  note K = kalloc_invD [OF D(9)]
  show x: "kpage s x" using K(4) by simp
  show x': "x \<notin> set xs" using K(3) by simp
  show "kalloc s = Ok (x, s')" unfolding s'_def using kalloc_Cons D(9,10) by blast
  have load: "load64 (mem s') (slot a k) = load64 (mem s) (slot a k)"
    if "is_table (mem s) R a" "k < 512" for a k
    unfolding s'_def using D(5) [OF that(1)] x that(2) by (intro load64_take) auto
  note F = tables_frame [where m = "mem s" and m' = "mem s'", OF load]
  show T: "table (mem s') r p = table (mem s) r p" if "r \<in> R" "upath p" for r p
    using F(1) that by blast
  have E: "entry (mem s') r p k = entry (mem s) r p k" if "r \<in> R" "leafkey p k" for r p k
    using F(2) that by (simp add: leafkey_def)
  have I: "is_table (mem s') R = is_table (mem s) R"
    unfolding is_table_def fun_eq_iff by (metis T)
  have M: "maps (mem s') R = maps (mem s) R"
    using E by (auto simp: maps_def fun_eq_iff)
  have ref: "page_ref s' a = (if a = x then 1 else page_ref s a)" if "kpage s a" for a
    unfolding s'_def using page_ref_take [OF D(8) x that] .
  show nt: "\<not> is_table (mem s') R x" using D(5) [of x] I by auto
  show nm: "maps (mem s') R x = {}" using D(6) unfolding M by (fastforce simp: maps_def)
  show "page_ref s' x = 1" using ref [OF x] by simp
  have "tables_ok (mem s') R"
    using D(4) T unfolding tables_ok_def by metis
  moreover have "kalloc_ready s' xs"
    using kalloc_take_inv [OF D(9)] D(10) by (simp add: kalloc_ready_def s'_def)
  moreover have kp: "kpage s' = kpage s" "\<not> early_mode s'"
    using D(2) by (simp_all add: s'_def kalloc_take_def kpage_def fun_eq_iff)
  moreover have "kpage s a \<and> a \<notin> set xs \<and> page_ref s' a = 1" if "is_table (mem s') R a" for a
    using D(5) [of a] ref [of a] that I by auto
  moreover have "page_ref s' a \<le> 2147483647 \<and>
      (maps (mem s') R a \<noteq> {} \<longrightarrow> int (card (maps (mem s') R a)) \<le> page_ref s' a)" if "kpage s a" for a
    using D(7) [OF that] ref [OF that] nm by (cases "a = x") (auto simp: M)
  moreover have "kpage s (target (entry (mem s') r p k)) \<and> target (entry (mem s') r p k) \<notin> set xs \<and>
      \<not> is_table (mem s') R (target (entry (mem s') r p k)) \<and>
      (writable (entry (mem s') r p k) \<longrightarrow> maps (mem s') R (target (entry (mem s') r p k)) = {(r, p, k)})"
    if "r \<in> R" "leafkey p k" "valid (entry (mem s') r p k)" for r p k
    using D(6) [of r p k] that E [of r p k] I M by auto
  ultimately show "vm_inv s' R xs"
    unfolding vm_inv_def using D(1) by auto
  have "mem s' b = mem s b" if "kpage s a" "a \<notin> set (x # xs)" "in_page a b" for a b
    using that x kpage_aligned in_page_unique [of a x b] by (auto simp: s'_def memset_page)
  then show "vm_grow s s' R (x # xs) xs"
    unfolding vm_eff_def using E I T ref by (auto simp: s'_def)
qed

section \<open>Walking\<close>

lemma vpath_upath: "uva va \<Longrightarrow> upath (vpath va)" "uva va \<Longrightarrow> upath [vpn va 2]"
  by (auto simp: uva_def vpath_def upath_def)

lemma vpath_leafkey: "uva va \<Longrightarrow> leafkey (vpath va) (vpn va 0)"
  using vpath_upath by (simp add: leafkey_def vpath_def)

lemma table_vm:
  assumes "vm_inv s R xs" "r \<in> R" "upath p" "table (mem s) r p = Some a"
  shows "kpage s a" "aligned 12 a" "k < 512 \<Longrightarrow> slot a k \<noteq> 0" "is_table (mem s) R a"
proof -
  show t: "is_table (mem s) R a" using assms is_tableI by blast
  show "kpage s a" using vm_invD(5) [OF assms(1) t] by simp
  then show "aligned 12 a" "k < 512 \<Longrightarrow> slot a k \<noteq> 0"
    using kpage_aligned slot_nonzero kpage_nonzero vm_invD(8) [OF assms(1)] by blast+
qed

text \<open>Without \<open>alloc\<close>, \<open>walk\<close> returns the address of the leaf entry, or null, and changes nothing.\<close>

lemma walk_False:
  assumes "\<not> early_mode s"
  shows "walk r va False s =
    Ok (case table (mem s) r (vpath va) of None \<Rightarrow> 0 | Some a \<Rightarrow> slot a (vpn va 0), s)"
  using assms
  by (simp add: walk_def vpath_def numeral_2_eq_2 slot_vpn Let_def flip: target_def valid_def)

lemma store_pte_simps [simp]:
  "mem (store_pte q v s) = store64 (mem s) q v" "held (store_pte q v s) = held s"
  by (simp_all add: store_pte_def)

lemma store_pte_kalloc_simps [simp]:
  "kpage (store_pte q v s) = kpage s" "page_ref (store_pte q v s) = page_ref s"
  "kernel_end (store_pte q v s) = kernel_end s" "head_next (store_pte q v s) = head_next s"
  "head_addr (store_pte q v s) = head_addr s" "FMM_size (store_pte q v s) = FMM_size s"
  by (simp_all add: store_pte_def kpage_def page_ref_def fun_eq_iff)

lemma store_pte_kern_simps [simp]:
  "early_mode (store_pte q v s) = early_mode s" "get_proc (store_pte q v s) = get_proc s"
  by (simp_all add: store_pte_def get_proc_def)

lemma store_slot_other:
  assumes "aligned 12 a" "k < 512" "\<not> in_page a b"
  shows "store64 m (slot a k) v b = m b"
proof (rule store64_other)
  show "\<not> unat (b - slot a k) < 8"
    using in_page_word [OF assms(1) slot_aligned [OF assms(1,2)], of "unat (b - slot a k)"]
      slot_in_page [OF assms(1,2)] assms(3) by auto
qed

lemma kalloc_ready_store:
  assumes "kalloc_ready s xs" "kpage s a" "a \<notin> set xs" "k < 512"
  shows "kalloc_ready (store_pte (slot a k) v s) xs"
proof -
  have inv: "kalloc_inv s xs" using assms(1) by (simp add: kalloc_ready_def)
  note a = kpage_aligned [OF assms(2)]
  have "load64 (store64 (mem s) (slot a k) v) y = load64 (mem s) y" if "y \<in> set xs" for y
  proof -
    have y: "kpage s y" "y \<noteq> a" using kalloc_invD(4) [OF inv that] that assms(3) by auto
    then have "slot a k \<noteq> y"
      using kpage_in_page [OF assms(2) y(1)] slot_in_page [OF a(1) assms(4)] by auto
    then show ?thesis
      using kpage_aligned(2) [OF y(1)] slot_aligned [OF a(1) assms(4)] by (simp add: load64_store64)
  qed
  then have "free_path (mem (store_pte (slot a k) v s)) (head_addr s) (head_next s) xs"
    using kalloc_invD(6) [OF inv] by (subst free_path_cong [where m' = "mem s"]) auto
  then show ?thesis using assms(1) by (simp add: kalloc_ready_def kalloc_inv_def)
qed

text \<open>Hanging a fresh page into an empty interior entry keeps the invariant.\<close>

lemma vm_hang:
  assumes inv: "vm_inv s R xs" and r: "r \<in> R" "upath (p @ [k])" "table (mem s) r p = Some a"
    and empty: "\<not> valid (load64 (mem s) (slot a k))"
    and x: "kpage s x" "x \<notin> set xs" "\<not> is_table (mem s) R x" "maps (mem s) R x = {}" "page_ref s x = 1"
      "\<And>j. j < 512 \<Longrightarrow> load64 (mem s) (slot x j) = 0"
    and w: "valid w" "target w = x"
  defines "s' \<equiv> store_pte (slot a k) w s"
  shows "vm_inv s' R xs" "vm_grow s s' R (x # xs) xs" "table (mem s') r (p @ [k]) = Some x"
proof -
  note D = vm_invD [OF inv]
  note u = upath_snocD [OF r(2)]
  note A = table_vm [OF inv r(1) u(1) r(3)]
  have m': "mem s' = store64 (mem s) (slot a k) w" by (simp add: s'_def)
  note S = interior_store [OF D(4) r empty kpage_aligned(1) [OF x(1)] x(3,6) w m']
  show tx: "table (mem s') r (p @ [k]) = Some x" using S(1) r by simp
  have none: "table (mem s) r (p @ [k]) = None" using empty r(3) by (simp add: table_snoc)
  have IT: "is_table (mem s') R b \<longleftrightarrow> b = x \<or> is_table (mem s) R b" for b
  proof
    assume "is_table (mem s') R b"
    then show "b = x \<or> is_table (mem s) R b"
      using S(1) by (auto simp: is_table_def split: if_splits)
  next
    assume "b = x \<or> is_table (mem s) R b"
    then show "is_table (mem s') R b"
    proof
      assume "is_table (mem s) R b"
      then obtain r' q where "r' \<in> R" "upath q" "table (mem s) r' q = Some b" by (auto simp: is_table_def)
      then show ?thesis using S(1) [of r' q] none by (intro is_tableI [of r' _ q]) auto
    qed (use is_tableI [OF r(1,2) tx] in simp)
  qed
  have ok: "tables_ok (mem s') R"
  proof -
    have "\<not> is_table (mem s) R x" by (rule x(3))
    then have nx: "table (mem s) r' q \<noteq> Some x" if "r' \<in> R" "upath q" for r' q
      using is_tableI that by blast
    show ?thesis
      using D(4) S(1) nx kpage_aligned(1) [OF x(1)] unfolding tables_ok_def by (auto split: if_splits)
  qed
  have MP: "maps (mem s') R = maps (mem s) R"
    using S(2) by (auto simp: maps_def fun_eq_iff)
  have leaf: "target (entry (mem s) r' q j) \<noteq> x" if "r' \<in> R" "leafkey q j" "valid (entry (mem s) r' q j)" for r' q j
    using x(4) that unfolding maps_def by blast
  show "vm_inv s' R xs"
    unfolding vm_inv_def
  proof (intro conjI allI ballI impI)
    show "kalloc_ready s' xs"
      unfolding s'_def using D(3,5) A(1,4) u(3) by (intro kalloc_ready_store) auto
  next
    fix b assume "is_table (mem s') R b"
    then show "kpage s' b" "b \<notin> set xs" "page_ref s' b = 1"
      using IT [of b] D(5) [of b] x(1,2,5) by (auto simp: s'_def)
  next
    fix r' q j assume l: "r' \<in> R" "leafkey q j" "valid (entry (mem s') r' q j)"
    then have "entry (mem s') r' q j = entry (mem s) r' q j" using S(2) by blast
    then show "kpage s' (target (entry (mem s') r' q j))" "target (entry (mem s') r' q j) \<notin> set xs"
      "\<not> is_table (mem s') R (target (entry (mem s') r' q j))"
      "writable (entry (mem s') r' q j) \<Longrightarrow> maps (mem s') R (target (entry (mem s') r' q j)) = {(r', q, j)}"
      using D(6) [OF l(1,2)] l leaf [OF l(1,2)] IT MP by (auto simp: s'_def)
  qed (use D ok MP in \<open>auto simp: s'_def\<close>)
  show "vm_grow s s' R (x # xs) xs"
    unfolding vm_eff_def
  proof (intro conjI allI ballI impI)
    fix b c assume b: "kpage s b" "b \<notin> set (x # xs)" "\<not> is_table (mem s) R b" "in_page b c"
    then have "b \<noteq> a" using A(4) by auto
    then have "\<not> in_page a c" using in_page_unique [of a b c] A(2) kpage_aligned(1) [OF b(1)] b(4) by auto
    then show "mem s' c = mem s c" unfolding m' using A(2) u(3) by (intro store_slot_other)
  next
    fix r' q b assume "r' \<in> R" "upath q" "table (mem s) r' q = Some b"
    then show "table (mem s') r' q = Some b" using S(1) [of r' q] none by auto
  qed (use S(2) IT in \<open>auto simp: s'_def\<close>)
qed

lemma walk_step:
  assumes inv: "vm_inv s R xs" and r: "r \<in> R" "upath (p @ [vpn va (Suc i)])" "table (mem s) r p = Some a"
  shows "xs = [] \<and> walk_loop (Suc i) a va True s = Ok (0, s) \<or>
    (\<exists>b s' xs'. walk_loop (Suc i) a va True s = walk_loop i b va True s' \<and> vm_inv s' R xs' \<and>
      vm_grow s s' R xs xs' \<and> table (mem s') r (p @ [vpn va (Suc i)]) = Some b)"
proof -
  define k where "k = vpn va (Suc i)"
  define v where "v = load64 (mem s) (slot a k)"
  note D = vm_invD [OF inv]
  have up: "upath p" "length p < 2" "k < 512" "upath (p @ [k])" using upath_snocD r(2) by (auto simp: k_def)
  have unf: "walk_loop (Suc i) a va True s =
    (if valid v then walk_loop i (target v) va True s
     else bnd (kalloc s) (\<lambda>(q, s). if q = 0 then Ok (0, s) else
       walk_loop i q va True (store_pte (slot a k)
         (PA2PTE (if early_mode s then q else VA2PA q) OR PTE_V) (s\<lparr>mem := memset (mem s) q 0 4096\<rparr>))))"
    using D(2)
    by (auto simp: slot_vpn Let_def v_def k_def pt_alloc_page_pa_def target_def valid_def intro!: bnd_cong)
  show ?thesis
  proof (cases "valid v")
    case True
    then have "table (mem s) r (p @ [k]) = Some (target v)"
      using r(3) by (simp add: table_snoc v_def)
    then show ?thesis using True unf inv vm_grow_refl by (metis k_def)
  next
    case False
    show ?thesis
    proof (cases xs)
      case Nil
      then show ?thesis using False unf kalloc_Nil [of s] D(9,10) by (simp del: walk_loop.simps)
    next
      case (Cons x ys)
      have inv': "vm_inv s R (x # ys)" using inv Cons by simp
      define t where "t = kalloc_take x s"
      note X = vm_take [OF inv', folded t_def]
      note T = vm_invD [OF X(2)]
      define w where "w = PA2PTE (VA2PA x) OR PTE_V"
      define s' where "s' = store_pte (slot a k) w t"
      have w: "valid w" "target w = x"
        using target_mk(1) [OF X(4) D(8), of PTE_V] by (simp_all add: w_def)
      have "memset (mem t) x 0 4096 = mem t"
        by (auto simp: t_def memset_page)
      then have eq: "walk_loop (Suc i) a va True s = walk_loop i x va True s'"
        using False unf X(1) kpage_nonzero [OF D(8) X(4)] T(2) by (simp add: s'_def w_def del: walk_loop.simps)
      have ta: "table (mem t) r p = Some a" using X(9) r up(1) by simp
      have ka: "kpage s a" "a \<noteq> x"
        using table_vm [OF inv r(1) up(1) r(3)] D(5) Cons by auto
      have em: "\<not> valid (load64 (mem t) (slot a k))"
        using False load64_take [OF ka(1) X(4) ka(2) up(3)] by (simp add: t_def v_def)
      have kx: "kpage t x" using X(4) by (simp add: t_def)
      have z: "load64 (mem t) (slot x j) = 0" if "j < 512" for j
        unfolding t_def using X(4) that by (rule load64_take_self)
      note H = vm_hang [OF X(2) r(1) up(4) ta em kx X(8,5,6,7) z w, folded s'_def]
      have "vm_grow s s' R xs ys" using vm_grow_trans [OF X(3) H(2)] Cons by simp
      then show ?thesis using eq H(1,3) unfolding k_def by blast
    qed
  qed
qed

text \<open>
  With \<open>alloc\<close>, \<open>walk\<close> either returns the address of the leaf entry, with the tables on the way
  there, or null when the free list is exhausted. Leaf entries do not change.
\<close>

lemma walk_True:
  assumes inv: "vm_inv s R xs" and r: "r \<in> R" and va: "uva va"
  shows "\<exists>s' xs'. vm_inv s' R xs' \<and> vm_grow s s' R xs xs' \<and>
    (xs' = [] \<and> walk r va True s = Ok (0, s') \<or>
     (\<exists>a. walk r va True s = Ok (slot a (vpn va 0), s') \<and> table (mem s') r (vpath va) = Some a))"
proof -
  have w: "walk r va True s = walk_loop (Suc (Suc 0)) r va True s" by (simp add: walk_def numeral_2_eq_2)
  have p: "upath ([] @ [vpn va (Suc (Suc 0))])" "upath ([vpn va 2] @ [vpn va (Suc 0)])"
    using vpath_upath [OF va] by (simp_all add: vpath_def numeral_2_eq_2)
  from walk_step [OF inv r p(1) table.simps(1)] show ?thesis
  proof (elim disjE exE conjE)
    fix b s1 xs1
    assume e1: "walk_loop (Suc (Suc 0)) r va True s = walk_loop (Suc 0) b va True s1"
      and i1: "vm_inv s1 R xs1" and g1: "vm_grow s s1 R xs xs1"
      and "table (mem s1) r ([] @ [vpn va (Suc (Suc 0))]) = Some b"
    then have t1: "table (mem s1) r [vpn va 2] = Some b" by (simp add: numeral_2_eq_2)
    from walk_step [OF i1 r p(2) t1] show ?thesis
    proof (elim disjE exE conjE)
      fix c s2 xs2
      assume "walk_loop (Suc 0) b va True s1 = walk_loop 0 c va True s2" "vm_inv s2 R xs2"
        "vm_grow s1 s2 R xs1 xs2" "table (mem s2) r ([vpn va 2] @ [vpn va (Suc 0)]) = Some c"
      then show ?thesis
        using e1 w vm_grow_trans [OF g1, of s2 xs1 xs2] vm_effD(3) [OF g1]
        by (auto simp: slot_vpn vpath_def)
    qed (use e1 w i1 g1 in \<open>auto simp del: walk_loop.simps\<close>)
  qed (use w inv vm_grow_refl [of s R xs] in \<open>auto simp del: walk_loop.simps\<close>)
qed

end
