(* ===== verification/Vmops.thy ===== *)
theory Vmops
  imports Addrspace
begin

text \<open>
  The operations on address spaces keep the invariant of theory \<open>Addrspace\<close>, and their exact effect
  on the leaf entries and on the memory user programs see.
\<close>

unbundle bit_operations_syntax

section \<open>Storing a leaf entry\<close>

lemma finite_maps: "finite R \<Longrightarrow> finite (maps m R a)"
proof -
  assume "finite R"
  have "maps m R a \<subseteq> R \<times> {p. set p \<subseteq> {..<512} \<and> length p = 2} \<times> {..<512}"
    by (auto simp: maps_def leafkey_def upath_def)
  moreover have "finite (R \<times> {p. set p \<subseteq> {..<512::nat} \<and> length p = 2} \<times> {..<512::nat})"
    using \<open>finite R\<close> by (intro finite_cartesian_product finite_lists_length_eq) auto
  ultimately show ?thesis by (rule finite_subset)
qed

lemma vm_leaf_store:
  assumes inv: "vm_inv s R xs" and r: "r \<in> R" "leafkey p k" "table (mem s) r p = Some a"
    and w: "valid w \<Longrightarrow> kpage s (target w) \<and> target w \<notin> set xs \<and> \<not> is_table (mem s) R (target w) \<and>
        int (card (maps (mem s) R (target w) - {(r, p, k)})) + 1 \<le> page_ref s (target w)"
    and excl: "\<And>r' q j. valid w \<Longrightarrow> (r', q, j) \<in> maps (mem s) R (target w) \<Longrightarrow> (r', q, j) \<noteq> (r, p, k) \<Longrightarrow>
        \<not> writable w \<and> \<not> writable (entry (mem s) r' q j)"
  defines "s' \<equiv> store_pte (slot a k) w s"
  shows "vm_inv s' R xs"
    "\<And>r' q. r' \<in> R \<Longrightarrow> upath q \<Longrightarrow> table (mem s') r' q = table (mem s) r' q"
    "\<And>r' q j. r' \<in> R \<Longrightarrow> leafkey q j \<Longrightarrow>
      entry (mem s') r' q j = (if r' = r \<and> q = p \<and> j = k then w else entry (mem s) r' q j)"
    "is_table (mem s') R = is_table (mem s) R"
    "\<And>b. maps (mem s') R b = (if valid w \<and> target w = b then insert (r, p, k) (maps (mem s) R b)
      else maps (mem s) R b - {(r, p, k)})"
    "\<And>b c. kpage s b \<Longrightarrow> \<not> is_table (mem s) R b \<Longrightarrow> in_page b c \<Longrightarrow> mem s' c = mem s c"
proof -
  note D = vm_invD [OF inv]
  note A = table_vm [OF inv r(1) leafkeyD(1) [OF r(2)] r(3)]
  have m': "mem s' = store64 (mem s) (slot a k) w" by (simp add: s'_def)
  note S = leaf_store [OF D(4) r m']
  show T: "table (mem s') r' q = table (mem s) r' q" if "r' \<in> R" "upath q" for r' q
    using S(1) that .
  show E: "entry (mem s') r' q j = (if r' = r \<and> q = p \<and> j = k then w else entry (mem s) r' q j)"
    if "r' \<in> R" "leafkey q j" for r' q j
    using S(2) that .
  show I: "is_table (mem s') R = is_table (mem s) R"
    unfolding is_table_def fun_eq_iff by (metis T)
  show M: "maps (mem s') R b = (if valid w \<and> target w = b then insert (r, p, k) (maps (mem s) R b)
      else maps (mem s) R b - {(r, p, k)})" for b
    using E r(1,2) by (auto simp: maps_def split: if_splits)
  show "mem s' c = mem s c" if "kpage s b" "\<not> is_table (mem s) R b" "in_page b c" for b c
  proof -
    have "b \<noteq> a" using that A(4) by auto
    then have "\<not> in_page a c"
      using in_page_unique [of a b c] A(2) kpage_aligned(1) [OF that(1)] that(3) by auto
    then show ?thesis unfolding m' using A(2) leafkeyD(3) [OF r(2)] by (intro store_slot_other)
  qed
  show "vm_inv s' R xs"
    unfolding vm_inv_def
  proof (intro conjI allI ballI impI)
    show "kalloc_ready s' xs"
      unfolding s'_def using D(3,5) A(1,4) leafkeyD(3) [OF r(2)] by (intro kalloc_ready_store) auto
  next
    show "tables_ok (mem s') R" using D(4) T unfolding tables_ok_def by metis
  next
    fix b assume "is_table (mem s') R b"
    then show "kpage s' b" "b \<notin> set xs" "page_ref s' b = 1"
      using I D(5) [of b] by (auto simp: s'_def)
  next
    fix b assume b: "kpage s' b" "maps (mem s') R b \<noteq> {}"
    note fin = finite_maps [OF D(1), of "mem s" b]
    have kb: "kpage s b" using b(1) by (simp add: s'_def)
    show "int (card (maps (mem s') R b)) \<le> page_ref s' b"
    proof (cases "valid w \<and> target w = b")
      case True
      then have "card (maps (mem s') R b) = Suc (card (maps (mem s) R b - {(r, p, k)}))"
        using M fin by (simp add: card.insert_remove)
      then show ?thesis using w True by (simp add: s'_def)
    next
      case False
      have "card (maps (mem s) R b - {(r, p, k)}) \<le> card (maps (mem s) R b)"
        using fin by (intro card_mono) auto
      then show ?thesis using False b(2) D(7) [OF kb] M by (auto simp: s'_def)
    qed
  next
    fix r' q j assume l: "r' \<in> R" "leafkey q j" "valid (entry (mem s') r' q j)"
    show "kpage s' (target (entry (mem s') r' q j))" "target (entry (mem s') r' q j) \<notin> set xs"
      "\<not> is_table (mem s') R (target (entry (mem s') r' q j))"
      using D(6) [OF l(1,2)] l w E [OF l(1,2)] I by (auto simp: s'_def split: if_splits)
    assume wr: "writable (entry (mem s') r' q j)"
    show "maps (mem s') R (target (entry (mem s') r' q j)) = {(r', q, j)}"
    proof (cases "(r', q, j) = (r, p, k)")
      case True
      then have "entry (mem s') r' q j = w" using E l by simp
      then show ?thesis using M [of "target w"] excl l(3) wr True by fastforce
    next
      case False
      then have e: "entry (mem s') r' q j = entry (mem s) r' q j" using E [OF l(1,2)] by auto
      then have m: "maps (mem s) R (target (entry (mem s) r' q j)) = {(r', q, j)}"
        using D(6) [OF l(1,2)] l(3) wr by simp
      have "\<not> (valid w \<and> target w = target (entry (mem s) r' q j))"
        using excl [of r' q j] m False wr e by auto
      then show ?thesis using M m False e by auto
    qed
  qed (use D in \<open>auto simp: s'_def\<close>)
qed

lemma vm_leaf_clear:
  assumes inv: "vm_inv s R xs" and r: "r \<in> R" "leafkey p k" "table (mem s) r p = Some a" and w: "\<not> valid w"
  defines "s' \<equiv> store_pte (slot a k) w s"
  shows "vm_inv s' R xs"
    "\<And>r' q. r' \<in> R \<Longrightarrow> upath q \<Longrightarrow> table (mem s') r' q = table (mem s) r' q"
    "\<And>r' q j. r' \<in> R \<Longrightarrow> leafkey q j \<Longrightarrow>
      entry (mem s') r' q j = (if r' = r \<and> q = p \<and> j = k then w else entry (mem s) r' q j)"
    "is_table (mem s') R = is_table (mem s) R"
    "\<And>b. maps (mem s') R b = maps (mem s) R b - {(r, p, k)}"
    "\<And>b c. kpage s b \<Longrightarrow> \<not> is_table (mem s) R b \<Longrightarrow> in_page b c \<Longrightarrow> mem s' c = mem s c"
  using vm_leaf_store [OF inv r, of w, folded s'_def] w by auto

section \<open>Releasing a page\<close>

definition kfree_eff :: "u64 \<Rightarrow> 'a kalloc_state_scheme \<Rightarrow> 'a kalloc_state_scheme" where
  "kfree_eff a s =
     (if page_ref s a > 1 then s\<lparr>refcnt := (refcnt s)(nat (page_index a) := page_ref s a - 1)\<rparr>
      else kfree_put a s)"

lemma kfree_eff_frame: "kframe (kfree_eff a s) = kframe s" "kpage (kfree_eff a s) = kpage s"
  by (simp_all add: kfree_eff_def kpage_def fun_eq_iff)

lemma kfree_Ok:
  assumes "vm_inv s R xs" "kpage s a"
  shows "kfree a s = Ok (kfree_eff a s)"
  using kfree_eq [OF vm_invD(8) [OF assms(1)] assms(2) vm_invD(10) [OF assms(1)]]
    vm_invD(7) [OF assms] by (simp add: kfree_eff_def)

lemma kfree_eff_mem: "\<not> in_page a b \<or> page_ref s a > 1 \<Longrightarrow> mem (kfree_eff a s) b = mem s b"
  by (auto simp: kfree_eff_def kfree_put_def memset_page store64_other in_page_def)

lemma kfree_eff_ref:
  assumes "KERNEL_BASE_HIGH \<le> kernel_end s" "kpage s a" "kpage s b"
  shows "page_ref (kfree_eff a s) b = (if b = a \<and> page_ref s a > 1 then page_ref s a - 1 else page_ref s b)"
  using page_index_inj [OF assms(1,3,2)] page_index_bounds [OF assms(1)] assms(2,3)
  by (auto simp: kfree_eff_def page_ref_def nat_eq_iff2)

text \<open>A store to a table entry and the release of another page commute.\<close>

lemma kfree_eff_store:
  assumes "aligned 12 a" "aligned 12 b" "a \<noteq> b" "k < 512"
  shows "kfree_eff a (store_pte (slot b k) v s) = store_pte (slot b k) v (kfree_eff a s)"
proof -
  have sa: "store64 m a h x = (if unat (x - a) < 8 then ucast (drop_bit (8 * unat (x - a)) h) else m x)" for m h x
    by (simp add: store64_def store_le_def)
  have "store64 (memset (store64 (mem s) (slot b k) v) a 0 4096) a h x =
      store64 (store64 (memset (mem s) a 0 4096) a h) (slot b k) v x" for h x
  proof (cases "in_page a x")
    case True
    then have "\<not> in_page b x" using in_page_unique [of a b x] assms by auto
    then have "store64 m (slot b k) v x = m x" for m using assms by (intro store_slot_other)
    then show ?thesis using True by (simp add: sa memset_page)
  next
    case False
    then have "\<not> unat (x - a) < 8" by (simp add: in_page_def)
    then show ?thesis using False by (simp add: store64_def store_le_def memset_page)
  qed
  then have "store64 (memset (store64 (mem s) (slot b k) v) a 0 4096) a h =
      store64 (store64 (memset (mem s) a 0 4096) a h) (slot b k) v" for h
    by (simp add: fun_eq_iff)
  then show ?thesis
    by (simp add: kfree_eff_def kfree_put_def store_pte_def page_ref_def)
qed

lemma vm_free:
  assumes inv: "vm_inv s R xs" and a: "kpage s a" "a \<notin> set xs" "\<not> is_table (mem s) R a"
    and cnt: "maps (mem s) R a = {} \<or> int (card (maps (mem s) R a)) + 1 \<le> page_ref s a"
  defines "s' \<equiv> kfree_eff a s" and "xs' \<equiv> (if page_ref s a > 1 then xs else a # xs)"
  shows "vm_inv s' R xs'"
    "\<And>r p. r \<in> R \<Longrightarrow> upath p \<Longrightarrow> table (mem s') r p = table (mem s) r p"
    "\<And>r p k. r \<in> R \<Longrightarrow> leafkey p k \<Longrightarrow> entry (mem s') r p k = entry (mem s) r p k"
    "is_table (mem s') R = is_table (mem s) R" "maps (mem s') R = maps (mem s) R"
proof -
  note D = vm_invD [OF inv]
  have load: "load64 (mem s') (slot b k) = load64 (mem s) (slot b k)"
    if "is_table (mem s) R b" "k < 512" for b k
  proof -
    have b: "kpage s b" "b \<noteq> a" using D(5) [OF that(1)] that(1) a(3) by auto
    have "mem s' (slot b k + of_nat i) = mem s (slot b k + of_nat i)" if "i < 8" for i
    proof -
      have "\<not> in_page a (slot b k + of_nat i)"
        using in_page_word [OF kpage_aligned(1) [OF a(1)] slot_aligned [OF kpage_aligned(1) [OF b(1)]], of k i]
          slot_not_in_page [OF kpage_aligned(1) [OF b(1)] kpage_aligned(1) [OF a(1)], of k] \<open>i < 8\<close> \<open>k < 512\<close> b(2)
        by blast
      then show ?thesis unfolding s'_def by (intro kfree_eff_mem) simp
    qed
    then show ?thesis unfolding load64_def by (intro load_le_cong) simp
  qed
  note F = tables_frame [where m = "mem s" and m' = "mem s'", OF load]
  show T: "table (mem s') r p = table (mem s) r p" if "r \<in> R" "upath p" for r p
    using F(1) that by blast
  show E: "entry (mem s') r p k = entry (mem s) r p k" if "r \<in> R" "leafkey p k" for r p k
    using F(2) that by (simp add: leafkey_def)
  show I: "is_table (mem s') R = is_table (mem s) R"
    unfolding is_table_def fun_eq_iff by (metis T)
  show M: "maps (mem s') R = maps (mem s) R"
    using E by (auto simp: maps_def fun_eq_iff)
  note ref = kfree_eff_ref [OF D(8) a(1), folded s'_def]
  have kp: "kpage s' = kpage s" by (simp add: s'_def kfree_eff_frame)
  have none: "page_ref s a \<le> 1 \<Longrightarrow> maps (mem s) R a = {}"
    using cnt finite_maps [OF D(1), of "mem s" a] card_gt_0_iff [of "maps (mem s) R a"] by auto
  show "vm_inv s' R xs'"
    unfolding vm_inv_def
  proof (intro conjI allI ballI impI)
    show "kalloc_ready s' xs'"
    proof (cases "page_ref s a > 1")
      case True
      then show ?thesis
        using D(3) by (simp add: s'_def xs'_def kfree_eff_def kalloc_ready_def kalloc_inv_def kpage_def)
    next
      case False
      then show ?thesis
        using kfree_put_inv [OF D(9) a(1,2)] D(10) by (simp add: s'_def xs'_def kfree_eff_def kalloc_ready_def)
    qed
  next
    show "\<not> early_mode s'"
      using kframe_kernD(1) [OF kfree_eff_frame(1), of a s] D(2) by (simp add: s'_def)
  next
    show "tables_ok (mem s') R" using D(4) T unfolding tables_ok_def by metis
  next
    fix b assume "is_table (mem s') R b"
    then show "kpage s' b" "b \<notin> set xs'" "page_ref s' b = 1"
      using I D(5) [of b] a(3) ref [of b] kp by (auto simp: xs'_def)
  next
    fix b assume b: "kpage s' b"
    then show "page_ref s' b \<le> 2147483647" using D(7) [of b] ref [of b] kp by auto
    assume "maps (mem s') R b \<noteq> {}"
    then show "int (card (maps (mem s') R b)) \<le> page_ref s' b"
      using D(7) [of b] ref [of b] kp cnt b by (cases "b = a") (auto simp: M)
  next
    fix r p k assume l: "r \<in> R" "leafkey p k" "valid (entry (mem s') r p k)"
    have "target (entry (mem s) r p k) \<noteq> a" if "page_ref s a \<le> 1"
      using none [OF that] l E unfolding maps_def by auto
    then show "target (entry (mem s') r p k) \<notin> set xs'"
      using D(6) [OF l(1,2)] l E by (auto simp: xs'_def)
    show "kpage s' (target (entry (mem s') r p k))" "\<not> is_table (mem s') R (target (entry (mem s') r p k))"
      "writable (entry (mem s') r p k) \<Longrightarrow> maps (mem s') R (target (entry (mem s') r p k)) = {(r, p, k)}"
      using D(6) [OF l(1,2)] l E I M kp by auto
  qed (rule D(1))
qed

section \<open>Mapping a page\<close>

definition entry_upd :: "(u64 \<Rightarrow> nat list \<Rightarrow> nat \<Rightarrow> u64) \<Rightarrow> u64 \<Rightarrow> u64 \<Rightarrow> u64 \<Rightarrow> u64 \<Rightarrow> nat list \<Rightarrow> nat \<Rightarrow> u64" where
  "entry_upd e r va w = (\<lambda>r' q j. if r' = r \<and> q = vpath va \<and> j = vpn va 0 then w else e r' q j)"

abbreviation leaf :: "'a kern_scheme \<Rightarrow> u64 \<Rightarrow> u64 \<Rightarrow> u64" where
  "leaf s r va \<equiv> entry (mem s) r (vpath va) (vpn va 0)"

lemma PTE_W_bit: "writable v \<longleftrightarrow> bit v 2"
  using and_exp_eq_0_iff_not_bit [of v 2] by (simp add: writable_def)

lemma writable_mk [simp]: "writable (PA2PTE a OR f) \<longleftrightarrow> writable f" "writable (f OR PTE_V) \<longleftrightarrow> writable f"
  by (simp_all add: PTE_W_bit PA2PTE_def bit_simps bit_numeral_rec)

lemma mappages_1:
  assumes "aligned 12 va"
  shows "mappages r va pa 4096 perm s = bnd (walk r va True s) (\<lambda>(pte, s).
    if pte = 0 then Ok (- 1, s) else if valid (load64 (mem s) pte) then Panic ''mappages: remap''
    else Ok (0, store_pte pte (PA2PTE pa OR word_of_int perm OR PTE_V) s))"
proof -
  have "va mod PGSIZE = 0"
    using assms by (simp add: aligned_def word_eq_iff_unat unat_mod mod_eq_0_iff_dvd)
  then show ?thesis by (simp add: mappages_def mappages_loop.simps [of r va va] valid_def cong: if_cong)
qed

lemma flags_V: "f AND NOT 0x3ff = 0 \<Longrightarrow> (f OR PTE_V) AND NOT 0x3ff = (0 :: u64)"
  by (simp add: bit.conj_disj_distrib2)

lemma vm_maps_eff:
  assumes "vm_eff s s' R xs xs' (entry (mem s))"
  shows "maps (mem s') R = maps (mem s) R"
  using vm_effD(4) [OF assms] by (auto simp: maps_def fun_eq_iff)

lemma vm_mappages:
  assumes inv: "vm_inv s R xs" and r: "r \<in> R" and va: "uva va" "aligned 12 va"
    and x: "kpage s x" "x \<notin> set xs" "\<not> is_table (mem s) R x" "int (card (maps (mem s) R x)) + 1 \<le> page_ref s x"
    and perm: "word_of_int perm = f" "f AND NOT 0x3ff = 0"
    and excl: "\<And>r' q j. (r', q, j) \<in> maps (mem s) R x \<Longrightarrow> \<not> writable f \<and> \<not> writable (entry (mem s) r' q j)"
    and empty: "\<not> valid (leaf s r va)"
  defines "w \<equiv> PA2PTE (VA2PA x) OR f OR PTE_V"
  shows "\<exists>s' xs'. vm_inv s' R xs' \<and>
    (xs' = [] \<and> mappages r va (VA2PA x) 4096 perm s = Ok (- 1, s') \<and> vm_grow s s' R xs xs' \<or>
     mappages r va (VA2PA x) 4096 perm s = Ok (0, s') \<and>
     vm_eff s s' R xs xs' (entry_upd (entry (mem s)) r va w) \<and> maps (mem s') R x = insert (r, vpath va, vpn va 0) (maps (mem s) R x))"
proof -
  from walk_True [OF inv r va(1)] obtain s1 xs1 where
    i1: "vm_inv s1 R xs1" and g1: "vm_grow s s1 R xs xs1" and
    alt: "xs1 = [] \<and> walk r va True s = Ok (0, s1) \<or>
     (\<exists>a. walk r va True s = Ok (slot a (vpn va 0), s1) \<and> table (mem s1) r (vpath va) = Some a)"
    by blast
  note G = vm_effD [OF g1]
  note L = vpath_leafkey [OF va(1)]
  from alt show ?thesis
  proof (elim disjE exE conjE)
    assume "xs1 = []" "walk r va True s = Ok (0, s1)"
    then show ?thesis using i1 g1 by (intro exI [of _ s1] exI [of _ "[]"]) (simp add: mappages_1 [OF va(2)])
  next
    fix a assume w1: "walk r va True s = Ok (slot a (vpn va 0), s1)" and t1: "table (mem s1) r (vpath va) = Some a"
    have nz: "slot a (vpn va 0) \<noteq> 0"
      using table_vm(3) [OF i1 r leafkeyD(1) [OF L] t1] by simp
    have "load64 (mem s1) (slot a (vpn va 0)) = leaf s r va"
      using G(4) [OF r L] t1 by (simp add: entry_def)
    then have eq: "mappages r va (VA2PA x) 4096 perm s = Ok (0, store_pte (slot a (vpn va 0)) w s1)"
      using w1 nz empty perm(1) by (simp add: w_def mappages_1 [OF va(2)])
    have tw: "target w = x"
      using target_mk(1) [OF x(1) vm_invD(8) [OF inv] flags_V [OF perm(2)]] by (simp add: w_def or.assoc)
    note M = vm_maps_eff [OF g1]
    have x1: "kpage s1 x" "x \<notin> set xs1" "\<not> is_table (mem s1) R x" "page_ref s1 x = page_ref s x"
      using x G(2,3,6,7) by auto
    have "card (maps (mem s1) R x - {(r, vpath va, vpn va 0)}) \<le> card (maps (mem s) R x)"
      unfolding M using finite_maps [OF vm_invD(1) [OF inv], of "mem s" x] by (intro card_mono) auto
    then have cnt: "int (card (maps (mem s1) R (target w) - {(r, vpath va, vpn va 0)})) + 1 \<le> page_ref s1 (target w)"
      using x(4) x1(4) tw by simp
    have ex: "\<not> writable w \<and> \<not> writable (entry (mem s1) r' q j)"
      if "(r', q, j) \<in> maps (mem s1) R (target w)" for r' q j
      using that excl [of r' q j] G(4) [of r' q j] unfolding M tw by (simp add: w_def maps_def)
    note S = vm_leaf_store [OF i1 r L t1, of w]
    let ?s = "store_pte (slot a (vpn va 0)) w s1"
    have "vm_inv ?s R xs1" using S(1) x1 cnt ex tw by blast
    moreover have "vm_eff s1 ?s R xs1 xs1 (entry_upd (entry (mem s)) r va w)"
      unfolding vm_eff_def entry_upd_def
    proof (intro conjI allI ballI impI)
      fix r' q j assume "r' \<in> R" "leafkey q j"
      then show "entry (mem ?s) r' q j = (if r' = r \<and> q = vpath va \<and> j = vpn va 0 then w else entry (mem s) r' q j)"
        using S(3) x1 cnt ex tw G(4) by simp
    next
      fix b c assume "kpage s1 b" "\<not> is_table (mem s1) R b" "in_page b c"
      then show "mem ?s c = mem s1 c" using S(6) x1 cnt ex tw by blast
    next
      fix r' q b assume "r' \<in> R" "upath q" "table (mem s1) r' q = Some b"
      then show "table (mem ?s) r' q = Some b" using S(2) x1 cnt ex tw by simp
    next
      fix b assume "is_table (mem ?s) R b"
      then show "is_table (mem s1) R b \<or> b \<in> set xs1" using S(4) x1 cnt ex tw by simp
    qed simp_all
    moreover have "maps (mem ?s) R x = insert (r, vpath va, vpn va 0) (maps (mem s) R x)"
      using S(5) [of x] x1 cnt ex tw M by (simp add: w_def)
    ultimately show ?thesis using eq vm_eff_trans [OF g1, of ?s xs1 xs1] G(3) by blast
  qed
qed

end
