(* ===== verification/Unmap.thy ===== *)
theory Unmap
  imports Vmops
begin

text \<open>
  Unmapping: the effect of \<open>kvmunmap\<close> and \<open>uvmunmap\<close> on the leaf entries, the reference counts and
  the free list, and what user programs see of their memory.
\<close>

unbundle bit_operations_syntax

section \<open>User memory\<close>

text \<open>The byte a user program of the address space \<open>r\<close> reads at \<open>va\<close>, if the page is mapped.\<close>

definition uread :: "'a kern_scheme \<Rightarrow> u64 \<Rightarrow> u64 \<Rightarrow> u8 option" where
  "uread s r va =
     (let v = leaf s r va in if valid v then Some (mem s (target v + take_bit 12 va)) else None)"

definition dropped :: "u64 \<Rightarrow> u64" where
  "dropped v = (if valid v \<and> PTE_FLAGS v \<noteq> PTE_V then 0 else v)"

lemma dropped_idem [simp]: "dropped (dropped v) = dropped v"
  by (simp add: dropped_def)

lemma in_page_offset:
  assumes "aligned 12 t"
  shows "in_page t (t + take_bit 12 va)"
proof -
  have "unat (take_bit 12 va) < 4096" using unat_take_bit [of 12 va] by simp
  then show ?thesis by (simp add: in_page_def)
qed

lemma leaf_table:
  assumes "valid (leaf s r va)"
  obtains a where "table (mem s) r (vpath va) = Some a" "load64 (mem s) (slot a (vpn va 0)) = leaf s r va"
  using assms by (auto simp: entry_def split: option.splits)

lemma uread_eff:
  assumes "vm_inv s R xs" "vm_eff s s' R xs xs' e" "r \<in> R" "uva va"
    "e r (vpath va) (vpn va 0) = leaf s r va"
  shows "uread s' r va = uread s r va"
proof -
  note L = vpath_leafkey [OF assms(4)]
  have e: "leaf s' r va = leaf s r va" using vm_effD(4) [OF assms(2,3) L] assms(5) by simp
  show ?thesis
  proof (cases "valid (leaf s r va)")
    case True
    have T: "kpage s (target (leaf s r va))" "target (leaf s r va) \<notin> set xs"
      "\<not> is_table (mem s) R (target (leaf s r va))"
      using vm_invD(6) [OF assms(1,3) L True] by auto
    have "mem s' (target (leaf s r va) + take_bit 12 va) = mem s (target (leaf s r va) + take_bit 12 va)"
      by (rule vm_effD(8) [OF assms(2) T in_page_offset [OF kpage_aligned(1) [OF T(1)]]])
    then show ?thesis by (simp add: uread_def e Let_def)
  qed (simp add: uread_def e)
qed

lemma uread_cong:
  assumes "leaf s' r va = leaf s r va"
    "valid (leaf s r va) \<Longrightarrow> mem s' (target (leaf s r va) + take_bit 12 va) = mem s (target (leaf s r va) + take_bit 12 va)"
  shows "uread s' r va = uread s r va"
  using assms by (simp add: uread_def Let_def)

lemma uread_store:
  assumes inv: "vm_inv s R xs" and r: "r' \<in> R" "uva b"
    and e: "leaf s' r' b = leaf s r' b"
    and m: "\<And>c d. kpage s c \<Longrightarrow> \<not> is_table (mem s) R c \<Longrightarrow> in_page c d \<Longrightarrow> mem s' d = mem s d"
  shows "uread s' r' b = uread s r' b"
proof (rule uread_cong [OF e])
  assume "valid (leaf s r' b)"
  note T = vm_invD(6) [OF inv r(1) vpath_leafkey [OF r(2)] this]
  then have "kpage s (target (leaf s r' b))" "\<not> is_table (mem s) R (target (leaf s r' b))" by auto
  from m [OF this in_page_offset [OF kpage_aligned(1) [OF this(1)]]]
  show "mem s' (target (leaf s r' b) + take_bit 12 b) = mem s (target (leaf s r' b) + take_bit 12 b)" .
qed

text \<open>Dropping a reference that no entry needs does not change what a user program sees.\<close>

lemma uread_free:
  assumes inv: "vm_inv s R xs" and a: "kpage s a" "a \<notin> set xs" "\<not> is_table (mem s) R a"
    and cnt: "maps (mem s) R a = {} \<or> int (card (maps (mem s) R a)) + 1 \<le> page_ref s a"
    and r: "r \<in> R" "uva b"
  shows "leaf (kfree_eff a s) r b = leaf s r b" "uread (kfree_eff a s) r b = uread s r b"
proof -
  note L = vpath_leafkey [OF r(2)]
  show e: "leaf (kfree_eff a s) r b = leaf s r b" by (rule vm_free(3) [OF inv a cnt r(1) L])
  show "uread (kfree_eff a s) r b = uread s r b"
  proof (rule uread_cong [OF e])
    assume v: "valid (leaf s r b)"
    define t where "t = target (leaf s r b)"
    have t: "aligned 12 t" using vm_invD(6) [OF inv r(1) L v] kpage_aligned(1) by (auto simp: t_def)
    have "\<not> in_page a (t + take_bit 12 b) \<or> page_ref s a > 1"
    proof (cases "t = a")
      case True
      then have "(r, vpath b, vpn b 0) \<in> maps (mem s) R a" using v r(1) L by (simp add: maps_def t_def)
      then have "0 < card (maps (mem s) R a)" "maps (mem s) R a \<noteq> {}"
        using finite_maps [OF vm_invD(1) [OF inv], of "mem s" a] by (auto simp: card_gt_0_iff)
      then show ?thesis using cnt by simp
    next
      case False
      then show ?thesis
        using in_page_unique [OF t kpage_aligned(1) [OF a(1)] in_page_offset [OF t]] by blast
    qed
    then show "mem (kfree_eff a s) (target (leaf s r b) + take_bit 12 b) = mem s (target (leaf s r b) + take_bit 12 b)"
      unfolding t_def by (rule kfree_eff_mem)
  qed
qed

section \<open>Unmapping one page\<close>

text \<open>The state after a mapped page is unmapped and its reference is dropped.\<close>

definition unmapped :: "u64 \<Rightarrow> u64 \<Rightarrow> 'a kern_scheme \<Rightarrow> 'a kern_scheme" where
  "unmapped r va s =
     kfree_eff (target (leaf s r va))
       (store_pte (slot (the (table (mem s) r (vpath va))) (vpn va 0)) 0 s)"

lemma unmap_page_skip:
  assumes "vm_inv s R xs" "dropped (leaf s r va) = leaf s r va"
  shows "unmap_page r f va s = Ok (None, s)"
proof -
  have "\<not> valid (leaf s r va) \<or> PTE_FLAGS (leaf s r va) = PTE_V"
    using assms(2) by (auto simp: dropped_def split: if_splits)
  then show ?thesis
    using vm_invD(2) [OF assms(1)] unfolding unmap_page_def
    by (subst walk_False) (auto simp: entry_def Let_def valid_def split: option.splits)
qed

lemma unmap_page_free:
  assumes inv: "vm_inv s R xs" and r: "r \<in> R" and va: "uva va"
    and v: "valid (leaf s r va)" "PTE_FLAGS (leaf s r va) \<noteq> PTE_V"
  defines "t \<equiv> target (leaf s r va)" and "s' \<equiv> unmapped r va s"
  shows "unmap_page r True va s = Ok (None, s')"
    "vm_inv s' R (if page_ref s t > 1 then xs else t # xs)"
    "\<And>r' q j. r' \<in> R \<Longrightarrow> leafkey q j \<Longrightarrow> entry (mem s') r' q j = entry_upd (entry (mem s)) r va 0 r' q j"
    "is_table (mem s') R = is_table (mem s) R" "kframe s' = kframe s"
    "\<And>r' b. r' \<in> R \<Longrightarrow> uva b \<Longrightarrow> (r', vpath b, vpn b 0) \<noteq> (r, vpath va, vpn va 0) \<Longrightarrow> uread s' r' b = uread s r' b"
proof -
  note L = vpath_leafkey [OF va]
  obtain a where a: "table (mem s) r (vpath va) = Some a" "load64 (mem s) (slot a (vpn va 0)) = leaf s r va"
    using leaf_table [OF v(1)] .
  define s1 where "s1 = store_pte (slot a (vpn va 0)) 0 s"
  note A = table_vm [OF inv r leafkeyD(1) [OF L] a(1)]
  note T = vm_invD(6) [OF inv r L v(1), folded t_def]
  note D = vm_invD [OF inv]
  note S = vm_leaf_clear [OF inv r L a(1) not_valid_0, folded s1_def]
  have at: "a \<noteq> t" "aligned 12 t" using A(4) T kpage_aligned(1) [of s t] by auto
  have s': "s' = kfree_eff t s1" by (simp add: s'_def unmapped_def a(1) s1_def t_def)
  have key: "(r, vpath va, vpn va 0) \<in> maps (mem s) R t" using v(1) r L by (simp add: maps_def t_def)
  have m1: "maps (mem s1) R t = maps (mem s) R t - {(r, vpath va, vpn va 0)}" using S(5) by simp
  have "card (maps (mem s) R t) = Suc (card (maps (mem s1) R t))"
    unfolding m1 by (rule card.remove [OF finite_maps [OF D(1)] key])
  then have cnt: "int (card (maps (mem s1) R t)) + 1 \<le> page_ref s1 t"
    using D(7) [of t] T key by (auto simp: s1_def)
  have t1: "kpage s1 t" "t \<notin> set xs" "\<not> is_table (mem s1) R t" using T S(4) by (auto simp: s1_def)
  note F = vm_free [OF S(1) t1 disjI2 [OF cnt], folded s']
  have pr: "page_ref s1 = page_ref s" by (simp add: s1_def)
  show "vm_inv s' R (if page_ref s t > 1 then xs else t # xs)" using F(1) by (simp add: pr)
  show "entry (mem s') r' q j = entry_upd (entry (mem s)) r va 0 r' q j" if "r' \<in> R" "leafkey q j" for r' q j
    unfolding F(3) [OF that] S(3) [OF that] by (simp add: entry_upd_def)
  show "is_table (mem s') R = is_table (mem s) R" using F(4) S(4) by simp
  show "kframe s' = kframe s" by (simp add: s' kfree_eff_frame s1_def)
  show "uread s' r' b = uread s r' b"
    if b: "r' \<in> R" "uva b" "(r', vpath b, vpn b 0) \<noteq> (r, vpath va, vpn va 0)" for r' b
  proof -
    have "uread s' r' b = uread s1 r' b"
      unfolding s' by (rule uread_free(2) [OF S(1) t1 disjI2 [OF cnt] b(1,2)])
    also have "\<dots> = uread s r' b"
      using S(3) [OF b(1) vpath_leafkey [OF b(2)]] b(3) by (intro uread_store [OF inv b(1,2) _ S(6)]) auto
    finally show ?thesis .
  qed
  have "walk r va False s = Ok (slot a (vpn va 0), s)"
    using walk_False [OF D(2)] a(1) by simp
  moreover have "slot a (vpn va 0) \<noteq> 0" using A(3) by simp
  moreover have "kfree t s = Ok (kfree_eff t s)" by (rule kfree_Ok [OF inv conjunct1 [OF T]])
  moreover have "store_pte (slot a (vpn va 0)) 0 (kfree_eff t s) = s'"
    unfolding s' s1_def using at A(2) by (subst kfree_eff_store) auto
  ultimately show "unmap_page r True va s = Ok (None, s')"
    using v a(2) by (simp add: unmap_page_def Let_def valid_def t_def target_def)
qed

section \<open>Unmapping a range\<close>

definition vakey :: "u64 \<Rightarrow> nat list \<times> nat" where
  "vakey va = (vpath va, vpn va 0)"

text \<open>User addresses, below \<open>USER_VA_TOP\<close>.\<close>

definition usr :: "u64 \<Rightarrow> bool" where
  "usr va \<longleftrightarrow> unat va < 2 ^ 38"

lemma usr_uva: "usr va \<Longrightarrow> uva va"
  by (simp add: usr_def uva_def vpn_eq less_mult_imp_div_less)

lemma vakey_eq_iff:
  assumes "usr a" "usr b"
  shows "vakey a = vakey b \<longleftrightarrow> unat a div 4096 = unat b div 4096"
proof -
  define m n where "m = unat a div 4096" and "n = unat b div 4096"
  have eq: "vakey c = ([unat c div 4096 div 512 div 512 mod 512, unat c div 4096 div 512 mod 512], unat c div 4096 mod 512)" for c
    by (simp add: vakey_def vpath_def vpn_eq div_mult2_eq [symmetric])
  have "m div 512 div 512 < 512" "n div 512 div 512 < 512"
    using assms by (simp_all add: usr_def m_def n_def less_mult_imp_div_less)
  then have "m = n" if "m mod 512 = n mod 512" "m div 512 mod 512 = n div 512 mod 512"
    "m div 512 div 512 mod 512 = n div 512 div 512 mod 512"
    using that by (metis div_mult_mod_eq mod_less)
  then show ?thesis unfolding eq m_def [symmetric] n_def [symmetric] by auto
qed

definition unmap_rel :: "'a kern_scheme \<Rightarrow> 'a kern_scheme \<Rightarrow> u64 set \<Rightarrow> u64 \<Rightarrow> (nat list \<times> nat) set \<Rightarrow> bool" where
  "unmap_rel s s' R r K \<longleftrightarrow>
     kframe s' = kframe s \<and> is_table (mem s') R = is_table (mem s) R \<and>
     (\<forall>r' \<in> R. \<forall>q j. leafkey q j \<longrightarrow> entry (mem s') r' q j =
        (if r' = r \<and> (q, j) \<in> K then dropped (entry (mem s) r' q j) else entry (mem s) r' q j)) \<and>
     (\<forall>r' \<in> R. \<forall>va. uva va \<longrightarrow> \<not> (r' = r \<and> vakey va \<in> K) \<longrightarrow> uread s' r' va = uread s r' va)"

lemma unmap_rel_refl: "unmap_rel s s R r {}"
  by (simp add: unmap_rel_def)

lemma unmap_rel_trans:
  assumes "unmap_rel s s1 R r K" "unmap_rel s1 s2 R r K'"
  shows "unmap_rel s s2 R r (K \<union> K')"
  using assms unfolding unmap_rel_def by auto

lemma unmap_page_rel:
  assumes inv: "vm_inv s R xs" and r: "r \<in> R" and va: "uva va"
  shows "\<exists>s' xs'. unmap_page r True va s = Ok (None, s') \<and> vm_inv s' R xs' \<and> unmap_rel s s' R r {vakey va}"
proof (cases "dropped (leaf s r va) = leaf s r va")
  case True
  then have "unmap_rel s s R r {vakey va}" by (auto simp: unmap_rel_def vakey_def)
  then show ?thesis using unmap_page_skip [OF inv True] inv by blast
next
  case False
  then have v: "valid (leaf s r va)" "PTE_FLAGS (leaf s r va) \<noteq> PTE_V"
    by (auto simp: dropped_def split: if_splits)
  note U = unmap_page_free [OF inv r va v]
  have "unmap_rel s (unmapped r va s) R r {vakey va}"
    unfolding unmap_rel_def
  proof (intro conjI ballI allI impI)
    fix r' q j assume "r' \<in> R" "leafkey q j"
    then show "entry (mem (unmapped r va s)) r' q j =
        (if r' = r \<and> (q, j) \<in> {vakey va} then dropped (entry (mem s) r' q j) else entry (mem s) r' q j)"
      using U(3) v by (auto simp: entry_upd_def vakey_def dropped_def)
  next
    fix r' va' assume "r' \<in> R" "uva va'" "\<not> (r' = r \<and> vakey va' \<in> {vakey va})"
    then show "uread (unmapped r va s) r' va' = uread s r' va'"
      using U(6) [of r' va'] by (auto simp: vakey_def)
  qed (use U(4,5) in simp_all)
  then show ?thesis using U(1,2) by blast
qed

lemma unmap_range:
  assumes "vm_inv s R xs" "r \<in> R" "aligned 12 va" "unat va + 4096 * n \<le> 2 ^ 38"
  shows "\<exists>s' xs'. for_pages (unmap_page r True) va (va + of_nat (4096 * n)) s = Ok (None, s') \<and>
    vm_inv s' R xs' \<and> unmap_rel s s' R r (vakey ` set (page_range va n))"
  using assms
proof (induction n arbitrary: va s xs)
  case 0
  then show ?case using unmap_rel_refl [of s R r] by (auto simp: for_pages.simps [of _ va va])
next
  case (Suc n)
  have small: "unat va + 4096 < 2 ^ 64" "unat va < 2 ^ 38" using Suc.prems(4) by simp_all
  note up = unat_add_page [OF small(1)]
  have "unat (va + of_nat (4096 * Suc n)) = unat va + 4096 * Suc n"
    using Suc.prems(4) by (intro unat_add_small) simp
  then have lt: "va < va + of_nat (4096 * Suc n)" by (simp add: word_less_nat_alt)
  have "usr va" using small(2) by (simp add: usr_def)
  from unmap_page_rel [OF Suc.prems(1,2) usr_uva [OF this]] obtain s1 xs1 where
    s1: "unmap_page r True va s = Ok (None, s1)" "vm_inv s1 R xs1" "unmap_rel s s1 R r {vakey va}"
    by auto
  have bound: "va + of_nat (4096 * Suc n) = va + PGSIZE + of_nat (4096 * n)" by simp
  have "\<exists>s' xs'. for_pages (unmap_page r True) (va + PGSIZE) (va + PGSIZE + of_nat (4096 * n)) s1 = Ok (None, s') \<and>
    vm_inv s' R xs' \<and> unmap_rel s1 s' R r (vakey ` set (page_range (va + PGSIZE) n))"
    using Suc.prems(2-4) up by (intro Suc.IH [OF s1(2)] aligned_add_page) auto
  then obtain s2 xs2 where
    s2: "for_pages (unmap_page r True) (va + PGSIZE) (va + of_nat (4096 * Suc n)) s1 = Ok (None, s2)"
    "vm_inv s2 R xs2" "unmap_rel s1 s2 R r (vakey ` set (page_range (va + PGSIZE) n))"
    unfolding bound by blast
  have "for_pages (unmap_page r True) va (va + of_nat (4096 * Suc n)) s = Ok (None, s2)"
    using lt s1(1) s2(1) small(1) by (subst for_pages.simps) simp
  then show ?case using s2(2) unmap_rel_trans [OF s1(3) s2(3)] by auto
qed

lemma page_range_addr:
  assumes "aligned 12 va" "unat va + 4096 * n \<le> 2 ^ 38" "usr b"
  shows "vakey b \<in> vakey ` set (page_range va n) \<longleftrightarrow> unat va \<le> unat b \<and> unat b < unat va + 4096 * n"
  using assms
proof (induction n arbitrary: va)
  case 0
  then show ?case by simp
next
  case (Suc n)
  have small: "unat va + 4096 < 2 ^ 64" "usr va" using Suc.prems(2) by (simp_all add: usr_def)
  note up = unat_add_page [OF small(1)]
  obtain q where q: "unat va = 4096 * q" using Suc.prems(1) by (auto simp: aligned_def elim: dvdE)
  have "vakey b \<in> vakey ` set (page_range (va + PGSIZE) n) \<longleftrightarrow>
      unat va + 4096 \<le> unat b \<and> unat b < unat va + 4096 + 4096 * n"
    using Suc.IH [OF aligned_add_page [OF Suc.prems(1)] _ Suc.prems(3)] Suc.prems(2) up by simp
  moreover have "vakey b = vakey va \<longleftrightarrow> unat va \<le> unat b \<and> unat b < unat va + 4096"
    using vakey_eq_iff [OF Suc.prems(3) small(2)] by (auto simp: q)
  ultimately show ?case by auto
qed

end
