(* ===== verification/Cow.thy ===== *)
theory Cow
  imports Unmap
begin

text \<open>
  Lazy allocation and copy-on-write: \<open>handle_page_fault\<close>, \<open>uvmcopy\<close> and \<open>handle_cow_fault\<close>.
\<close>

unbundle bit_operations_syntax

section \<open>Writing to a page\<close>

text \<open>A write to an allocated page that is no page table keeps the invariant and all entries.\<close>

lemma vm_write:
  assumes inv: "vm_inv s R xs" and x: "kpage s x" "x \<notin> set xs" "\<not> is_table (mem s) R x"
    and m: "\<forall>b. \<not> in_page x b \<longrightarrow> m b = mem s b"
  defines "s' \<equiv> s\<lparr>mem := m\<rparr>"
  shows "vm_inv s' R xs"
    "\<And>r p. r \<in> R \<Longrightarrow> upath p \<Longrightarrow> table (mem s') r p = table (mem s) r p"
    "\<And>r p k. r \<in> R \<Longrightarrow> leafkey p k \<Longrightarrow> entry (mem s') r p k = entry (mem s) r p k"
    "is_table (mem s') R = is_table (mem s) R" "maps (mem s') R = maps (mem s) R"
    "kpage s' = kpage s" "page_ref s' = page_ref s" "kframe s' = kframe s"
proof -
  note D = vm_invD [OF inv]
  have other: "load64 m b = load64 (mem s) b" if "aligned 3 b" "\<not> in_page x b" for b
    unfolding load64_def
    using m in_page_word [OF kpage_aligned(1) [OF x(1)] that(1)] that(2) by (intro load_le_cong) auto
  have load: "load64 (mem s') (slot b k) = load64 (mem s) (slot b k)"
    if "is_table (mem s) R b" "k < 512" for b k
  proof -
    have b: "kpage s b" "b \<noteq> x" using D(5) [OF that(1)] that(1) x(3) by auto
    show ?thesis
      using other [OF slot_aligned [OF kpage_aligned(1) [OF b(1)] that(2)]]
        slot_not_in_page [OF kpage_aligned(1) [OF b(1)] kpage_aligned(1) [OF x(1)] that(2) b(2)]
      by (simp add: s'_def)
  qed
  note F = tables_frame [where m = "mem s" and m' = "mem s'", OF load]
  show T: "table (mem s') r p = table (mem s) r p" if "r \<in> R" "upath p" for r p
    using F(1) that by blast
  show E: "entry (mem s') r p k = entry (mem s) r p k" if "r \<in> R" "leafkey p k" for r p k
    using F(2) that by (simp add: leafkey_def)
  show I: "is_table (mem s') R = is_table (mem s) R"
    unfolding is_table_def fun_eq_iff by (metis T)
  show M: "maps (mem s') R = maps (mem s) R"
    using E by (auto simp: maps_def fun_eq_iff)
  show kp: "kpage s' = kpage s" "page_ref s' = page_ref s" "kframe s' = kframe s"
    by (auto simp: s'_def kpage_def page_ref_def fun_eq_iff)
  have "kalloc_ready s' xs"
  proof -
    have "load64 m y = load64 (mem s) y" if "y \<in> set xs" for y
    proof -
      have y: "kpage s y" "y \<noteq> x" using kalloc_invD(4) [OF D(9) that] that x(2) by auto
      show ?thesis
        using other [OF kpage_aligned(2) [OF y(1)]] kpage_in_page [OF x(1) y(1)] y(2) by simp
    qed
    then have "free_path m (head_addr s) (head_next s) xs"
      using kalloc_invD(6) [OF D(9)] by (subst free_path_cong [where m' = "mem s"]) auto
    then show ?thesis
      using D(3) by (simp add: kalloc_ready_def kalloc_inv_def s'_def kpage_def)
  qed
  moreover have "tables_ok (mem s') R" using D(4) T unfolding tables_ok_def by metis
  moreover have "\<not> early_mode s'" using D(2) by (simp add: s'_def)
  ultimately show "vm_inv s' R xs"
    unfolding vm_inv_def using D(1,5,6,7) E I M kp by auto
qed

section \<open>Lazy allocation\<close>

lemma PGROUNDDOWN_aligned: "aligned 12 (PGROUNDDOWN a)"
proof -
  have "unat (PGROUNDDOWN a) = unat a - unat a mod 2 ^ 12"
    unfolding PGROUNDDOWN_eq by (rule unat_and_not_mask)
  also have "\<dots> = 2 ^ 12 * (unat a div 2 ^ 12)" by (simp only: minus_mod_eq_mult_div)
  finally show ?thesis by (simp add: aligned_def)
qed

lemma PGROUNDDOWN_div: "unat (PGROUNDDOWN a) div 4096 = unat a div 4096" "unat (PGROUNDDOWN a) \<le> unat a"
proof -
  have e: "unat (PGROUNDDOWN a) = unat a - unat a mod 2 ^ 12"
    unfolding PGROUNDDOWN_eq by (rule unat_and_not_mask)
  also have "\<dots> = 2 ^ 12 * (unat a div 2 ^ 12)" by (simp only: minus_mod_eq_mult_div)
  finally show "unat (PGROUNDDOWN a) div 4096 = unat a div 4096" by simp
  show "unat (PGROUNDDOWN a) \<le> unat a" using e by simp
qed

lemma usr_PGROUNDDOWN: "usr a \<Longrightarrow> usr (PGROUNDDOWN a)"
  using PGROUNDDOWN_div(2) [of a] by (simp add: usr_def)

lemma vakey_PGROUNDDOWN:
  assumes "usr a"
  shows "vakey (PGROUNDDOWN a) = vakey a" "vpath (PGROUNDDOWN a) = vpath a" "vpn (PGROUNDDOWN a) 0 = vpn a 0"
  using vakey_eq_iff [OF usr_PGROUNDDOWN [OF assms] assms] PGROUNDDOWN_div(1) [of a]
  by (auto simp: vakey_def)

lemma user_flags: "word_of_int (uint (PTE_V OR PTE_R OR PTE_W OR PTE_U)) = (0x17 :: u64)"
  "(0x17 :: u64) AND NOT 0x3ff = 0"
  by simp_all

text \<open>
  Allocating a page and mapping it, with the release of the page when no table can be allocated: the
  common part of the fault handlers.
\<close>

definition map_fresh :: "u64 \<Rightarrow> u64 \<Rightarrow> int \<Rightarrow> 'a kern_scheme \<Rightarrow> (int \<times> 'a kern_scheme) outcome" where
  "map_fresh r va perm s =
     bnd (kalloc s) (\<lambda>(p, s).
     if p = 0 then Ok (- 1, s)
     else bnd (mappages r va (VA2PA p) 4096 perm s) (\<lambda>(e, s).
       if e < 0 then bnd (kfree p s) (\<lambda>s. Ok (- 1, s)) else Ok (0, s)))"

lemma map_fresh_effect:
  assumes inv: "vm_inv s R xs" and r: "r \<in> R" and va: "usr va" "aligned 12 va"
    and perm: "word_of_int perm = f" "f AND NOT 0x3ff = 0" and empty: "\<not> valid (leaf s r va)"
  shows "\<exists>s' xs'. vm_inv s' R xs' \<and> kframe s' = kframe s \<and>
    (map_fresh r va perm s = Ok (- 1, s') \<and>
       (\<forall>r' \<in> R. \<forall>b. uva b \<longrightarrow> leaf s' r' b = leaf s r' b \<and> uread s' r' b = uread s r' b) \<or>
     map_fresh r va perm s = Ok (0, s') \<and>
       PTE_FLAGS (leaf s' r va) = f OR PTE_V \<and>
       (\<forall>r' \<in> R. \<forall>b. uva b \<longrightarrow>
          (if r' = r \<and> vakey b = vakey va then uread s' r' b = Some 0
           else leaf s' r' b = leaf s r' b \<and> uread s' r' b = uread s r' b)))"
proof (cases xs)
  case Nil
  then have "map_fresh r va perm s = Ok (- 1, s)"
    using kalloc_Nil [of s] vm_invD(9,10) [OF inv] by (simp add: map_fresh_def)
  then show ?thesis using inv by blast
next
  case (Cons x ys)
  have inv': "vm_inv s R (x # ys)" using inv Cons by simp
  define s1 where "s1 = kalloc_take x s"
  note X = vm_take [OF inv', folded s1_def]
  note G = vm_effD [OF X(3)]
  have x0: "x \<noteq> 0" using kpage_nonzero [OF vm_invD(8) [OF inv] X(4)] .
  have x1: "kpage s1 x" "x \<notin> set ys" "\<not> is_table (mem s1) R x" "int (card (maps (mem s1) R x)) + 1 \<le> page_ref s1 x"
    using X G(2) by simp_all
  note U = usr_uva [OF va(1)]
  have empty1: "\<not> valid (leaf s1 r va)" using G(4) [OF r vpath_leafkey [OF U]] empty by simp
  define w where "w = PA2PTE (VA2PA x) OR f OR PTE_V"
  have "\<exists>s2 xs2. vm_inv s2 R xs2 \<and>
    (xs2 = [] \<and> mappages r va (VA2PA x) 4096 perm s1 = Ok (- 1, s2) \<and> vm_grow s1 s2 R ys xs2 \<or>
     mappages r va (VA2PA x) 4096 perm s1 = Ok (0, s2) \<and>
     vm_eff s1 s2 R ys xs2 (entry_upd (entry (mem s1)) r va w) \<and>
     maps (mem s2) R x = insert (r, vpath va, vpn va 0) (maps (mem s1) R x))"
    unfolding w_def using X(6) by (intro vm_mappages [OF X(2) r U va(2) x1 perm _ empty1]) auto
  then obtain s2 xs2 where i2: "vm_inv s2 R xs2" and alt:
    "xs2 = [] \<and> mappages r va (VA2PA x) 4096 perm s1 = Ok (- 1, s2) \<and> vm_grow s1 s2 R ys xs2 \<or>
     mappages r va (VA2PA x) 4096 perm s1 = Ok (0, s2) \<and>
     vm_eff s1 s2 R ys xs2 (entry_upd (entry (mem s1)) r va w)"
    by blast
  have keep1: "leaf s1 r' b = leaf s r' b \<and> uread s1 r' b = uread s r' b" if "r' \<in> R" "uva b" for r' b
    using uread_eff [OF inv' X(3) that] G(4) [OF that(1) vpath_leafkey [OF that(2)]] by simp
  from alt show ?thesis
  proof (elim disjE conjE)
    assume m: "mappages r va (VA2PA x) 4096 perm s1 = Ok (- 1, s2)" and g2: "vm_grow s1 s2 R ys xs2"
    note H = vm_effD [OF g2]
    have x2: "kpage s2 x" "x \<notin> set xs2" "\<not> is_table (mem s2) R x" "maps (mem s2) R x = {}"
      using x1 H(2,3,6) vm_maps_eff [OF g2] X(6) by auto
    define s3 where "s3 = kfree_eff x s2"
    note F = vm_free [OF i2 x2(1-3) disjI1 [OF x2(4)], folded s3_def]
    have "map_fresh r va perm s = Ok (- 1, s3)"
      using X(1) x0 m kfree_Ok [OF i2 x2(1)] by (simp add: map_fresh_def s3_def)
    moreover have "leaf s3 r' b = leaf s r' b \<and> uread s3 r' b = uread s r' b" if "r' \<in> R" "uva b" for r' b
    proof -
      note R3 = uread_free [OF i2 x2(1-3) disjI1 [OF x2(4)] that, folded s3_def]
      show ?thesis
        using R3 keep1 [OF that] uread_eff [OF X(2) g2 that refl] H(4) [OF that(1) vpath_leafkey [OF that(2)]] by simp
    qed
    moreover have "kframe s3 = kframe s" by (simp add: s3_def kfree_eff_frame H(1) s1_def)
    ultimately show ?thesis using F(1) by blast
  next
    assume m: "mappages r va (VA2PA x) 4096 perm s1 = Ok (0, s2)"
      and e2: "vm_eff s1 s2 R ys xs2 (entry_upd (entry (mem s1)) r va w)"
    note H = vm_effD [OF e2]
    have "map_fresh r va perm s = Ok (0, s2)" using X(1) x0 m by (simp add: map_fresh_def)
    moreover have "kframe s2 = kframe s" by (simp add: H(1) s1_def)
    moreover have lw: "leaf s2 r va = w" using H(4) [OF r vpath_leafkey [OF U]] by (simp add: entry_upd_def)
    moreover have tw: "target w = x" "PTE_FLAGS w = f OR PTE_V"
      using target_mk [OF X(4) vm_invD(8) [OF inv] flags_V [OF perm(2)]] by (simp_all add: w_def or.assoc)
    moreover have "if r' = r \<and> vakey b = vakey va then uread s2 r' b = Some 0
           else leaf s2 r' b = leaf s r' b \<and> uread s2 r' b = uread s r' b" if "r' \<in> R" "uva b" for r' b
    proof (cases "r' = r \<and> vakey b = vakey va")
      case True
      then have "leaf s2 r' b = w" using lw by (simp add: vakey_def)
      moreover have "mem s2 (x + take_bit 12 b) = 0"
        using H(8) [OF x1(1-3) in_page_offset [OF kpage_aligned(1) [OF X(4)]]]
          in_page_offset [OF kpage_aligned(1) [OF X(4)], of b]
        by (simp add: s1_def memset_page)
      moreover have "valid w" by (simp add: w_def)
      ultimately show ?thesis using True tw(1) by (simp add: uread_def)
    next
      case False
      then have ne: "entry_upd (entry (mem s1)) r va w r' (vpath b) (vpn b 0) = leaf s1 r' b"
        by (auto simp: entry_upd_def vakey_def)
      then have "uread s2 r' b = uread s1 r' b" using uread_eff [OF X(2) e2 that] by simp
      moreover have "leaf s2 r' b = leaf s1 r' b" using H(4) [OF that(1) vpath_leafkey [OF that(2)]] ne by simp
      ultimately show ?thesis using False keep1 [OF that] by auto
    qed
    ultimately show ?thesis using i2 by auto
  qed
qed

section \<open>Copy on write\<close>

lemma vm_ref:
  assumes inv: "vm_inv s R xs" and p: "kpage s p" "\<not> is_table (mem s) R p" "n \<le> 2147483647"
    "maps (mem s) R p \<noteq> {} \<Longrightarrow> int (card (maps (mem s) R p)) \<le> n"
  shows "vm_inv (ref_set p n s) R xs"
proof -
  have "early_mode (ref_set p n s) = early_mode s" by (simp add: ref_set_def)
  then show ?thesis
    using vm_invD [OF inv] page_ref_set [OF vm_invD(8) [OF inv] p(1)] p(2-4)
    unfolding vm_inv_def by auto
qed

lemma memmove_page:
  assumes "kpage s x" "kpage s t"
  shows "memmove m x t 4096 b = (if in_page x b then m (t + (b - x)) else m b)"
proof -
  have "unat p + 4096 \<le> 2 ^ 64" if "kpage s p" for p
  proof -
    have "unat p < unat PHYSTOP_HIGH" using that by (simp only: kpage_def word_less_nat_alt)
    then show ?thesis by simp
  qed
  then show ?thesis using memmove_eq [of x 4096 t m] assms by (simp add: in_page_def)
qed

definition cow_flags :: "u64 \<Rightarrow> u64" where
  "cow_flags v = (PTE_FLAGS v AND NOT PTE_COW) OR PTE_W"

lemma cow_flags_small: "cow_flags v AND NOT 0x3ff = 0"
proof -
  have "PTE_FLAGS v AND NOT 0x3ff = 0"
    unfolding PTE_FLAGS_def by (simp add: and.assoc)
  then show ?thesis
    unfolding cow_flags_def by (simp add: bit.conj_disj_distrib2 and.assoc and.left_commute)
qed

lemma writable_cow_flags: "writable (cow_flags v)"
  by (simp add: cow_flags_def PTE_W_bit bit_simps bit_numeral_rec)

lemma valid_cow_flags: "valid v \<Longrightarrow> valid (cow_flags v)"
  unfolding valid_def PTE_V_bit cow_flags_def PTE_FLAGS_def by (simp add: bit_simps)

lemma valid_PA2PTE: "valid (PA2PTE a OR f) \<longleftrightarrow> valid f"
  unfolding valid_def PTE_V_bit PA2PTE_def by (simp add: bit_simps)

text \<open>
  A copy-on-write fault gives the page a private writable copy: no address space sees a difference
  in its memory, and no other entry changes.
\<close>

lemma cow_fault_effect:
  assumes inv: "vm_inv s R (x # xs)" and r: "r \<in> R" and va: "usr va" and v: "valid (leaf s r va)"
  shows "\<exists>s' xs'. handle_cow_fault r va s = Ok (0, s') \<and> vm_inv s' R xs' \<and> kframe s' = kframe s \<and>
    target (leaf s' r va) = x \<and> PTE_FLAGS (leaf s' r va) = cow_flags (leaf s r va) \<and>
    maps (mem s') R x = {(r, vpath va, vpn va 0)} \<and>
    (\<forall>r' \<in> R. \<forall>b. uva b \<longrightarrow> uread s' r' b = uread s r' b \<and>
       (r' \<noteq> r \<or> vakey b \<noteq> vakey va \<longrightarrow> leaf s' r' b = leaf s r' b))"
proof -
  note U = usr_uva [OF va]
  note L = vpath_leafkey [OF U]
  define t where "t = target (leaf s r va)"
  have T: "kpage s t" "t \<notin> set (x # xs)" "\<not> is_table (mem s) R t"
    using vm_invD(6) [OF inv r L v] by (auto simp: t_def)
  obtain a where a: "table (mem s) r (vpath va) = Some a" "load64 (mem s) (slot a (vpn va 0)) = leaf s r va"
    using leaf_table [OF v] .
  define s1 where "s1 = kalloc_take x s"
  note X = vm_take [OF inv, folded s1_def]
  note G = vm_effD [OF X(3)]
  define s2 where "s2 = s1\<lparr>mem := memmove (mem s1) x t 4096\<rparr>"
  have kx: "kpage s1 x" using X(4) G(2) by simp
  have m2: "\<forall>b. \<not> in_page x b \<longrightarrow> memmove (mem s1) x t 4096 b = mem s1 b"
    using memmove_page [OF X(4) T(1)] by simp
  note W = vm_write [OF X(2) kx X(8,5) m2, folded s2_def]
  have a2: "table (mem s2) r (vpath va) = Some a"
    using W(2) [OF r leafkeyD(1) [OF L]] X(9) [OF r leafkeyD(1) [OF L]] a(1) by simp
  define w where "w = PA2PTE (VA2PA x) OR cow_flags (leaf s r va)"
  have w: "valid w" "target w = x" "PTE_FLAGS w = cow_flags (leaf s r va)"
    using target_mk [OF X(4) vm_invD(8) [OF inv] cow_flags_small] valid_cow_flags [OF v]
    by (simp_all add: w_def valid_PA2PTE)
  have M2: "maps (mem s2) R = maps (mem s) R" using W(5) vm_maps_eff [OF X(3)] by simp
  have mx: "maps (mem s2) R x = {}" using W(5) X(6) by simp
  define s3 where "s3 = store_pte (slot a (vpn va 0)) w s2"
  have k2: "kpage s2 x" "x \<notin> set xs" "\<not> is_table (mem s2) R x" "page_ref s2 x = 1"
    using kx X(5,7,8) W(4,6,7) by simp_all
  note S = vm_leaf_store [OF W(1) r L a2, of w, folded s3_def]
  have S1: "vm_inv s3 R xs" by (rule S(1)) (use k2 mx w(2) in auto)
  have S3: "entry (mem s3) r' q j = (if r' = r \<and> q = vpath va \<and> j = vpn va 0 then w else entry (mem s2) r' q j)"
    if "r' \<in> R" "leafkey q j" for r' q j
    by (rule S(3)) (use k2 mx w(2) that in auto)
  have S4: "is_table (mem s3) R = is_table (mem s2) R" by (rule S(4)) (use k2 mx w(2) in auto)
  have S5: "maps (mem s3) R b = (if valid w \<and> target w = b then insert (r, vpath va, vpn va 0) (maps (mem s2) R b)
      else maps (mem s2) R b - {(r, vpath va, vpn va 0)})" for b
    by (rule S(5)) (use k2 mx w(2) in auto)
  have S6: "mem s3 c = mem s2 c" if "kpage s2 b" "\<not> is_table (mem s2) R b" "in_page b c" for b c
    by (rule S(6) [OF _ _ that]) (use k2 mx w(2) in auto)
  have xt: "x \<noteq> t" using T(2) by auto
  have t3: "kpage s3 t" "t \<notin> set xs" "\<not> is_table (mem s3) R t"
    using T G(2,6) W(4,6) S4 xt by (auto simp: s3_def)
  have key: "(r, vpath va, vpn va 0) \<in> maps (mem s) R t" using v r L by (simp add: maps_def t_def)
  have "maps (mem s3) R t = maps (mem s) R t - {(r, vpath va, vpn va 0)}" using S5 w(2) xt M2 by simp
  then have "card (maps (mem s) R t) = Suc (card (maps (mem s3) R t))"
    using card.remove [OF finite_maps [OF vm_invD(1) [OF inv]] key] by simp
  moreover have "page_ref s3 t = page_ref s t" using G(7) [OF T(1,2)] W(7) by (simp add: s3_def)
  ultimately have cnt: "int (card (maps (mem s3) R t)) + 1 \<le> page_ref s3 t"
    using vm_invD(7) [OF inv T(1)] key by auto
  define s4 where "s4 = kfree_eff t s3"
  note F = vm_free [OF S1 t3 disjI2 [OF cnt], folded s4_def]
  note RF = uread_free [OF S1 t3 disjI2 [OF cnt], folded s4_def]
  have Ax: "aligned 12 x" "aligned 12 t" "aligned 12 a" "a \<noteq> t"
    using kpage_aligned(1) X(4) T(1) table_vm [OF inv r leafkeyD(1) [OF L] a(1)] T(3) by blast+
  have same: "uread s4 r' b = uread s r' b \<and> (r' \<noteq> r \<or> vakey b \<noteq> vakey va \<longrightarrow> leaf s4 r' b = leaf s r' b)"
    if b: "r' \<in> R" "uva b" for r' b
  proof -
    note Lb = vpath_leafkey [OF b(2)]
    have u1: "uread s1 r' b = uread s r' b" "leaf s1 r' b = leaf s r' b"
      using uread_eff [OF inv X(3) b refl] G(4) [OF b(1) Lb] by simp_all
    have l2: "leaf s2 r' b = leaf s r' b" using W(3) [OF b(1) Lb] u1(2) by simp
    have u3: "uread s3 r' b = uread s r' b"
    proof (cases "r' = r \<and> vakey b = vakey va")
      case True
      then have lf: "leaf s3 r' b = w" "leaf s r' b = leaf s r va" using S3 [OF b(1) Lb] by (auto simp: vakey_def)
      have "mem s3 (x + take_bit 12 b) = mem s2 (x + take_bit 12 b)"
        by (rule S6 [OF k2(1,3) in_page_offset [OF Ax(1)]])
      also have "\<dots> = mem s1 (t + take_bit 12 b)"
        using memmove_page [OF X(4) T(1)] in_page_offset [OF Ax(1), of b] by (simp add: s2_def)
      also have "\<dots> = mem s (t + take_bit 12 b)"
        by (rule G(8) [OF T in_page_offset [OF Ax(2)]])
      finally show ?thesis using lf w(1,2) v by (simp add: uread_def t_def)
    next
      case False
      then have l3: "leaf s3 r' b = leaf s2 r' b" using S3 [OF b(1) Lb] by (auto simp: vakey_def)
      have "uread s3 r' b = uread s2 r' b" by (rule uread_store [OF W(1) b l3 S6])
      also have "\<dots> = uread s1 r' b"
      proof (rule uread_cong)
        show "leaf s2 r' b = leaf s1 r' b" using l2 u1(2) by simp
        assume vb: "valid (leaf s1 r' b)"
        have "target (leaf s1 r' b) \<noteq> x" using X(6) vb b(1) Lb by (auto simp: maps_def)
        moreover have "kpage s1 (target (leaf s1 r' b))" using vm_invD(6) [OF X(2) b(1) Lb vb] by simp
        ultimately have "\<not> in_page x (target (leaf s1 r' b) + take_bit 12 b)"
          using in_page_unique [OF kpage_aligned(1) Ax(1) in_page_offset [OF kpage_aligned(1)]] by blast
        then show "mem s2 (target (leaf s1 r' b) + take_bit 12 b) = mem s1 (target (leaf s1 r' b) + take_bit 12 b)"
          using m2 by (simp add: s2_def)
      qed
      finally show ?thesis using u1(1) by simp
    qed
    moreover have "leaf s3 r' b = leaf s r' b" if "r' \<noteq> r \<or> vakey b \<noteq> vakey va"
      using S3 [OF b(1) Lb] that l2 by (auto simp: vakey_def)
    ultimately show ?thesis using RF [OF b] by simp
  qed
  have "handle_cow_fault r va s = Ok (0, s4)"
  proof -
    have "walk r (PGROUNDDOWN va) False s = Ok (slot a (vpn va 0), s)"
      using walk_False [OF vm_invD(2) [OF inv]] a(1) vakey_PGROUNDDOWN [OF va] by simp
    moreover have "slot a (vpn va 0) \<noteq> 0" using table_vm(3) [OF inv r leafkeyD(1) [OF L] a(1)] by simp
    moreover have "x \<noteq> 0" using kpage_nonzero [OF vm_invD(8) [OF inv] X(4)] .
    moreover have "kfree t s2 = Ok (kfree_eff t s2)"
      by (rule kfree_Ok [OF W(1)]) (simp add: W(6) G(2) T(1))
    moreover have "store_pte (slot a (vpn va 0)) w (kfree_eff t s2) = s4"
      unfolding s4_def s3_def using Ax by (subst kfree_eff_store) auto
    ultimately show ?thesis
      using X(1) a(2)
      by (simp add: handle_cow_fault_def Let_def s2_def w_def cow_flags_def t_def flip: target_def)
  qed
  moreover have "leaf s4 r va = w" using F(3) [OF r L] S3 [OF r L] by simp
  moreover have "maps (mem s4) R x = {(r, vpath va, vpn va 0)}" using F(5) S5 [of x] w mx by simp
  moreover have "kframe s4 = kframe s" by (simp add: s4_def kfree_eff_frame s3_def W(8) s1_def)
  ultimately show ?thesis using F(1) w same by auto
qed

end
