(* ===== verification/Fork.thy ===== *)
theory Fork
  imports Cow
begin

text \<open>
  \<open>uvmcopy\<close>, the copy of an address space for \<open>fork\<close>: parent and child share every page, read-only,
  and both see the memory the parent had.
\<close>

unbundle bit_operations_syntax

section \<open>Entries\<close>

definition cow :: "u64 \<Rightarrow> u64" where
  "cow v = (v OR PTE_COW) AND NOT PTE_W"

definition copy_entry :: "u64 \<Rightarrow> u64" where
  "copy_entry v = PA2PTE (VA2PA (target v)) OR PTE_FLAGS (cow v) OR PTE_V"

lemma PTE_COW_bit: "bit PTE_COW n \<longleftrightarrow> n = 8"
  using bit_exp_iff [of 8 n, where 'a = "64 word"] by (auto simp: possible_bit_word)

lemma PTE_W_bit': "bit PTE_W n \<longleftrightarrow> n = 2"
  using bit_exp_iff [of 2 n, where 'a = "64 word"] by (auto simp: possible_bit_word)

lemma bit_cow: "n < 64 \<Longrightarrow> bit (cow v) n \<longleftrightarrow> n \<noteq> 2 \<and> (bit v n \<or> n = 8)"
  unfolding cow_def
  by (simp only: bit_and_iff bit_or_iff bit_not_iff PTE_COW_bit PTE_W_bit' possible_bit_word) auto

lemma PTE2PA_cong: "(\<And>n. 10 \<le> n \<Longrightarrow> n < 64 \<Longrightarrow> bit v n = bit w n) \<Longrightarrow> PTE2PA v = PTE2PA w"
  unfolding PTE2PA_def by (rule bit_eqI) (auto simp: bit_simps possible_bit_word)

lemma cow_simps [simp]: "target (cow v) = target v" "valid (cow v) \<longleftrightarrow> valid v" "\<not> writable (cow v)"
proof -
  have "PTE2PA (cow v) = PTE2PA v" by (rule PTE2PA_cong) (simp add: bit_cow)
  then show "target (cow v) = target v" by (simp add: target_def)
  show "valid (cow v) \<longleftrightarrow> valid v" by (simp add: valid_def PTE_V_bit bit_cow del: bit_0)
  show "\<not> writable (cow v)" by (simp add: PTE_W_bit bit_cow)
qed

lemma flags_small: "PTE_FLAGS v AND NOT 0x3ff = 0"
  unfolding PTE_FLAGS_def by (simp add: and.assoc)

lemma writable_flags: "writable (PTE_FLAGS v) \<longleftrightarrow> writable v"
  unfolding PTE_W_bit PTE_FLAGS_def mask10 by (simp add: bit_simps)

lemma flags_to_c_int: "word_of_int (to_c_int (uint (PTE_FLAGS v))) = PTE_FLAGS v"
proof -
  have "unat (PTE_FLAGS v) = unat v mod 1024"
    using unat_take_bit [of 10 v] by (simp add: PTE_FLAGS_def take_bit_eq_mask mask10)
  then have "int (unat (PTE_FLAGS v)) < 1024" by simp
  then have "uint (PTE_FLAGS v) < 1024" by (simp only: uint_nat)
  moreover have "- 2147483648 \<le> uint (PTE_FLAGS v)" using uint_ge_0 [of "PTE_FLAGS v"] by linarith
  ultimately have "to_c_int (uint (PTE_FLAGS v)) = uint (PTE_FLAGS v)"
    by (intro to_c_int_id) auto
  then show ?thesis by simp
qed

lemma VA2PA_target: "VA2PA (target v) = PTE2PA v"
  by (simp add: VA2PA_def PA2VA_def target_def)

section \<open>Addresses of entries\<close>

definition mkva :: "nat \<Rightarrow> nat \<Rightarrow> nat \<Rightarrow> u64" where
  "mkva i2 i1 i0 = push_bit 30 (of_nat i2) OR push_bit 21 (of_nat i1) OR push_bit 12 (of_nat i0)"

lemma or_push_add: "unat b < 2 ^ n \<Longrightarrow> push_bit n (a :: u64) OR b = push_bit n a + b"
proof -
  assume b: "unat b < 2 ^ n"
  have "take_bit n b = b" using b by (simp add: word_eq_iff_unat unat_take_bit)
  then have nb: "\<not> bit b k" if "n \<le> k" for k
    using that bit_take_bit_iff [of n b k] by simp
  show ?thesis
    by (rule disjunctive_add [symmetric]) (use nb in \<open>auto simp: bit_push_bit_iff not_le\<close>)
qed

lemma unat_mkva:
  assumes "i2 < 256" "i1 < 512" "i0 < 512"
  shows "unat (mkva i2 i1 i0) = (i2 * 512 * 512 + i1 * 512 + i0) * 4096"
proof -
  have u: "unat (of_nat k :: u64) = k" if "k < 2 ^ 40" for k
    using that by (intro unat_of_nat_small) simp
  have p: "unat (push_bit n (of_nat k) :: u64) = k * 2 ^ n" if "k * 2 ^ n < 2 ^ 64" for k n
  proof -
    have "push_bit n (of_nat k :: u64) = of_nat (k * 2 ^ n)" by (simp add: push_bit_eq_mult)
    moreover have "unat (of_nat (k * 2 ^ n) :: u64) = k * 2 ^ n"
      using that by (intro unat_of_nat_small) simp
    ultimately show ?thesis by (simp only:)
  qed
  define a b c where "a = (push_bit 30 (of_nat i2) :: u64)" and "b = (push_bit 21 (of_nat i1) :: u64)"
    and "c = (push_bit 12 (of_nat i0) :: u64)"
  have ua: "unat a = i2 * 2 ^ 30" "unat b = i1 * 2 ^ 21" "unat c = i0 * 2 ^ 12"
    using assms unfolding a_def b_def c_def by (simp_all add: p)
  have bc: "b OR c = b + c" unfolding b_def using ua(3) assms(3) by (intro or_push_add) simp
  have ubc: "unat (b + c) = i1 * 2 ^ 21 + i0 * 2 ^ 12"
    using ua assms by (simp add: unat_word_ariths)
  have "a OR (b OR c) = a + (b + c)" unfolding bc
    unfolding a_def using ubc assms by (intro or_push_add) simp
  moreover have "unat (a + (b + c)) = i2 * 2 ^ 30 + (i1 * 2 ^ 21 + i0 * 2 ^ 12)"
    using ua ubc assms unfolding unat_word_ariths(1) [of a "b + c"] by simp
  ultimately show ?thesis by (simp add: mkva_def a_def b_def c_def or.assoc)
qed

lemma mkva_props:
  assumes "i2 < 256" "i1 < 512" "i0 < 512"
  shows "usr (mkva i2 i1 i0)" "aligned 12 (mkva i2 i1 i0)" "vpath (mkva i2 i1 i0) = [i2, i1]" "vpn (mkva i2 i1 i0) 0 = i0"
proof -
  note u = unat_mkva [OF assms]
  show "usr (mkva i2 i1 i0)" "aligned 12 (mkva i2 i1 i0)"
    using assms by (simp_all add: usr_def aligned_def u)
  have "(i0 + 512 * (512 * i2 + i1)) mod 512 = i0"
    unfolding mod_mult_self2 using assms(3) by simp
  moreover have "262144 * i2 + 512 * i1 + i0 = i0 + 512 * (512 * i2 + i1)" by simp
  ultimately have "(262144 * i2 + 512 * i1 + i0) mod 512 = i0" by (simp only:)
  moreover have "(i2 * 512 * 512 + i1 * 512 + i0) * 4096 div 2 ^ 30 = i2"
    "(i2 * 512 * 512 + i1 * 512 + i0) * 4096 div 2 ^ 21 = i2 * 512 + i1"
    "(i2 * 512 * 512 + i1 * 512 + i0) * 4096 div 2 ^ 12 = i2 * 512 * 512 + i1 * 512 + i0"
    using assms by simp_all
  ultimately show "vpath (mkva i2 i1 i0) = [i2, i1]" "vpn (mkva i2 i1 i0) 0 = i0"
    using assms by (simp_all add: vpath_def vpn_eq u)
qed

section \<open>Copying one entry\<close>

lemma uread_same_page:
  assumes inv: "vm_inv s R xs" and r: "r' \<in> R" "uva b"
    and e: "valid (leaf s' r' b) = valid (leaf s r' b)" "valid (leaf s r' b) \<Longrightarrow> target (leaf s' r' b) = target (leaf s r' b)"
    and m: "\<And>c d. kpage s c \<Longrightarrow> \<not> is_table (mem s) R c \<Longrightarrow> in_page c d \<Longrightarrow> mem s' d = mem s d"
  shows "uread s' r' b = uread s r' b"
proof (cases "valid (leaf s r' b)")
  case True
  have "kpage s (target (leaf s r' b))" "\<not> is_table (mem s) R (target (leaf s r' b))"
    using vm_invD(6) [OF inv r(1) vpath_leafkey [OF r(2)] True] by auto
  from m [OF this in_page_offset [OF kpage_aligned(1) [OF this(1)]]]
  show ?thesis using e True by (simp add: uread_def)
qed (simp add: uread_def e)

text \<open>Replacing a valid leaf entry by one with the same page, when sharing forbids a writable one.\<close>

lemma vm_reflag:
  assumes inv: "vm_inv s R xs" and r: "r \<in> R" "leafkey p k" "table (mem s) r p = Some a"
    and v: "valid (entry (mem s) r p k)" and w: "valid w" "target w = target (entry (mem s) r p k)"
    and wr: "writable w \<longrightarrow> maps (mem s) R (target w) = {(r, p, k)}"
  defines "s' \<equiv> store_pte (slot a k) w s"
  shows "vm_inv s' R xs"
    "\<And>r' q. r' \<in> R \<Longrightarrow> upath q \<Longrightarrow> table (mem s') r' q = table (mem s) r' q"
    "\<And>r' q j. r' \<in> R \<Longrightarrow> leafkey q j \<Longrightarrow>
      entry (mem s') r' q j = (if r' = r \<and> q = p \<and> j = k then w else entry (mem s) r' q j)"
    "is_table (mem s') R = is_table (mem s) R" "maps (mem s') R = maps (mem s) R"
    "\<And>r' b. r' \<in> R \<Longrightarrow> uva b \<Longrightarrow> uread s' r' b = uread s r' b"
proof -
  define t where "t = target (entry (mem s) r p k)"
  note D = vm_invD [OF inv]
  note T = D(6) [OF r(1,2) v, folded t_def]
  have key: "(r, p, k) \<in> maps (mem s) R t" using v r by (simp add: maps_def t_def)
  have "card (maps (mem s) R t) = Suc (card (maps (mem s) R t - {(r, p, k)}))"
    by (rule card.remove [OF finite_maps [OF D(1)] key])
  moreover have "int (card (maps (mem s) R t)) \<le> page_ref s t" using D(7) [of t] T key by auto
  ultimately have cnt: "int (card (maps (mem s) R t - {(r, p, k)})) + 1 \<le> page_ref s t" by simp
  have ex: "\<not> writable w \<and> \<not> writable (entry (mem s) r' q j)"
    if "(r', q, j) \<in> maps (mem s) R (target w)" "(r', q, j) \<noteq> (r, p, k)" for r' q j
  proof -
    have "r' \<in> R" "leafkey q j" "valid (entry (mem s) r' q j)" "target (entry (mem s) r' q j) = t"
      using that(1) w(2) by (simp_all add: maps_def t_def)
    then have "writable (entry (mem s) r' q j) \<Longrightarrow> maps (mem s) R t = {(r', q, j)}"
      using D(6) by blast
    then show ?thesis using key that wr by auto
  qed
  have tw: "target w = t" using w(2) by (simp add: t_def)
  have c: "kpage s (target w) \<and> target w \<notin> set xs \<and> \<not> is_table (mem s) R (target w) \<and>
        int (card (maps (mem s) R (target w) - {(r, p, k)})) + 1 \<le> page_ref s (target w)"
    using T cnt tw by simp
  note S = vm_leaf_store [OF inv r c ex, folded s'_def]
  show "vm_inv s' R xs" by (rule S(1))
  show "\<And>r' q. r' \<in> R \<Longrightarrow> upath q \<Longrightarrow> table (mem s') r' q = table (mem s) r' q" by (rule S(2))
  show E: "\<And>r' q j. r' \<in> R \<Longrightarrow> leafkey q j \<Longrightarrow>
      entry (mem s') r' q j = (if r' = r \<and> q = p \<and> j = k then w else entry (mem s) r' q j)" by (rule S(3))
  show "is_table (mem s') R = is_table (mem s) R" by (rule S(4))
  have "(r, p, k) \<notin> maps (mem s) R b" if "b \<noteq> t" for b using that by (auto simp: maps_def t_def)
  then show "maps (mem s') R = maps (mem s) R" using S(5) w(1) tw key by (auto simp: fun_eq_iff)
  show "uread s' r' b = uread s r' b" if "r' \<in> R" "uva b" for r' b
    using E [OF that(1) vpath_leafkey [OF that(2)]] v w
    by (intro uread_same_page [OF inv that _ _ S(6)]) (auto split: if_splits)
qed

lemma copy_entry_props:
  assumes "kpage s (target v)" "KERNEL_BASE_HIGH \<le> kernel_end s" "valid v"
  shows "valid (copy_entry v)" "target (copy_entry v) = target v" "PTE_FLAGS (copy_entry v) = PTE_FLAGS (cow v)"
proof -
  have "PTE_FLAGS (cow v) OR PTE_V = PTE_FLAGS (cow v)"
  proof (rule bit_eqI)
    fix n
    have "bit (PTE_FLAGS (cow v)) 0"
      using assms(3) cow_simps(2) [of v] unfolding valid_def PTE_V_bit PTE_FLAGS_def mask10
      by (simp add: bit_simps)
    then show "bit (PTE_FLAGS (cow v) OR PTE_V) n = bit (PTE_FLAGS (cow v)) n"
      by (cases n) (simp_all add: bit_or_iff bit_1_iff)
  qed
  then show "target (copy_entry v) = target v" "PTE_FLAGS (copy_entry v) = PTE_FLAGS (cow v)"
    using target_mk [OF assms(1,2) flags_small [of "cow v"]] by (simp_all add: copy_entry_def or.assoc)
  show "valid (copy_entry v)" by (simp add: copy_entry_def)
qed

text \<open>
  One step of \<open>uvmcopy\<close> on a valid entry: either parent and child share the page, or, when no table
  can be allocated for the child, the entry and the reference count are restored.
\<close>

definition restored :: "u64 \<Rightarrow> u64" where
  "restored v = (if writable v then (cow v AND NOT PTE_COW) OR PTE_W else cow v AND NOT PTE_COW)"

lemma bit_restored: "n < 64 \<Longrightarrow> bit (restored v) n \<longleftrightarrow> n \<noteq> 8 \<and> bit v n"
proof -
  assume n: "n < 64"
  define c where "c = cow v AND NOT PTE_COW"
  have c: "bit c n \<longleftrightarrow> n \<noteq> 2 \<and> n \<noteq> 8 \<and> bit v n"
    using n unfolding c_def
    by (simp only: bit_and_iff bit_not_iff PTE_COW_bit possible_bit_word bit_cow [OF n]) auto
  have "restored v = (if bit v 2 then c OR PTE_W else c)" by (simp only: restored_def c_def PTE_W_bit)
  then have "bit (restored v) n \<longleftrightarrow> bit c n \<or> bit v 2 \<and> n = 2"
    by (cases "bit v 2") (simp_all only: if_True if_False bit_or_iff PTE_W_bit' simp_thms)
  then show ?thesis unfolding c by auto
qed

lemma restored_simps [simp]: "target (restored v) = target v" "valid (restored v) \<longleftrightarrow> valid v" "writable (restored v) \<longleftrightarrow> writable v"
proof -
  have "PTE2PA (restored v) = PTE2PA v" by (rule PTE2PA_cong) (simp add: bit_restored)
  then show "target (restored v) = target v" by (simp add: target_def)
  show "valid (restored v) \<longleftrightarrow> valid v" by (simp add: valid_def PTE_V_bit bit_restored del: bit_0)
  show "writable (restored v) \<longleftrightarrow> writable v" by (simp add: PTE_W_bit bit_restored)
qed

definition copied :: "'a kern_scheme \<Rightarrow> 'a kern_scheme \<Rightarrow> u64 set \<Rightarrow> u64 \<Rightarrow> u64 \<Rightarrow> u64 \<Rightarrow> bool \<Rightarrow> bool" where
  "copied s s' R old new va ok \<longleftrightarrow>
     kframe s' = kframe s \<and>
     (\<forall>r \<in> R. \<forall>p c. upath p \<longrightarrow> table (mem s) r p = Some c \<longrightarrow> table (mem s') r p = Some c) \<and>
     (\<forall>r \<in> R. \<forall>q j. leafkey q j \<longrightarrow> (q, j) \<noteq> vakey va \<or> r \<notin> {old, new} \<longrightarrow> entry (mem s') r q j = entry (mem s) r q j) \<and>
     leaf s' old va = (if ok then cow (leaf s old va) else restored (leaf s old va)) \<and>
     leaf s' new va = (if ok then copy_entry (leaf s old va) else leaf s new va) \<and>
     (\<forall>r \<in> R. \<forall>q j. leafkey q j \<longrightarrow> valid (entry (mem s) r q j) \<longrightarrow>
        page_ref s' (target (entry (mem s) r q j)) \<le> page_ref s (target (entry (mem s) r q j)) + 1) \<and>
     (\<forall>r \<in> R. \<forall>b. uva b \<longrightarrow> uread s' r b = (if ok \<and> r = new \<and> vakey b = vakey va then uread s old b else uread s r b))"

lemma uvmcopy_page_effect:
  assumes inv: "vm_inv s R xs" and o: "old \<in> R" "new \<in> R" "old \<noteq> new" and va: "usr va" "aligned 12 va"
    and a: "table (mem s) old (vpath va) = Some a" and v: "valid (leaf s old va)"
    and lim: "page_ref s (target (leaf s old va)) < 2147483647" and e: "\<not> valid (leaf s new va)"
  shows "\<exists>s' xs' ok. vm_inv s' R xs' \<and> copied s s' R old new va ok \<and>
    uvmcopy_page new va (slot a (vpn va 0)) s = Ok (if ok then None else Some (- 1), s')"
proof -
  define v0 where "v0 = leaf s old va"
  define t where "t = target v0"
  note L = vpath_leafkey [OF usr_uva [OF va(1)]]
  let ?k = "(old, vpath va, vpn va 0)"
  note D = vm_invD [OF inv]
  have v': "valid v0" using v by (simp add: v0_def)
  have T: "kpage s t" "t \<notin> set xs" "\<not> is_table (mem s) R t"
    using D(6) [OF o(1) L v] by (auto simp: t_def v0_def)
  have key: "?k \<in> maps (mem s) R t" using v o(1) L by (simp add: maps_def t_def v0_def)
  have nw: "\<not> writable (entry (mem s) r' q j)" if "(r', q, j) \<in> maps (mem s) R t" "(r', q, j) \<noteq> ?k" for r' q j
  proof -
    have "r' \<in> R" "leafkey q j" "valid (entry (mem s) r' q j)" "target (entry (mem s) r' q j) = t"
      using that(1) by (simp_all add: maps_def)
    then have "writable (entry (mem s) r' q j) \<Longrightarrow> maps (mem s) R t = {(r', q, j)}"
      using D(6) by blast
    then show ?thesis using key that(2) by auto
  qed
  have lda: "load64 (mem s) (slot a (vpn va 0)) = v0" using a by (simp add: v0_def entry_def)
  define s1 where "s1 = store_pte (slot a (vpn va 0)) (cow v0) s"
  have c1: "valid (cow v0)" "target (cow v0) = target (leaf s old va)"
    "writable (cow v0) \<longrightarrow> maps (mem s) R (target (cow v0)) = {?k}"
    using v' by (simp_all add: v0_def)
  note S1 = vm_reflag [OF inv o(1) L a v c1, folded s1_def]
  have k1: "kpage s1 = kpage s" "page_ref s1 = page_ref s" "kframe s1 = kframe s" by (simp_all add: s1_def)
  define s2 where "s2 = ref_set t (page_ref s t + 1) s1"
  have cnt: "int (card (maps (mem s) R t)) \<le> page_ref s t" using D(7) [OF T(1)] key by auto
  have "card (maps (mem s) R t) > 0" using key finite_maps [OF D(1), of "mem s" t] by (auto simp: card_gt_0_iff)
  then have pos: "0 < page_ref s t" using cnt by simp
  have inc: "refcnt_inc t s1 = Ok (0, s2)"
    unfolding s2_def k1(2) [symmetric]
    using vm_invD(8,10) [OF S1(1)] T(1) pos lim by (intro refcnt_inc_eq) (simp_all add: k1 t_def v0_def)
  have m2: "mem s2 = mem s1" "kpage s2 = kpage s" "kframe s2 = kframe s"
    using k1 by (simp_all add: s2_def) (simp add: ref_set_def)
  have ref2: "page_ref s2 b = (if b = t then page_ref s t + 1 else page_ref s b)" if "kpage s b" for b
    using page_ref_set [OF vm_invD(8) [OF S1(1)], of t b] that T(1) k1 by (simp add: s2_def)
  have inv2: "vm_inv s2 R xs"
    unfolding s2_def using S1(4,5) T lim cnt by (intro vm_ref [OF S1(1)]) (simp_all add: k1 t_def v0_def)
  have en2: "entry (mem s2) r' q j = (if (r', q, j) = ?k then cow v0 else entry (mem s) r' q j)"
    if "r' \<in> R" "leafkey q j" for r' q j
    using S1(3) [OF that] m2 by simp
  have x2: "kpage s2 t" "t \<notin> set xs" "\<not> is_table (mem s2) R t" "int (card (maps (mem s2) R t)) + 1 \<le> page_ref s2 t"
    using T S1(4,5) m2 ref2 [OF T(1)] cnt by simp_all
  have ex2: "\<not> writable (PTE_FLAGS (cow v0)) \<and> \<not> writable (entry (mem s2) r' q j)"
    if "(r', q, j) \<in> maps (mem s2) R t" for r' q j
    using that nw [of r' q j] en2 [of r' q j] S1(5) m2 by (auto simp: writable_flags maps_def)
  have e2: "\<not> valid (leaf s2 new va)" using en2 [OF o(2) L] e o(3) by simp
  have u2: "uread s2 r' b = uread s r' b" if "r' \<in> R" "uva b" for r' b
    using S1(6) [OF that] by (simp only: uread_def m2(1))
  define perm where "perm = to_c_int (uint (PTE_FLAGS (cow v0)))"
  have fl: "word_of_int perm = PTE_FLAGS (cow v0)" unfolding perm_def by (rule flags_to_c_int)
  have w: "PA2PTE (VA2PA t) OR PTE_FLAGS (cow v0) OR PTE_V = copy_entry v0" by (simp add: copy_entry_def t_def)
  have unf: "uvmcopy_page new va (slot a (vpn va 0)) s =
     bnd (mappages new va (VA2PA t) 4096 perm s2) (\<lambda>(r, s).
       if r < 0 then
         bnd (refcnt_dec t (store_pte (slot a (vpn va 0))
           (if writable v0 then (load64 (mem s) (slot a (vpn va 0)) AND NOT PTE_COW) OR PTE_W
            else load64 (mem s) (slot a (vpn va 0)) AND NOT PTE_COW) s)) (\<lambda>(_, s). Ok (Some (- 1), s))
       else Ok (None, s))"
  proof -
    have tt: "PTE2PA v0 = VA2PA t" "PA2VA (VA2PA t) = t" by (simp_all add: t_def target_def VA2PA_def PA2VA_def)
    have "(v0 AND PTE_V = 0) = False" using v' by (simp add: valid_def)
    then show ?thesis
      using inc unfolding uvmcopy_page_def lda Let_def tt cow_def [symmetric] writable_def [symmetric]
        perm_def [symmetric] s1_def [symmetric] by (simp only: if_False bnd.simps split_conv)
  qed
  from vm_mappages [OF inv2 o(2) usr_uva [OF va(1)] va(2) x2 fl flags_small ex2 e2, unfolded w]
  obtain s3 xs3 where i3: "vm_inv s3 R xs3" and alt:
    "xs3 = [] \<and> mappages new va (VA2PA t) 4096 perm s2 = Ok (- 1, s3) \<and> vm_grow s2 s3 R xs xs3 \<or>
     mappages new va (VA2PA t) 4096 perm s2 = Ok (0, s3) \<and>
     vm_eff s2 s3 R xs xs3 (entry_upd (entry (mem s2)) new va (copy_entry v0)) \<and>
     maps (mem s3) R t = insert (new, vpath va, vpn va 0) (maps (mem s2) R t)"
    by blast
  have refs: "page_ref s' (target (entry (mem s) r q j)) \<le> page_ref s (target (entry (mem s) r q j)) + 1"
    if "r \<in> R" "leafkey q j" "valid (entry (mem s) r q j)"
      "\<And>b. kpage s b \<Longrightarrow> b \<notin> set xs \<Longrightarrow> page_ref s' b \<le> page_ref s b + 1" for r q j and s' :: "'a kern_scheme"
    using D(6) [OF that(1-3)] that(4) by blast
  from alt show ?thesis
  proof (elim disjE conjE)
    assume m: "mappages new va (VA2PA t) 4096 perm s2 = Ok (0, s3)"
      and e3: "vm_eff s2 s3 R xs xs3 (entry_upd (entry (mem s2)) new va (copy_entry v0))"
    note G = vm_effD [OF e3]
    have en3: "entry (mem s3) r' q j = (if (r', q, j) = (new, vpath va, vpn va 0) then copy_entry v0
        else if (r', q, j) = ?k then cow v0 else entry (mem s) r' q j)" if "r' \<in> R" "leafkey q j" for r' q j
      using G(4) [OF that] en2 [OF that] by (auto simp: entry_upd_def)
    have "copied s s3 R old new va True"
      unfolding copied_def
    proof (intro conjI ballI allI impI)
      show "kframe s3 = kframe s" using G(1) m2 by simp
      show "leaf s3 old va = (if True then cow (leaf s old va) else restored (leaf s old va))"
        "leaf s3 new va = (if True then copy_entry (leaf s old va) else leaf s new va)"
        using en3 [OF o(1) L] en3 [OF o(2) L] o(3) by (simp_all add: v0_def)
    next
      fix r p c assume "r \<in> R" "upath p" "table (mem s) r p = Some c"
      then show "table (mem s3) r p = Some c" using G(5) [of r p c] S1(2) [of r p] m2 by simp
    next
      fix r q j assume "r \<in> R" "leafkey q j" "(q, j) \<noteq> vakey va \<or> r \<notin> {old, new}"
      then show "entry (mem s3) r q j = entry (mem s) r q j" using en3 [of r q j] by (auto simp: vakey_def)
    next
      fix r q j assume "r \<in> R" "leafkey q j" "valid (entry (mem s) r q j)"
      then show "page_ref s3 (target (entry (mem s) r q j)) \<le> page_ref s (target (entry (mem s) r q j)) + 1"
        using G(7) m2(2) ref2 by (intro refs) simp_all
    next
      fix r b assume b: "r \<in> R" "uva b"
      show "uread s3 r b = (if True \<and> r = new \<and> vakey b = vakey va then uread s old b else uread s r b)"
      proof (cases "r = new \<and> vakey b = vakey va")
        case True
        note C = copy_entry_props [OF T(1) [unfolded t_def] D(8) v', folded t_def]
        have l: "leaf s3 r b = copy_entry v0" "leaf s old b = v0"
          using True en3 [OF o(2) L] by (auto simp: vakey_def v0_def)
        have "mem s3 (t + take_bit 12 b) = mem s2 (t + take_bit 12 b)"
          by (rule G(8) [OF x2(1-3) in_page_offset [OF kpage_aligned(1) [OF T(1)]]])
        moreover have "Some (mem s2 (t + take_bit 12 b)) = uread s2 old b"
          using en2 [OF o(1) L] True v' by (simp add: uread_def vakey_def t_def)
        ultimately show ?thesis
          using True l C v' u2 [OF o(1) b(2)] by (simp add: uread_def)
      next
        case False
        then have "entry_upd (entry (mem s2)) new va (copy_entry v0) r (vpath b) (vpn b 0) = leaf s2 r b"
          by (auto simp: entry_upd_def vakey_def)
        from uread_eff [OF inv2 e3 b this] u2 [OF b] False show ?thesis by auto
      qed
    qed
    moreover have "uvmcopy_page new va (slot a (vpn va 0)) s = Ok (None, s3)" using unf m by simp
    ultimately show ?thesis using i3 by (intro exI [of _ s3] exI [of _ xs3] exI [of _ True]) simp
  next
    assume m: "mappages new va (VA2PA t) 4096 perm s2 = Ok (- 1, s3)" and g3: "vm_grow s2 s3 R xs xs3"
    note G = vm_effD [OF g3]
    have M3: "maps (mem s3) R = maps (mem s) R" using vm_maps_eff [OF g3] S1(5) m2 by simp
    have a3: "table (mem s3) old (vpath va) = Some a"
      using G(5) [OF o(1) leafkeyD(1) [OF L]] S1(2) [OF o(1) leafkeyD(1) [OF L]] a m2 by simp
    have l3: "leaf s3 old va = cow v0" using G(4) [OF o(1) L] en2 [OF o(1) L] by simp
    have ld3: "load64 (mem s3) (slot a (vpn va 0)) = cow v0" using l3 a3 by (simp add: entry_def)
    define s4 where "s4 = store_pte (slot a (vpn va 0)) (restored v0) s3"
    have c4: "valid (leaf s3 old va)" "valid (restored v0)" "target (restored v0) = target (leaf s3 old va)"
      using v' l3 by simp_all
    have wr4: "writable (restored v0) \<longrightarrow> maps (mem s3) R (target (restored v0)) = {?k}"
      using D(6) [OF o(1) L v] M3 by (simp add: v0_def)
    note S4 = vm_reflag [OF i3 o(1) L a3 c4 wr4, folded s4_def]
    have k4: "kpage s4 = kpage s" "page_ref s4 = page_ref s3" "kframe s4 = kframe s"
      using G(1,2) m2 by (simp_all add: s4_def)
    have r4: "page_ref s4 t = page_ref s t + 1" using k4(2) G(7) [OF x2(1,2)] ref2 [OF T(1)] by simp
    define s5 where "s5 = ref_set t (page_ref s t) s4"
    have dec: "refcnt_dec t s4 = Ok (0, s5)"
      using refcnt_dec_eq [of s4 t] vm_invD(8,10) [OF S4(1)] T(1) pos lim r4 k4
      by (simp add: s5_def t_def v0_def)
    have m5: "mem s5 = mem s4" "kframe s5 = kframe s"
      using k4 by (simp_all add: s5_def) (simp add: ref_set_def)
    have inv5: "vm_inv s5 R xs3"
      unfolding s5_def using S4(4,5) M3 x2(3) G(6) T cnt lim
      by (intro vm_ref [OF S4(1)]) (auto simp: k4 t_def v0_def)
    have en5: "entry (mem s5) r' q j = (if (r', q, j) = ?k then restored v0 else entry (mem s) r' q j)"
      if "r' \<in> R" "leafkey q j" for r' q j
      using S4(3) [OF that] G(4) [OF that] en2 [OF that] m5 by auto
    have "copied s s5 R old new va False"
      unfolding copied_def
    proof (intro conjI ballI allI impI)
      show "kframe s5 = kframe s" by (rule m5(2))
      show "leaf s5 old va = (if False then cow (leaf s old va) else restored (leaf s old va))"
        "leaf s5 new va = (if False then copy_entry (leaf s old va) else leaf s new va)"
        using en5 [OF o(1) L] en5 [OF o(2) L] o(3) by (simp_all add: v0_def)
    next
      fix r p c assume "r \<in> R" "upath p" "table (mem s) r p = Some c"
      then show "table (mem s5) r p = Some c"
        using G(5) [of r p c] S1(2) [of r p] S4(2) [of r p] m2 m5 by simp
    next
      fix r q j assume "r \<in> R" "leafkey q j" "(q, j) \<noteq> vakey va \<or> r \<notin> {old, new}"
      then show "entry (mem s5) r q j = entry (mem s) r q j" using en5 [of r q j] by (auto simp: vakey_def)
    next
      fix r q j assume "r \<in> R" "leafkey q j" "valid (entry (mem s) r q j)"
      moreover have "page_ref s5 b \<le> page_ref s b + 1" if "kpage s b" "b \<notin> set xs" for b
        using page_ref_set [OF vm_invD(8) [OF S4(1)], of t b] that T(1) k4 G(7) [of b] m2(2) ref2 [of b]
        by (simp add: s5_def)
      ultimately show "page_ref s5 (target (entry (mem s) r q j)) \<le> page_ref s (target (entry (mem s) r q j)) + 1"
        by (intro refs)
    next
      fix r b assume b: "r \<in> R" "uva b"
      have "uread s5 r b = uread s4 r b" by (simp only: uread_def m5(1))
      then show "uread s5 r b = (if False \<and> r = new \<and> vakey b = vakey va then uread s old b else uread s r b)"
        using S4(6) [OF b] uread_eff [OF inv2 g3 b refl] u2 [OF b] by simp
    qed
    moreover have "uvmcopy_page new va (slot a (vpn va 0)) s = Ok (Some (- 1), s5)"
      using dec unfolding unf m bnd.simps split_conv ld3 restored_def [symmetric] s4_def [symmetric] by simp
    ultimately show ?thesis using inv5 by (intro exI [of _ s5] exI [of _ xs3] exI [of _ False]) simp
  qed
qed

section \<open>The whole address space\<close>

definition copy_inv ::
  "'a kern_scheme \<Rightarrow> 'a kern_scheme \<Rightarrow> u64 set \<Rightarrow> u64 \<Rightarrow> u64 \<Rightarrow> int \<Rightarrow> (nat list \<times> nat) set \<Rightarrow> bool" where
  "copy_inv s0 s R old new B P \<longleftrightarrow>
     (\<exists>xs. vm_inv s R xs) \<and> kframe s = kframe s0 \<and> P \<subseteq> {(q, j). leafkey q j} \<and>
     (\<forall>q j. leafkey q j \<longrightarrow>
        entry (mem s) old q j = (if (q, j) \<in> P \<and> valid (entry (mem s0) old q j) then cow (entry (mem s0) old q j)
          else entry (mem s0) old q j) \<and>
        (if (q, j) \<in> P \<and> valid (entry (mem s0) old q j)
         then entry (mem s) new q j = copy_entry (entry (mem s0) old q j) else \<not> valid (entry (mem s) new q j)) \<and>
        (valid (entry (mem s0) old q j) \<longrightarrow> page_ref s (target (entry (mem s0) old q j)) \<le> B + int (card P))) \<and>
     (\<forall>r \<in> R. \<forall>q j. leafkey q j \<longrightarrow> r \<notin> {old, new} \<longrightarrow> entry (mem s) r q j = entry (mem s0) r q j) \<and>
     (\<forall>r \<in> R. \<forall>b. uva b \<longrightarrow> uread s r b =
        (if r \<noteq> new then uread s0 r b else if vakey b \<in> P then uread s0 old b else None))"

definition copy_failed :: "'a kern_scheme \<Rightarrow> 'a kern_scheme \<Rightarrow> u64 set \<Rightarrow> u64 \<Rightarrow> bool" where
  "copy_failed s0 s R new \<longleftrightarrow>
     (\<exists>xs. vm_inv s R xs) \<and> kframe s = kframe s0 \<and> (\<forall>r \<in> R. r \<noteq> new \<longrightarrow> (\<forall>b. uva b \<longrightarrow> uread s r b = uread s0 r b))"

definition table_mono :: "'a kern_scheme \<Rightarrow> 'a kern_scheme \<Rightarrow> u64 \<Rightarrow> bool" where
  "table_mono s s' r \<longleftrightarrow> (\<forall>p c. upath p \<longrightarrow> table (mem s) r p = Some c \<longrightarrow> table (mem s') r p = Some c)"

lemma table_monoD: "table_mono s s' r \<Longrightarrow> upath p \<Longrightarrow> table (mem s) r p = Some c \<Longrightarrow> table (mem s') r p = Some c"
  by (simp add: table_mono_def)

lemma table_mono_trans: "table_mono s s1 r \<Longrightarrow> table_mono s1 s2 r \<Longrightarrow> table_mono s s2 r"
  by (simp add: table_mono_def)

lemma table_mono_refl: "table_mono s s r"
  by (simp add: table_mono_def)

text \<open>There are \<open>2\<^sup>2\<^sup>6\<close> user pages.\<close>

lemma leafkeys_card: "P \<subseteq> {(q, j). leafkey q j} \<Longrightarrow> finite P \<and> card P \<le> 67108864"
proof -
  assume P: "P \<subseteq> {(q, j). leafkey q j}"
  let ?f = "\<lambda>(a, b, c). ([a, b], c)"
  have "P \<subseteq> ?f ` ({..<256} \<times> {..<512} \<times> {..<512})"
  proof
    fix x assume "x \<in> P"
    then obtain q j where x: "x = (q, j)" "leafkey q j" using P by auto
    then obtain a b where q: "q = [a, b]" by (auto simp: leafkey_def numeral_2_eq_2 length_Suc_conv)
    then have "a < 256" "b < 512" "j < 512" using x(2) by (auto simp: leafkey_def upath_def)
    then show "x \<in> ?f ` ({..<256} \<times> {..<512} \<times> {..<512})" using x q by force
  qed
  moreover have "finite (?f ` ({..<256::nat} \<times> {..<512::nat} \<times> {..<512::nat}))" by simp
  moreover have "card (?f ` ({..<256::nat} \<times> {..<512::nat} \<times> {..<512::nat})) \<le> 67108864"
    using card_image_le [of "{..<256::nat} \<times> {..<512::nat} \<times> {..<512::nat}" ?f] by (simp add: card_cartesian_product)
  ultimately show ?thesis by (meson finite_subset card_mono le_trans)
qed

text \<open>Entries below an absent table are invalid: passing over them changes nothing.\<close>

lemma copy_skip:
  assumes ci: "copy_inv s0 s R old new B P" and K: "K \<subseteq> {(q, j). leafkey q j}"
    and inval: "\<And>q j. (q, j) \<in> K \<Longrightarrow> \<not> valid (entry (mem s0) old q j)"
  shows "copy_inv s0 s R old new B (P \<union> K)"
proof -
  have P': "P \<union> K \<subseteq> {(q, j). leafkey q j}" using ci K by (auto simp: copy_inv_def)
  have "card P \<le> card (P \<union> K)" using leafkeys_card [OF P'] by (intro card_mono) auto
  then have c: "x \<le> B + int (card P) \<Longrightarrow> x \<le> B + int (card (P \<union> K))" for x by simp
  have "uread s0 old b = None" if "vakey b \<in> K" for b
    using inval [of "vpath b" "vpn b 0"] that by (simp add: vakey_def uread_def)
  then show ?thesis
    using ci P' inval c unfolding copy_inv_def by auto
qed

lemma copy_step:
  assumes ci: "copy_inv s0 s R old new B P" and o: "old \<in> R" "new \<in> R" "old \<noteq> new" and B: "B + 67108864 \<le> 2147483647"
    and va: "usr va" "aligned 12 va" "vakey va \<notin> P" and a: "table (mem s) old (vpath va) = Some a"
  shows "(\<exists>s'. uvmcopy_page new va (slot a (vpn va 0)) s = Ok (None, s') \<and>
      copy_inv s0 s' R old new B (insert (vakey va) P) \<and> table_mono s s' old) \<or>
    (\<exists>s'. uvmcopy_page new va (slot a (vpn va 0)) s = Ok (Some (- 1), s') \<and> copy_failed s0 s' R new)"
proof -
  note U = usr_uva [OF va(1)]
  note L = vpath_leafkey [OF U]
  obtain xs where inv: "vm_inv s R xs" using ci by (auto simp: copy_inv_def)
  have P: "finite P" "card P \<le> 67108864" "P \<subseteq> {(q, j). leafkey q j}"
    using ci leafkeys_card [of P] by (auto simp: copy_inv_def)
  have P': "insert (vakey va) P \<subseteq> {(q, j). leafkey q j}" using P(3) L by (auto simp: vakey_def)
  have c': "card (insert (vakey va) P) = Suc (card P)" using P(1) va(3) by simp
  have fresh: "leaf s old va = leaf s0 old va" "\<not> valid (leaf s new va)"
    "valid (leaf s0 old va) \<Longrightarrow> page_ref s (target (leaf s0 old va)) \<le> B + int (card P)"
    using ci L va(3) by (auto simp: copy_inv_def vakey_def)
  show ?thesis
  proof (cases "valid (leaf s old va)")
    case False
    then have "load64 (mem s) (slot a (vpn va 0)) AND PTE_V = 0" using a by (simp add: entry_def valid_def)
    then have "uvmcopy_page new va (slot a (vpn va 0)) s = Ok (None, s)" by (simp add: uvmcopy_page_def Let_def)
    moreover have "copy_inv s0 s R old new B (insert (vakey va) P)"
      using copy_skip [OF ci, of "{vakey va}"] L False fresh(1) by (auto simp: vakey_def)
    ultimately show ?thesis using table_mono_refl by blast
  next
    case True
    have "card P < 67108864"
      using leafkeys_card [OF P'] c' by simp
    then have "page_ref s (target (leaf s old va)) < 2147483647" using fresh True B by simp
    from uvmcopy_page_effect [OF inv o va(1,2) a True this fresh(2)] obtain s' xs' ok where
      s': "vm_inv s' R xs'" "copied s s' R old new va ok"
        "uvmcopy_page new va (slot a (vpn va 0)) s = Ok (if ok then None else Some (- 1), s')" by blast
    have rd: "uread s' r b = (if ok \<and> r = new \<and> vakey b = vakey va then uread s old b else uread s r b)"
      if "r \<in> R" "uva b" for r b using s'(2) that by (simp add: copied_def)
    have rd0: "uread s r b = (if r \<noteq> new then uread s0 r b else if vakey b \<in> P then uread s0 old b else None)"
      if "r \<in> R" "uva b" for r b using ci that by (simp add: copy_inv_def)
    have fr: "kframe s' = kframe s0" using s'(2) ci by (simp add: copied_def copy_inv_def)
    show ?thesis
    proof (cases ok)
      case False
      then have "copy_failed s0 s' R new" using s'(1) fr rd rd0 by (auto simp: copy_failed_def)
      then show ?thesis using s'(3) False by auto
    next
      case ok: True
      have en: "entry (mem s') r q j = entry (mem s) r q j"
        if "r \<in> R" "leafkey q j" "(q, j) \<noteq> vakey va \<or> r \<notin> {old, new}" for r q j
        using s'(2) that unfolding copied_def by blast
      have keyv: "leaf s' old va = cow (leaf s old va)" "leaf s' new va = copy_entry (leaf s old va)"
        using s'(2) ok by (simp_all add: copied_def)
      have "copy_inv s0 s' R old new B (insert (vakey va) P)"
        unfolding copy_inv_def
      proof (intro conjI allI ballI impI)
        show "\<exists>xs. vm_inv s' R xs" using s'(1) by blast
        show "kframe s' = kframe s0" by (rule fr)
        show "insert (vakey va) P \<subseteq> {(q, j). leafkey q j}" by (rule P')
      next
        fix q j assume l: "leafkey q j"
        show "entry (mem s') old q j = (if (q, j) \<in> insert (vakey va) P \<and> valid (entry (mem s0) old q j)
            then cow (entry (mem s0) old q j) else entry (mem s0) old q j)"
          using en [OF o(1) l] keyv(1) ci l True fresh(1) by (cases "(q, j) = vakey va") (auto simp: copy_inv_def vakey_def)
        show "if (q, j) \<in> insert (vakey va) P \<and> valid (entry (mem s0) old q j)
          then entry (mem s') new q j = copy_entry (entry (mem s0) old q j) else \<not> valid (entry (mem s') new q j)"
          using en [OF o(2) l] keyv(2) ci l True fresh(1) by (cases "(q, j) = vakey va") (auto simp: copy_inv_def vakey_def)
        assume v: "valid (entry (mem s0) old q j)"
        have e: "valid (entry (mem s) old q j)" "target (entry (mem s) old q j) = target (entry (mem s0) old q j)"
          using ci l v by (auto simp: copy_inv_def)
        have "page_ref s' (target (entry (mem s) old q j)) \<le> page_ref s (target (entry (mem s) old q j)) + 1"
          using s'(2) o(1) l e(1) unfolding copied_def by blast
        moreover have "page_ref s (target (entry (mem s0) old q j)) \<le> B + int (card P)"
          using ci l v by (simp add: copy_inv_def)
        ultimately show "page_ref s' (target (entry (mem s0) old q j)) \<le> B + int (card (insert (vakey va) P))"
          using e(2) c' by simp
      next
        fix r q j assume "r \<in> R" "leafkey q j" "r \<notin> {old, new}"
        then show "entry (mem s') r q j = entry (mem s0) r q j" using en [of r q j] ci by (auto simp: copy_inv_def)
      next
        fix r b assume b: "r \<in> R" "uva b"
        show "uread s' r b = (if r \<noteq> new then uread s0 r b
            else if vakey b \<in> insert (vakey va) P then uread s0 old b else None)"
          using rd [OF b] rd0 [OF b] rd0 [OF o(1) b(2)] ok o(3) by auto
      qed
      moreover have "table_mono s s' old" using s'(2) o(1) by (auto simp: copied_def table_mono_def)
      ultimately show ?thesis using s'(3) ok by auto
    qed
  qed
qed


definition keys1 :: "nat \<Rightarrow> nat \<Rightarrow> nat \<Rightarrow> (nat list \<times> nat) set" where
  "keys1 i2 i1 n = {(q, j). q = [i2, i1] \<and> j < n}"

definition keys2 :: "nat \<Rightarrow> nat \<Rightarrow> (nat list \<times> nat) set" where
  "keys2 i2 n = {(q, j). \<exists>i1 < n. q = [i2, i1] \<and> j < 512}"

definition keys3 :: "nat \<Rightarrow> (nat list \<times> nat) set" where
  "keys3 n = {(q, j). \<exists>i2 < n. \<exists>i1 < 512. q = [i2, i1] \<and> j < 512}"

lemma keys_Suc:
  "keys1 i2 i1 (Suc n) = insert ([i2, i1], n) (keys1 i2 i1 n)"
  "keys2 i2 (Suc n) = keys2 i2 n \<union> keys1 i2 n 512" "keys3 (Suc n) = keys3 n \<union> keys2 n 512"
  by (auto simp: keys1_def keys2_def keys3_def less_Suc_eq)

lemma keys_0 [simp]: "keys1 i2 i1 0 = {}" "keys2 i2 0 = {}" "keys3 0 = {}"
  by (auto simp: keys1_def keys2_def keys3_def)

lemma keys1_leaf: "i2 < 256 \<Longrightarrow> i1 < 512 \<Longrightarrow> keys1 i2 i1 512 \<subseteq> {(q, j). leafkey q j}"
  "i2 < 256 \<Longrightarrow> keys2 i2 512 \<subseteq> {(q, j). leafkey q j}"
  by (auto simp: keys1_def keys2_def leafkey_def upath_def)

lemma keys3_all: "leafkey q j \<Longrightarrow> (q, j) \<in> keys3 256"
  by (auto simp: keys3_def leafkey_def upath_def numeral_2_eq_2 length_Suc_conv)

text \<open>What the loop over one level establishes: the copy of the entries \<open>K\<close>, or failure.\<close>

definition loop_post ::
  "'a kern_scheme \<Rightarrow> u64 set \<Rightarrow> u64 \<Rightarrow> u64 \<Rightarrow> int \<Rightarrow> (nat list \<times> nat) set \<Rightarrow> 'a kern_scheme \<Rightarrow>
    (int option \<times> 'a kern_scheme) outcome \<Rightarrow> bool" where
  "loop_post s0 R old new B K s res \<longleftrightarrow>
     (\<exists>s'. res = Ok (None, s') \<and> copy_inv s0 s' R old new B K \<and> table_mono s s' old) \<or>
     (\<exists>s'. res = Ok (Some (- 1), s') \<and> copy_failed s0 s' R new)"

lemma for_each_copy:
  assumes "copy_inv s0 s R old new B (P \<union> K 0)" "table_mono t s old"
    and step: "\<And>k s'. k < n \<Longrightarrow> copy_inv s0 s' R old new B (P \<union> K k) \<Longrightarrow> table_mono t s' old \<Longrightarrow>
      loop_post s0 R old new B (P \<union> K (Suc k)) s' (body k s')"
  shows "loop_post s0 R old new B (P \<union> K n) t (for_each body [0..<n] s)"
proof -
  have "(\<exists>s'. for_each body [0..<n] s = Ok (None, s') \<and> copy_inv s0 s' R old new B (P \<union> K n) \<and> table_mono t s' old) \<or>
    (\<exists>e s'. for_each body [0..<n] s = Ok (Some e, s') \<and> e = - 1 \<and> copy_failed s0 s' R new)"
  proof (rule for_each_upt [where I = "\<lambda>k s. copy_inv s0 s R old new B (P \<union> K k) \<and> table_mono t s old"
        and Q = "\<lambda>e s. e = - 1 \<and> copy_failed s0 s R new"])
    fix k s assume k: "k < n" and "copy_inv s0 s R old new B (P \<union> K k) \<and> table_mono t s old"
    with step [of k s] show "(\<exists>s'. body k s = Ok (None, s') \<and> copy_inv s0 s' R old new B (P \<union> K (Suc k)) \<and> table_mono t s' old) \<or>
      (\<exists>e s'. body k s = Ok (Some e, s') \<and> e = - 1 \<and> copy_failed s0 s' R new)"
      unfolding loop_post_def using table_mono_trans by blast
  qed (use assms(1,2) in auto)
  then show ?thesis unfolding loop_post_def by blast
qed

lemma copy_level0:
  assumes ci: "copy_inv s0 s R old new B P" and o: "old \<in> R" "new \<in> R" "old \<noteq> new" and B: "B + 67108864 \<le> 2147483647"
    and i: "i2 < 256" "i1 < 512" and P: "P \<inter> keys1 i2 i1 512 = {}" and t: "table (mem s) old [i2, i1] = Some pt0"
  shows "loop_post s0 R old new B (P \<union> keys1 i2 i1 512) s
    (for_each (\<lambda>i0 s. uvmcopy_page new (mkva i2 i1 i0) (slot pt0 i0) s) [0..<512] s)"
proof (rule for_each_copy [where K = "keys1 i2 i1"])
  fix k s' assume k: "k < 512" and c: "copy_inv s0 s' R old new B (P \<union> keys1 i2 i1 k)" and m: "table_mono s s' old"
  note V = mkva_props [OF i k]
  have vk: "vakey (mkva i2 i1 k) = ([i2, i1], k)" by (simp add: vakey_def V)
  have up: "upath [i2, i1]" using i by (simp add: upath_def)
  have "([i2, i1], k) \<notin> P \<union> keys1 i2 i1 k" using P k by (auto simp: keys1_def)
  moreover have "table (mem s') old (vpath (mkva i2 i1 k)) = Some pt0"
    using table_monoD [OF m up t] by (simp add: V)
  ultimately show "loop_post s0 R old new B (P \<union> keys1 i2 i1 (Suc k)) s' (uvmcopy_page new (mkva i2 i1 k) (slot pt0 k) s')"
    using copy_step [OF c o B V(1,2)] by (simp add: vk V loop_post_def keys_Suc)
qed (use ci table_mono_refl in auto)

lemma absent_invalid:
  assumes ci: "copy_inv s0 s R old new B P" and "leafkey q j" "(q, j) \<notin> P" "table (mem s) old q = None"
  shows "\<not> valid (entry (mem s0) old q j)"
proof -
  have "entry (mem s0) old q j = entry (mem s) old q j" using assms(1-3) by (simp add: copy_inv_def)
  also have "\<dots> = 0" using assms(4) by (simp add: entry_def)
  finally show ?thesis by (simp add: valid_def)
qed

lemma copy_level1:
  assumes ci: "copy_inv s0 s R old new B P" and o: "old \<in> R" "new \<in> R" "old \<noteq> new" and B: "B + 67108864 \<le> 2147483647"
    and i: "i2 < 256" and P: "P \<inter> keys2 i2 512 = {}" and t: "table (mem s) old [i2] = Some pt1"
  shows "loop_post s0 R old new B (P \<union> keys2 i2 512) s
    (for_each (\<lambda>i1 s. let v1 = load64 (mem s) (slot pt1 i1) in
       if v1 AND PTE_V = 0 then Ok (None, s)
       else let pt0 = PA2VA (PTE2PA v1) in
         for_each (\<lambda>i0 s. uvmcopy_page new (mkva i2 i1 i0) (slot pt0 i0) s) [0..<512] s) [0..<512] s)"
proof (rule for_each_copy [where K = "keys2 i2"])
  fix k s' assume k: "k < 512" and c: "copy_inv s0 s' R old new B (P \<union> keys2 i2 k)" and m: "table_mono s s' old"
  have disj: "(P \<union> keys2 i2 k) \<inter> keys1 i2 k 512 = {}"
    using P k by (auto simp: keys1_def keys2_def)
  have up: "upath [i2]" using i by (simp add: upath_def)
  have t1: "table (mem s') old [i2] = Some pt1" by (rule table_monoD [OF m up t])
  define v1 where "v1 = load64 (mem s') (slot pt1 k)"
  have t0: "table (mem s') old [i2, k] = (if valid v1 then Some (target v1) else None)"
    using table_snoc [of "mem s'" old "[i2]" k] t1 by (simp add: v1_def)
  have K: "P \<union> keys2 i2 (Suc k) = P \<union> keys2 i2 k \<union> keys1 i2 k 512" by (auto simp: keys_Suc)
  show "loop_post s0 R old new B (P \<union> keys2 i2 (Suc k)) s' (let v1 = load64 (mem s') (slot pt1 k) in
       if v1 AND PTE_V = 0 then Ok (None, s')
       else let pt0 = PA2VA (PTE2PA v1) in
         for_each (\<lambda>i0 s. uvmcopy_page new (mkva i2 k i0) (slot pt0 i0) s) [0..<512] s')"
  proof (cases "valid v1")
    case False
    have "copy_inv s0 s' R old new B (P \<union> keys2 i2 k \<union> keys1 i2 k 512)"
      using keys1_leaf(1) [OF i k] absent_invalid [OF c] disj t0 False
      by (intro copy_skip [OF c]) (fastforce simp: keys1_def)+
    then show ?thesis
      using False table_mono_refl [of s' old] by (simp add: K loop_post_def Let_def valid_def v1_def)
  next
    case True
    then show ?thesis
      using copy_level0 [OF c o B i k disj, of "target v1"] t0
      by (simp add: K Let_def valid_def flip: v1_def target_def)
  qed
qed (use ci table_mono_refl in auto)

lemma loop_post_result:
  assumes "loop_post s0 R old new B K s res"
  shows "(\<exists>s'. bnd res (\<lambda>(r, s). Ok (case r of Some e \<Rightarrow> e | None \<Rightarrow> 0, s)) = Ok (0, s') \<and> copy_inv s0 s' R old new B K) \<or>
    (\<exists>s'. bnd res (\<lambda>(r, s). Ok (case r of Some e \<Rightarrow> e | None \<Rightarrow> 0, s)) = Ok (- 1, s') \<and> copy_failed s0 s' R new)"
  using assms by (auto simp: loop_post_def)

lemma uvmcopy_loops:
  assumes ci: "copy_inv s0 s R old new B {}" and o: "old \<in> R" "new \<in> R" "old \<noteq> new" and B: "B + 67108864 \<le> 2147483647"
  shows "(\<exists>s'. uvmcopy old new s = Ok (0, s') \<and> copy_inv s0 s' R old new B (keys3 256)) \<or>
    (\<exists>s'. uvmcopy old new s = Ok (- 1, s') \<and> copy_failed s0 s' R new)"
proof -
  let ?body = "\<lambda>i2 s. let v2 = load64 (mem s) (slot old i2) in
       if v2 AND PTE_V = 0 then Ok (None, s)
       else let pt1 = PA2VA (PTE2PA v2) in
         for_each (\<lambda>i1 s. let v1 = load64 (mem s) (slot pt1 i1) in
           if v1 AND PTE_V = 0 then Ok (None, s)
           else let pt0 = PA2VA (PTE2PA v1) in
             for_each (\<lambda>i0 s. uvmcopy_page new (mkva i2 i1 i0) (slot pt0 i0) s) [0..<512] s) [0..<512] s"
  have "loop_post s0 R old new B ({} \<union> keys3 256) s (for_each ?body [0..<256] s)"
  proof (rule for_each_copy [where K = keys3])
    fix k s' assume k: "k < 256" and c: "copy_inv s0 s' R old new B ({} \<union> keys3 k)" and m: "table_mono s s' old"
    have disj: "keys3 k \<inter> keys2 k 512 = {}" by (auto simp: keys2_def keys3_def)
    define v2 where "v2 = load64 (mem s') (slot old k)"
    have t1: "table (mem s') old [k] = (if valid v2 then Some (target v2) else None)" by (simp add: v2_def Let_def)
    have K: "keys3 (Suc k) = keys3 k \<union> keys2 k 512" by (simp add: keys_Suc)
    have c': "copy_inv s0 s' R old new B (keys3 k)" using c by simp
    show "loop_post s0 R old new B ({} \<union> keys3 (Suc k)) s' (?body k s')"
    proof (cases "valid v2")
      case False
      have none: "table (mem s') old [k, j] = None" for j
        using table_snoc [of "mem s'" old "[k]" j] t1 False by simp
      have "copy_inv s0 s' R old new B (keys3 k \<union> keys2 k 512)"
      proof (rule copy_skip [OF c' keys1_leaf(2) [OF k]])
        fix q j assume a: "(q, j) \<in> keys2 k 512"
        then obtain i where "q = [k, i]" by (auto simp: keys2_def)
        moreover have "leafkey q j" "(q, j) \<notin> keys3 k" using a keys1_leaf(2) [OF k] disj by auto
        ultimately show "\<not> valid (entry (mem s0) old q j)" using absent_invalid [OF c'] none by simp
      qed
      then show ?thesis
        using False table_mono_refl [of s' old] by (simp add: K loop_post_def Let_def valid_def v2_def)
    next
      case True
      then show ?thesis
        using copy_level1 [OF c' o B k disj, of "target v2"] t1
        by (simp add: K Let_def valid_def flip: v2_def target_def)
    qed
  qed (use ci table_mono_refl in auto)
  from loop_post_result [OF this] show ?thesis
    unfolding uvmcopy_def slot_def mkva_def by (simp only: Un_empty_left)
qed

end
