(* ===== verification/Example.thy ===== *)
theory Example
  imports Addrspace
begin

text \<open>
  A concrete machine at which the properties of the memory system are evaluated: two address spaces
  that share one copy-on-write page at address 0, the first with a read-only page at address 4096, an
  empty third one, and one free page.
\<close>

unbundle bit_operations_syntax

abbreviation ex_r1 :: u64 where "ex_r1 \<equiv> 0xFFFFFFC087FF0000"
abbreviation ex_t1 :: u64 where "ex_t1 \<equiv> 0xFFFFFFC087FF1000"
abbreviation ex_t0 :: u64 where "ex_t0 \<equiv> 0xFFFFFFC087FF2000"
abbreviation ex_r2 :: u64 where "ex_r2 \<equiv> 0xFFFFFFC087FF3000"
abbreviation ex_u1 :: u64 where "ex_u1 \<equiv> 0xFFFFFFC087FF4000"
abbreviation ex_u0 :: u64 where "ex_u0 \<equiv> 0xFFFFFFC087FF5000"
abbreviation ex_p :: u64 where "ex_p \<equiv> 0xFFFFFFC087FF6000"
abbreviation ex_r3 :: u64 where "ex_r3 \<equiv> 0xFFFFFFC087FF7000"
abbreviation ex_x :: u64 where "ex_x \<equiv> 0xFFFFFFC087FF8000"
abbreviation ex_q :: u64 where "ex_q \<equiv> 0xFFFFFFC087FF9000"
abbreviation ex_head :: u64 where "ex_head \<equiv> 0xFFFFFFC087FEF000"

text \<open>The entries: valid pointers to the tables, and the shared page with flags V, R, U and COW,
  the other page with V, R and U.\<close>

definition ex_ptr :: "u64 \<Rightarrow> u64" where
  "ex_ptr a = PA2PTE (VA2PA a) OR PTE_V"

definition ex_leaf :: u64 where
  "ex_leaf = PA2PTE (VA2PA ex_p) OR 0x113"

definition ex_ro :: u64 where
  "ex_ro = PA2PTE (VA2PA ex_q) OR 0x13"

definition ex_mem :: memory where
  "ex_mem = store64 (store64 (store64 (store64 (store64 (store64 (store64 (store64 (\<lambda>_. 0)
     (slot ex_r1 0) (ex_ptr ex_t1)) (slot ex_t1 0) (ex_ptr ex_t0)) (slot ex_t0 0) ex_leaf) (slot ex_t0 1) ex_ro)
     (slot ex_r2 0) (ex_ptr ex_u1)) (slot ex_u1 0) (ex_ptr ex_u0)) (slot ex_u0 0) ex_leaf) (slot ex_x 0) ex_head"

definition ex :: kern where
  "ex = \<lparr>mem = ex_mem, held = [], head_addr = ex_head, kernel_end = ex_r1, head_next = ex_x, FMM_size = 1,
     refcnt = (\<lambda>_. 1)(nat (page_index ex_p) := 2), ekalloc_ptr = ex_r1, early_mode = False, kernel_table = ex_head,
     divide_addr = 0x80200000, satp = 0, used_addr = 0x40000000,
     proc = (\<lambda>_. \<lparr>state = RUNNING, chan = None, pid = 1, proc_name = '''', ofile = (\<lambda>_. None), cwd = ''/'', exit_code = 0,
       kstack = 0, parent = None, pagetable = ex_r1, proc_context = 0, trapframe = 0, proc_size = 0, heap_bottom = 0x10000, heap_top = 0x20000,
       stack_bottom = 0x3FFFFFE000, stack_top = 0x3FFFFFF000, vm_area = (\<lambda>_. vma_zero),
       proc_sighand = \<lparr>sig_pending = 0, sig_blocked = 0, actions = (\<lambda>_.
         \<lparr>sa_handler = 0, sa_flags = 0, sa_restorer = 0, sa_mask = 0\<rparr>)\<rparr>\<rparr>),
     cur_proc = 0\<rparr>"

abbreviation ex_R :: "u64 set" where "ex_R \<equiv> {ex_r1, ex_r2, ex_r3}"

lemma ex_aligned [simp]:
  "aligned 12 ex_r1" "aligned 12 ex_t1" "aligned 12 ex_t0" "aligned 12 ex_r2" "aligned 12 ex_u1"
  "aligned 12 ex_u0" "aligned 12 ex_p" "aligned 12 ex_r3" "aligned 12 ex_x" "aligned 12 ex_q"
  by (simp_all add: aligned_def)

lemma load_zero: "load64 (\<lambda>_. 0) a = 0"
  unfolding load64_def by (rule bit_eqI) (simp add: bit_load_le)

lemma load_slot_store:
  assumes "aligned 12 a" "k < 512" "aligned 12 b" "l < 512"
  shows "load64 (store64 m (slot b l) v) (slot a k) = (if k = l \<and> a = b then v else load64 m (slot a k))"
proof -
  have "slot b l = slot a k \<longleftrightarrow> k = l \<and> a = b" using slot_inj [OF assms(3,1,4,2)] by auto
  then show ?thesis
    using slot_aligned [OF assms(1,2)] slot_aligned [OF assms(3,4)] by (simp add: load64_store64)
qed

lemma ex_load:
  assumes "aligned 12 a" "k < 512"
  shows "load64 ex_mem (slot a k) = (if k = 1 \<and> a = ex_t0 then ex_ro else if k \<noteq> 0 then 0 else if a = ex_r1 then ex_ptr ex_t1
    else if a = ex_t1 then ex_ptr ex_t0 else if a = ex_t0 \<or> a = ex_u0 then ex_leaf
    else if a = ex_r2 then ex_ptr ex_u1 else if a = ex_u1 then ex_ptr ex_u0
    else if a = ex_x then ex_head else 0)"
proof -
  have l: "0 < (512 :: nat)" "1 < (512 :: nat)" by simp_all
  show ?thesis unfolding ex_mem_def by (simp only: load_slot_store [OF assms] ex_aligned load_zero l) simp
qed

lemma ex_entries [simp]:
  "valid (ex_ptr a)" "valid ex_leaf" "target (ex_ptr ex_t1) = ex_t1" "target (ex_ptr ex_t0) = ex_t0"
  "target (ex_ptr ex_u1) = ex_u1" "target (ex_ptr ex_u0) = ex_u0" "target ex_leaf = ex_p" "PTE_FLAGS ex_leaf = 0x113"
  "valid ex_ro" "target ex_ro = ex_q" "PTE_FLAGS ex_ro = 0x13"
  by (simp_all add: ex_ptr_def ex_leaf_def ex_ro_def target_def PTE2PA_def PA2PTE_def PA2VA_def VA2PA_def valid_def PTE_FLAGS_def)

lemma ex_table:
  assumes "upath p"
  shows "table ex_mem ex_r1 p = (if p = [] then Some ex_r1 else if p = [0] then Some ex_t1 else if p = [0, 0] then Some ex_t0 else None)"
    "table ex_mem ex_r2 p = (if p = [] then Some ex_r2 else if p = [0] then Some ex_u1 else if p = [0, 0] then Some ex_u0 else None)"
    "table ex_mem ex_r3 p = (if p = [] then Some ex_r3 else None)"
proof -
  consider "p = []" | k where "p = [k]" "k < 512" | k l where "p = [k, l]" "k < 512" "l < 512"
    using assms by (cases p; cases "tl p"; cases "tl (tl p)") (auto simp: upath_def)
  then show "table ex_mem ex_r1 p = (if p = [] then Some ex_r1 else if p = [0] then Some ex_t1 else if p = [0, 0] then Some ex_t0 else None)"
    "table ex_mem ex_r2 p = (if p = [] then Some ex_r2 else if p = [0] then Some ex_u1 else if p = [0, 0] then Some ex_u0 else None)"
    "table ex_mem ex_r3 p = (if p = [] then Some ex_r3 else None)"
    by (cases; simp add: ex_load Let_def)+
qed

lemma ex_entry:
  assumes "leafkey p k"
  shows "entry ex_mem ex_r1 p k = (if p = [0, 0] \<and> k = 0 then ex_leaf else if p = [0, 0] \<and> k = 1 then ex_ro else 0)"
    "entry ex_mem ex_r2 p k = (if p = [0, 0] \<and> k = 0 then ex_leaf else 0)"
    "entry ex_mem ex_r3 p k = 0"
  using assms by (auto simp: entry_def ex_table leafkey_def ex_load)

lemma ex_is_table: "is_table ex_mem ex_R a \<longleftrightarrow> a \<in> {ex_r1, ex_t1, ex_t0, ex_r2, ex_u1, ex_u0, ex_r3}"
proof
  assume "is_table ex_mem ex_R a"
  then show "a \<in> {ex_r1, ex_t1, ex_t0, ex_r2, ex_u1, ex_u0, ex_r3}"
    by (auto simp: is_table_def ex_table split: if_splits)
next
  have u: "upath [0]" "upath [0, 0]" by (simp_all add: upath_def)
  note t = ex_table [OF upath_Nil] ex_table [OF u(1)] ex_table [OF u(2)]
  have "is_table ex_mem ex_R ex_r1" by (rule is_tableI [of ex_r1 _ "[]"]) simp_all
  moreover have "is_table ex_mem ex_R ex_t1" by (rule is_tableI [OF _ u(1), of ex_r1]) (simp_all add: t del: table.simps)
  moreover have "is_table ex_mem ex_R ex_t0" by (rule is_tableI [OF _ u(2), of ex_r1]) (simp_all add: t del: table.simps)
  moreover have "is_table ex_mem ex_R ex_r2" by (rule is_tableI [of ex_r2 _ "[]"]) simp_all
  moreover have "is_table ex_mem ex_R ex_u1" by (rule is_tableI [OF _ u(1), of ex_r2]) (simp_all add: t del: table.simps)
  moreover have "is_table ex_mem ex_R ex_u0" by (rule is_tableI [OF _ u(2), of ex_r2]) (simp_all add: t del: table.simps)
  moreover have "is_table ex_mem ex_R ex_r3" by (rule is_tableI [of ex_r3 _ "[]"]) simp_all
  ultimately show "is_table ex_mem ex_R a" if "a \<in> {ex_r1, ex_t1, ex_t0, ex_r2, ex_u1, ex_u0, ex_r3}" using that by auto
qed

lemma ex_maps: "maps ex_mem ex_R a = (if a = ex_p then {(ex_r1, [0, 0], 0), (ex_r2, [0, 0], 0)}
    else if a = ex_q then {(ex_r1, [0, 0], 1)} else {})"
proof -
  have "leafkey [0, 0] 0" "leafkey [0, 0] 1" by (simp_all add: leafkey_def upath_def)
  then show ?thesis by (auto simp: maps_def ex_entry split: if_splits)
qed

lemma ex_vm_inv: "vm_inv ex ex_R [ex_x]"
proof -
  have nw: "\<not> writable ex_leaf" "\<not> writable ex_ro"
    by (simp_all add: ex_leaf_def ex_ro_def writable_def PA2PTE_def VA2PA_def)
  have t: "tables_ok ex_mem ex_R"
    by (auto simp: tables_ok_def ex_table split: if_splits)
  have k: "kalloc_ready ex [ex_x]"
    using ex_load [of ex_x 0] by (simp add: ex_def kalloc_ready_def kalloc_inv_def kpage_def slot_def)
  have kp: "kpage ex a" if "a \<in> {ex_r1, ex_t1, ex_t0, ex_r2, ex_u1, ex_u0, ex_r3, ex_p, ex_q}" for a
    using that by (auto simp: kpage_def ex_def)
  have pr: "page_ref ex a = 1" if "a \<in> {ex_r1, ex_t1, ex_t0, ex_r2, ex_u1, ex_u0, ex_r3}" for a
    using that by (auto simp: page_ref_def ex_def page_index_def VA2PA_def)
  have m: "mem ex = ex_mem" "early_mode ex = False" "page_ref ex ex_p = 2" "page_ref ex ex_q = 1" "\<And>a. page_ref ex a \<le> 2"
    by (simp_all add: ex_def page_ref_def page_index_def VA2PA_def)
  show ?thesis
    unfolding vm_inv_def m ex_is_table ex_maps using t k kp pr nw m(3,4) m(5) [THEN order_trans]
    by (auto simp: ex_entry split: if_splits)
qed

end
