(* ===== verification/Uspace.thy ===== *)
theory Uspace
  imports Fork Example
begin

text \<open>
  Properties of user address spaces: creation, lazy allocation, unmapping, the copy for \<open>fork\<close>, and
  the isolation that copy-on-write gives.
\<close>

unbundle bit_operations_syntax

section \<open>New address spaces\<close>

text \<open>An allocated page whose user entries are all invalid can be taken as a new address space.\<close>

lemma vm_adopt:
  assumes inv: "vm_inv s R xs" and x: "kpage s x" "x \<notin> set xs" "\<not> is_table (mem s) R x"
    "maps (mem s) R x = {}" "page_ref s x = 1" and z: "\<forall>k < 256. \<not> valid (load64 (mem s) (slot x k))"
  shows "vm_inv s (insert x R) xs" "leafkey p k \<Longrightarrow> entry (mem s) x p k = 0" "x \<notin> R"
proof -
  note D = vm_invD [OF inv]
  show xR: "x \<notin> R" using x(3) is_tableI [of x R "[]" "mem s" x] by auto
  have t: "table (mem s) x q = (if q = [] then Some x else None)" if "upath q" for q
    using that z by (cases q) (auto simp: upath_def)
  show e: "entry (mem s) x p k = 0" if "leafkey p k" for p k
    using that by (auto simp: entry_def t leafkey_def)
  have it: "is_table (mem s) (insert x R) a \<longleftrightarrow> a = x \<or> is_table (mem s) R a" for a
    by (auto simp: is_table_def t split: if_splits intro!: exI [of _ "[]"])
  have mp: "maps (mem s) (insert x R) a = maps (mem s) R a" for a
    by (auto simp: maps_def e)
  have ok: "tables_ok (mem s) (insert x R)"
  proof -
    have "table (mem s) r q \<noteq> Some x" if "r \<in> R" "upath q" for r q
      using x(3) is_tableI [OF that] by blast
    then show ?thesis
      using D(4) kpage_aligned(1) [OF x(1)] unfolding tables_ok_def by (auto simp: t split: if_splits)
  qed
  have "target (entry (mem s) r p k) \<noteq> x" if "r \<in> R" "leafkey p k" "valid (entry (mem s) r p k)" for r p k
    using x(4) that by (auto simp: maps_def)
  then show "vm_inv s (insert x R) xs"
    unfolding vm_inv_def it mp using D(1-3,5-7) ok x(1,2,5) e by auto
qed

text \<open>The loop of \<open>uvmcreate\<close> that copies the kernel half of the root table.\<close>

lemma kernel_half:
  assumes x: "aligned 12 x" and kt: "aligned 12 (kernel_table s)" "kernel_table s \<noteq> x"
  shows "\<exists>m. for_each (\<lambda>i s. Ok (None :: unit option,
      store_pte (x + 8 * of_nat i) (load64 (mem s) (kernel_table s + 8 * of_nat i)) s)) [256..<512] s = Ok (None, s\<lparr>mem := m\<rparr>) \<and>
    (\<forall>b. \<not> in_page x b \<longrightarrow> m b = mem s b) \<and> (\<forall>i < 256. load64 m (slot x i) = load64 (mem s) (slot x i)) \<and>
    (\<forall>i \<in> {256..<512}. load64 m (slot x i) = load64 (mem s) (slot (kernel_table s) i))"
proof -
  let ?I = "\<lambda>k t. 256 \<le> k \<and> (\<exists>m. t = s\<lparr>mem := m\<rparr> \<and> (\<forall>b. \<not> in_page x b \<longrightarrow> m b = mem s b) \<and>
    (\<forall>i < 256. load64 m (slot x i) = load64 (mem s) (slot x i)) \<and>
    (\<forall>i \<in> {256..<k}. load64 m (slot x i) = load64 (mem s) (slot (kernel_table s) i)) \<and>
    (\<forall>i < 512. load64 m (slot (kernel_table s) i) = load64 (mem s) (slot (kernel_table s) i)))"
  have "(\<exists>s'. for_each (\<lambda>i s. Ok (None :: unit option, store_pte (slot x i) (load64 (mem s) (slot (kernel_table s) i)) s))
      [256..<512] s = Ok (None, s') \<and> ?I 512 s') \<or>
    (\<exists>e s'. for_each (\<lambda>i s. Ok (None :: unit option, store_pte (slot x i) (load64 (mem s) (slot (kernel_table s) i)) s))
      [256..<512] s = Ok (Some e, s') \<and> False)"
  proof (rule for_each_upt [where I = ?I and Q = "\<lambda>_ _. False"])
    fix k t assume k: "k < 512" and I: "?I k t"
    then obtain m where t: "t = s\<lparr>mem := m\<rparr>" and m: "\<And>b. \<not> in_page x b \<Longrightarrow> m b = mem s b"
      "\<And>i. i < 256 \<Longrightarrow> load64 m (slot x i) = load64 (mem s) (slot x i)"
      "\<And>i. i \<in> {256..<k} \<Longrightarrow> load64 m (slot x i) = load64 (mem s) (slot (kernel_table s) i)"
      "\<And>i. i < 512 \<Longrightarrow> load64 m (slot (kernel_table s) i) = load64 (mem s) (slot (kernel_table s) i)" by auto
    define v where "v = load64 (mem s) (slot (kernel_table s) k)"
    let ?m = "store64 m (slot x k) v"
    have "?m b = m b" if "\<not> in_page x b" for b
      using store_slot_other [OF x k that] by simp
    moreover have "load64 ?m (slot a i) = (if a = x \<and> i = k then v else load64 m (slot a i))"
      if "aligned 12 a" "i < 512" for a i
      using slot_inj [OF x that(1) k that(2)] slot_aligned [OF x k] slot_aligned [OF that]
      by (auto simp: load64_store64)
    ultimately have "?I (Suc k) (s\<lparr>mem := ?m\<rparr>)"
      using m kt x k I by (intro conjI exI [of _ ?m]) (auto simp: v_def less_Suc_eq)
    then show "(\<exists>s'. Ok (None :: unit option, store_pte (slot x k) (load64 (mem t) (slot (kernel_table t) k)) t) = Ok (None, s') \<and> ?I (Suc k) s') \<or>
      (\<exists>e s'. Ok (None, store_pte (slot x k) (load64 (mem t) (slot (kernel_table t) k)) t) = Ok (Some e, s') \<and> False)"
      using m(4) [OF k] by (simp add: t store_pte_def v_def)
  qed (auto intro!: exI [of _ "mem s"])
  then show ?thesis unfolding slot_def by blast
qed

lemma uvmcreate_effect:
  assumes inv: "vm_inv s R (x # xs)" and kt: "aligned 12 (kernel_table s)" "kernel_table s \<noteq> x"
  shows "\<exists>s'. uvmcreate s = Ok (x, s') \<and> vm_inv s' (insert x R) xs \<and> x \<notin> R \<and> kframe s' = kframe s \<and>
    (\<forall>va. uva va \<longrightarrow> uread s' x va = None) \<and> (\<forall>r \<in> R. \<forall>va. uva va \<longrightarrow> uread s' r va = uread s r va) \<and>
    (\<forall>i \<in> {256..<512}. load64 (mem s') (slot x i) = load64 (mem s) (slot (kernel_table s) i))"
proof -
  define s1 where "s1 = kalloc_take x s"
  note X = vm_take [OF inv, folded s1_def]
  note G = vm_effD [OF X(3)]
  have Ax: "aligned 12 x" using kpage_aligned(1) [OF X(4)] .
  have k1: "kernel_table s1 = kernel_table s" by (rule kframe_kernD(2) [OF G(1)])
  from kernel_half [OF Ax, of s1] kt obtain m where
    loop: "for_each (\<lambda>i s. Ok (None :: unit option,
        store_pte (x + 8 * of_nat i) (load64 (mem s) (kernel_table s + 8 * of_nat i)) s)) [256..<512] s1 = Ok (None, s1\<lparr>mem := m\<rparr>)"
    and m: "\<forall>b. \<not> in_page x b \<longrightarrow> m b = mem s1 b" "\<And>i. i < 256 \<Longrightarrow> load64 m (slot x i) = load64 (mem s1) (slot x i)"
      "\<And>i. i \<in> {256..<512} \<Longrightarrow> load64 m (slot x i) = load64 (mem s1) (slot (kernel_table s) i)"
    unfolding k1 by blast
  define s' where "s' = s1\<lparr>mem := m\<rparr>"
  have kx: "kpage s1 x" using X(4) G(2) by simp
  note W = vm_write [OF X(2) kx X(8,5) m(1), folded s'_def]
  have z: "\<forall>k < 256. \<not> valid (load64 (mem s') (slot x k))"
    using m(2) load64_take_self [OF X(4)] by (simp add: s'_def s1_def)
  have x': "kpage s' x" "\<not> is_table (mem s') R x" "maps (mem s') R x = {}" "page_ref s' x = 1"
    using kx X(5-7) W(4-7) by simp_all
  note A = vm_adopt [OF W(1) x'(1) X(8) x'(2-4) z]
  have half: "load64 (mem s') (slot x i) = load64 (mem s) (slot (kernel_table s) i)" if "i \<in> {256..<512}" for i
  proof -
    have i: "i < 512" using that by simp
    have "load64 (mem s1) (slot (kernel_table s) i) = load64 (mem s) (slot (kernel_table s) i)"
      unfolding s1_def load64_def
      using in_page_word [OF Ax slot_aligned [OF kt(1) i]] slot_not_in_page [OF kt(1) Ax i kt(2)]
      by (intro load_le_cong) (auto simp: memset_page)
    then show ?thesis using m(3) [OF that] by (simp add: s'_def)
  qed
  have rd: "uread s' r va = uread s r va" if b: "r \<in> R" "uva va" for r va
  proof -
    note L = vpath_leafkey [OF b(2)]
    have "uread s' r va = uread s1 r va"
    proof (rule uread_cong)
      show "leaf s' r va = leaf s1 r va" by (rule W(3) [OF b(1) L])
      assume v: "valid (leaf s1 r va)"
      have "target (leaf s1 r va) \<noteq> x" using X(6) v b(1) L by (auto simp: maps_def)
      moreover have "kpage s1 (target (leaf s1 r va))" using vm_invD(6) [OF X(2) b(1) L v] by simp
      ultimately have "\<not> in_page x (target (leaf s1 r va) + take_bit 12 va)"
        using in_page_unique [OF kpage_aligned(1) Ax in_page_offset [OF kpage_aligned(1)]] by blast
      then show "mem s' (target (leaf s1 r va) + take_bit 12 va) = mem s1 (target (leaf s1 r va) + take_bit 12 va)"
        using m(1) by (simp add: s'_def)
    qed
    also have "\<dots> = uread s r va" by (rule uread_eff [OF inv X(3) b refl])
    finally show ?thesis .
  qed
  have "uread s' x va = None" if "uva va" for va
    using A(2) [OF vpath_leafkey [OF that]] by (simp add: uread_def)
  moreover have "uvmcreate s = Ok (x, s')"
    using X(1) kpage_nonzero [OF vm_invD(8) [OF inv] X(4)] 
    unfolding uvmcreate_def s'_def by (simp only: bnd.simps prod.case loop if_False)
  ultimately show ?thesis using A(1,3) W(8) G(1) rd half by auto
qed

section \<open>User stores\<close>

text \<open>
  A store instruction of a user program, as the hardware executes it: a fault unless the page has a
  valid entry that is writable and accessible from user mode.
\<close>

definition ustore :: "u64 \<Rightarrow> u64 \<Rightarrow> u8 \<Rightarrow> 'a kern_scheme \<Rightarrow> 'a kern_scheme option" where
  "ustore r va b s =
     (let v = leaf s r va in
      if valid v \<and> writable v \<and> v AND PTE_U \<noteq> 0 then Some (s\<lparr>mem := (mem s)(target v + take_bit 12 va := b)\<rparr>)
      else None)"

lemma maps_iff: "(r, p, k) \<in> maps m R a \<longleftrightarrow> r \<in> R \<and> leafkey p k \<and> valid (entry m r p k) \<and> target (entry m r p k) = a"
  by (simp add: maps_def)

text \<open>Under the invariant a store changes one byte of the storing address space and no other memory.\<close>

lemma ustore_effect:
  assumes inv: "vm_inv s R xs" and r: "r \<in> R" and va: "uva va" and st: "ustore r va b s = Some s'"
  shows "vm_inv s' R xs" "r' \<in> R \<Longrightarrow> uva a \<Longrightarrow> uread s' r' a =
    (if r' = r \<and> vakey a = vakey va \<and> take_bit 12 a = take_bit 12 va then Some b else uread s r' a)"
proof -
  define v where "v = leaf s r va"
  note L = vpath_leafkey [OF va]
  have v: "valid v" "writable v" and s': "s' = s\<lparr>mem := (mem s)(target v + take_bit 12 va := b)\<rparr>"
    using st by (auto simp: ustore_def v_def Let_def split: if_splits)
  have T: "kpage s (target v)" "target v \<notin> set xs" "\<not> is_table (mem s) R (target v)"
    "maps (mem s) R (target v) = {(r, vpath va, vpn va 0)}"
    using vm_invD(6) [OF inv r L] v by (auto simp: v_def)
  have m: "\<forall>c. \<not> in_page (target v) c \<longrightarrow> ((mem s)(target v + take_bit 12 va := b)) c = mem s c"
    using in_page_offset [OF kpage_aligned(1) [OF T(1)]] by auto
  note W = vm_write [OF inv T(1-3) m, folded s']
  show "vm_inv s' R xs" by (rule W(1))
  show "uread s' r' a = (if r' = r \<and> vakey a = vakey va \<and> take_bit 12 a = take_bit 12 va then Some b else uread s r' a)"
    if a: "r' \<in> R" "uva a"
  proof (cases "valid (leaf s r' a)")
    case True
    note La = vpath_leafkey [OF a(2)]
    have Ta: "kpage s (target (leaf s r' a))" using vm_invD(6) [OF inv a(1) La True] by simp
    have key: "target (leaf s r' a) = target v \<longleftrightarrow> r' = r \<and> vakey a = vakey va"
      using maps_iff [of r' "vpath a" "vpn a 0" "mem s" R "target v"] True a(1) La
      unfolding T(4) by (auto simp: vakey_def v_def)
    have "target (leaf s r' a) = target v" if "target (leaf s r' a) + take_bit 12 a = target v + take_bit 12 va"
      using in_page_unique [OF kpage_aligned(1) [OF Ta] kpage_aligned(1) [OF T(1)] in_page_offset [OF kpage_aligned(1) [OF Ta]], of a]
        in_page_offset [OF kpage_aligned(1) [OF T(1)], of va] that by simp
    then have "target (leaf s r' a) + take_bit 12 a = target v + take_bit 12 va \<longleftrightarrow>
        r' = r \<and> vakey a = vakey va \<and> take_bit 12 a = take_bit 12 va"
      unfolding key [symmetric] conj_assoc [symmetric] by auto
    moreover have "uread s' r' a = Some (if target (leaf s r' a) + take_bit 12 a = target v + take_bit 12 va then b
        else mem s (target (leaf s r' a) + take_bit 12 a))"
      using W(3) [OF a(1) La] True unfolding uread_def Let_def s' by simp
    moreover have "uread s r' a = Some (mem s (target (leaf s r' a) + take_bit 12 a))"
      using True by (simp add: uread_def)
    ultimately show ?thesis by simp
  next
    case False
    then have "uread s r' a = None" "uread s' r' a = None"
      using W(3) [OF a(1) vpath_leafkey [OF a(2)]] by (simp_all add: uread_def)
    moreover have "\<not> (r' = r \<and> vakey a = vakey va)" using False v(1) by (auto simp: vakey_def v_def)
    ultimately show ?thesis by auto
  qed
qed

lemma PTE_U_bit: "v AND PTE_U \<noteq> 0 \<longleftrightarrow> bit v 4"
  using and_exp_eq_0_iff_not_bit [of v 4] by simp

lemma flags_U: "PTE_FLAGS v AND PTE_U \<noteq> 0 \<longleftrightarrow> v AND PTE_U \<noteq> 0"
  unfolding PTE_U_bit PTE_FLAGS_def mask10 by (simp add: bit_simps)

lemma cow_flags_U: "v AND PTE_U \<noteq> 0 \<Longrightarrow> cow_flags v AND PTE_U \<noteq> 0"
  unfolding PTE_U_bit cow_flags_def PTE_FLAGS_def mask10 by (simp add: bit_simps bit_numeral_rec)

lemma page_offset_inj:
  assumes "usr a" "usr b" "vakey a = vakey b" "take_bit 12 a = take_bit 12 b"
  shows "a = b"
proof -
  have "unat a div 4096 = unat b div 4096" using vakey_eq_iff [OF assms(1,2)] assms(3) by simp
  moreover have "unat a mod 4096 = unat b mod 4096"
    using arg_cong [OF assms(4), of unat] by (simp add: unat_take_bit)
  ultimately have "unat a = unat b" by (metis div_mult_mod_eq)
  then show ?thesis by (rule unsigned_word_eqI)
qed

lemma PTE_COW_bit': "v AND PTE_COW \<noteq> 0 \<longleftrightarrow> bit v 8"
  using and_exp_eq_0_iff_not_bit [of v 8] by simp

lemma flags_COW: "PTE_FLAGS v AND PTE_COW \<noteq> 0 \<longleftrightarrow> v AND PTE_COW \<noteq> 0"
  unfolding PTE_COW_bit' PTE_FLAGS_def mask10 by (simp add: bit_simps)

lemma cow_fault_store:
  assumes "vm_inv s R (x # xs)" "r \<in> R" "usr va" "valid (leaf s r va)" "leaf s r va AND PTE_U \<noteq> 0"
  shows "\<exists>s1 s2 xs'. handle_cow_fault r va s = Ok (0, s1) \<and> ustore r va b s1 = Some s2 \<and> vm_inv s2 R xs' \<and>
    (\<forall>r' \<in> R. \<forall>a. usr a \<longrightarrow> uread s1 r' a = uread s r' a \<and>
      uread s2 r' a = (if r' = r \<and> a = va then Some b else uread s r' a))"
proof -
  from cow_fault_effect [OF assms(1-4)] obtain s1 ys where
    s1: "handle_cow_fault r va s = Ok (0, s1)" "vm_inv s1 R ys" "target (leaf s1 r va) = x"
      "PTE_FLAGS (leaf s1 r va) = cow_flags (leaf s r va)" "maps (mem s1) R x = {(r, vpath va, vpn va 0)}"
      "\<And>r' b. r' \<in> R \<Longrightarrow> uva b \<Longrightarrow> uread s1 r' b = uread s r' b" by auto
  have v: "valid (leaf s1 r va)" using maps_iff [of r "vpath va" "vpn va 0" "mem s1" R x] s1(5) by simp
  have "writable (leaf s1 r va)" "leaf s1 r va AND PTE_U \<noteq> 0"
    using writable_cow_flags [of "leaf s r va"] cow_flags_U [of "leaf s r va"] assms(5)
    by (simp_all add: writable_flags flags_U flip: s1(4))
  then obtain s2 where s2: "ustore r va b s1 = Some s2" using v by (auto simp: ustore_def)
  note U = ustore_effect [OF s1(2) assms(2) usr_uva [OF assms(3)] s2]
  have "uread s2 r' a = (if r' = r \<and> a = va then Some b else uread s r' a)" if "r' \<in> R" "usr a" for r' a
    using U(2) [OF that(1) usr_uva [OF that(2)]] s1(6) [OF that(1) usr_uva [OF that(2)]]
      page_offset_inj [OF that(2) assms(3)] by auto
  then show ?thesis using s1(1,6) s2 U(1) usr_uva by blast
qed

section \<open>Properties\<close>

text \<open>
  C5. \<open>uvmcreate\<close> takes one free page as the root of a new address space: no user address is mapped in
  it, its upper half is the kernel's, and the memory of every other address space stays as it was.
\<close>

theorem uvmcreate_fresh_space:
  assumes "vm_inv s R (x # xs)" "aligned 12 (kernel_table s)" "kernel_table s \<notin> set (x # xs)"
  shows "\<exists>s'. uvmcreate s = Ok (x, s') \<and> vm_inv s' (insert x R) xs \<and> x \<notin> R \<and>
    (\<forall>va. uva va \<longrightarrow> uread s' x va = None) \<and> (\<forall>r \<in> R. \<forall>va. uva va \<longrightarrow> uread s' r va = uread s r va) \<and>
    (\<forall>i \<in> {256..<512}. load64 (mem s') (slot x i) = load64 (mem s) (slot (kernel_table s) i))"
  using uvmcreate_effect [OF assms(1,2)] assms(3) by auto

theorem uvmcreate_fresh_space_witness:
  "\<exists>s'. uvmcreate ex = Ok (ex_x, s') \<and> vm_inv s' (insert ex_x ex_R) [] \<and> uread s' ex_x 0 = None"
proof -
  have "aligned 12 (kernel_table ex)" "kernel_table ex \<notin> set [ex_x]" by (simp_all add: ex_def aligned_def)
  moreover have "uva 0" by (simp add: uva_def vpn_eq)
  ultimately show ?thesis using uvmcreate_fresh_space [OF ex_vm_inv] by blast
qed



text \<open>
  C2. Copy-on-write isolates: when a free page is left, \<open>handle_cow_fault\<close> on a mapped user page returns 0
  and changes nobody's memory. A store that the user program then makes to the page succeeds if the
  page is accessible from user mode, and no other address space, and no other address, sees it.
\<close>

theorem cow_fault_isolates:
  assumes "vm_inv s R (x # xs)" "r \<in> R" "usr va" "valid (leaf s r va)" "leaf s r va AND PTE_U \<noteq> 0"
  shows "\<exists>s1 s2 xs'. handle_cow_fault r va s = Ok (0, s1) \<and> ustore r va b s1 = Some s2 \<and> vm_inv s2 R xs' \<and>
    (\<forall>r' \<in> R. \<forall>a. usr a \<longrightarrow> uread s1 r' a = uread s r' a \<and>
      uread s2 r' a = (if r' = r \<and> a = va then Some b else uread s r' a))"
  by (rule cow_fault_store [OF assms])

lemma ex_leaf_0: "leaf ex ex_r1 0 = ex_leaf" "leaf ex ex_r2 0 = ex_leaf" "usr 0"
proof -
  have "vpath 0 = [0, 0]" "vpn 0 0 = 0" "leafkey [0, 0] 0" by (simp_all add: vpath_def vpn_eq leafkey_def upath_def)
  then show "leaf ex ex_r1 0 = ex_leaf" "leaf ex ex_r2 0 = ex_leaf" by (simp_all add: ex_entry ex_def)
  show "usr 0" by (simp add: usr_def)
qed

lemma ex_leaf_flags: "ex_leaf AND PTE_U \<noteq> 0" "ex_leaf AND PTE_COW \<noteq> 0" "\<not> writable ex_leaf"
  by (simp_all add: ex_leaf_def PA2PTE_def VA2PA_def writable_def)

theorem cow_fault_isolates_witness:
  "\<exists>s1 s2. handle_cow_fault ex_r1 0 ex = Ok (0, s1) \<and> ustore ex_r1 0 7 s1 = Some s2 \<and>
    uread s2 ex_r1 0 = Some 7 \<and> uread s2 ex_r2 0 = uread ex ex_r2 0"
proof -
  have v: "valid (leaf ex ex_r1 0)" "leaf ex ex_r1 0 AND PTE_U \<noteq> 0" using ex_leaf_flags by (simp_all add: ex_leaf_0)
  show ?thesis using cow_fault_isolates [OF ex_vm_inv _ ex_leaf_0(3) v, of 7] ex_leaf_0(3) by auto
qed

text \<open>Sharing a page cannot fail when the new address space has the tables for it already.\<close>

lemma walk_present:
  assumes "\<not> early_mode s" "table (mem s) r (vpath va) = Some a"
  shows "walk r va al s = Ok (slot a (vpn va 0), s)"
  using assms by (auto simp: walk_def vpath_def numeral_2_eq_2 slot_vpn Let_def split: if_splits simp flip: target_def valid_def)

lemma uvmcopy_page_prefix:
  assumes inv: "vm_inv s R xs" and o: "old \<in> R" "new \<in> R" "old \<noteq> new" and va: "usr va" "aligned 12 va"
    and a: "table (mem s) old (vpath va) = Some a" and v: "valid (leaf s old va)"
    and lim: "page_ref s (target (leaf s old va)) < 2147483647" and e: "\<not> valid (leaf s new va)"
  obtains s2 perm k where "vm_inv s2 R xs" "table (mem s2) new (vpath va) = table (mem s) new (vpath va)"
    "\<not> valid (leaf s2 new va)" "FMM_size s2 = FMM_size s"
    "uvmcopy_page new va (slot a (vpn va 0)) s =
       bnd (mappages new va (PTE2PA (leaf s old va)) 4096 perm s2) (\<lambda>(r, s).
         if r < 0 then bnd (k s) (\<lambda>(_ :: int, s). Ok (Some (- 1), s)) else Ok (None, s))"
proof -
  note L = vpath_leafkey [OF usr_uva [OF va(1)]]
  define v0 where "v0 = leaf s old va"
  have lda: "load64 (mem s) (slot a (vpn va 0)) = v0" using a by (simp add: v0_def entry_def)
  have T: "kpage s (target v0)" "\<not> is_table (mem s) R (target v0)" using vm_invD(6) [OF inv o(1) L v] by (auto simp: v0_def)
  have key: "(old, vpath va, vpn va 0) \<in> maps (mem s) R (target v0)" using v o(1) L by (simp add: maps_iff v0_def)
  have cnt: "int (card (maps (mem s) R (target v0))) \<le> page_ref s (target v0)"
    using vm_invD(7) [OF inv T(1)] key by auto
  have "card (maps (mem s) R (target v0)) > 0"
    using key finite_maps [OF vm_invD(1) [OF inv]] by (auto simp: card_gt_0_iff)
  then have pos: "0 < page_ref s (target v0)" using cnt by simp
  define s1 where "s1 = store_pte (slot a (vpn va 0)) (cow v0) s"
  define s2 where "s2 = ref_set (target v0) (page_ref s (target v0) + 1) s1"
  have c1: "valid (cow v0)" "target (cow v0) = target (leaf s old va)"
    "writable (cow v0) \<longrightarrow> maps (mem s) R (target (cow v0)) = {(old, vpath va, vpn va 0)}"
    using v by (simp_all add: v0_def)
  note S1 = vm_reflag [OF inv o(1) L a v c1, folded s1_def]
  have k1: "kpage s1 = kpage s" "page_ref s1 = page_ref s" by (simp_all add: s1_def)
  have "refcnt_inc (target v0) s1 = Ok (0, ref_set (target v0) (page_ref s1 (target v0) + 1) s1)"
    using vm_invD(8,10) [OF S1(1)] T(1) pos lim by (intro refcnt_inc_eq) (simp_all add: s1_def v0_def)
  then have inc: "refcnt_inc (target v0) s1 = Ok (0, s2)" by (simp add: s2_def s1_def)
  have m2: "mem s2 = mem s1" by (simp add: s2_def ref_set_def)
  define perm where "perm = to_c_int (uint (PTE_FLAGS (cow v0)))"
  show ?thesis
  proof (rule that)
    show "vm_inv s2 R xs"
      unfolding s2_def using S1(4,5) T lim cnt by (intro vm_ref [OF S1(1)]) (simp_all add: k1 v0_def)
    show "table (mem s2) new (vpath va) = table (mem s) new (vpath va)"
      using S1(2) [OF o(2) leafkeyD(1) [OF L]] m2 by simp
    show "\<not> valid (leaf s2 new va)" using S1(3) [OF o(2) L] e o(3) m2 by simp
    show "FMM_size s2 = FMM_size s" by (simp add: s2_def ref_set_def s1_def)
    have "(v0 AND PTE_V = 0) = False" using v by (simp add: valid_def v0_def)
    then show "uvmcopy_page new va (slot a (vpn va 0)) s =
      bnd (mappages new va (PTE2PA (leaf s old va)) 4096 perm s2) (\<lambda>(r, s).
        if r < 0 then bnd (refcnt_dec (target v0) (store_pte (slot a (vpn va 0))
          (if v0 AND PTE_W \<noteq> 0 then load64 (mem s) (slot a (vpn va 0)) AND NOT PTE_COW OR PTE_W
           else load64 (mem s) (slot a (vpn va 0)) AND NOT PTE_COW) s)) (\<lambda>(_, s). Ok (Some (- 1), s)) else Ok (None, s))"
      using inc unfolding uvmcopy_page_def lda Let_def cow_def [symmetric] target_def [symmetric] perm_def [symmetric]
        s1_def [symmetric] v0_def [symmetric] by (simp only: if_False bnd.simps split_conv)
  qed
qed

lemma uvmcopy_page_present:
  assumes inv: "vm_inv s R xs" and o: "old \<in> R" "new \<in> R" "old \<noteq> new" and va: "usr va" "aligned 12 va"
    and a: "table (mem s) old (vpath va) = Some a" and v: "valid (leaf s old va)"
    and lim: "page_ref s (target (leaf s old va)) < 2147483647" and e: "\<not> valid (leaf s new va)"
    and c: "table (mem s) new (vpath va) = Some c"
  shows "\<exists>s'. uvmcopy_page new va (slot a (vpn va 0)) s = Ok (None, s') \<and> FMM_size s' = FMM_size s"
proof -
  note L = vpath_leafkey [OF usr_uva [OF va(1)]]
  obtain s2 perm k where s2: "vm_inv s2 R xs" "table (mem s2) new (vpath va) = Some c"
    "\<not> valid (leaf s2 new va)" "FMM_size s2 = FMM_size s" and
    u: "uvmcopy_page new va (slot a (vpn va 0)) s =
       bnd (mappages new va (PTE2PA (leaf s old va)) 4096 perm s2) (\<lambda>(r, s).
         if r < 0 then bnd (k s) (\<lambda>(_ :: int, s). Ok (Some (- 1), s)) else Ok (None, s))"
    using uvmcopy_page_prefix [OF inv o va a v lim e, unfolded c] by blast
  have "\<not> valid (load64 (mem s2) (slot c (vpn va 0)))" using s2(2,3) by (simp add: entry_def)
  moreover have "slot c (vpn va 0) \<noteq> 0" using table_vm(3) [OF inv o(2) leafkeyD(1) [OF L] c] by simp
  ultimately show ?thesis
    using walk_present [OF vm_invD(2) [OF s2(1)] s2(2), of True] s2(4) by (simp add: u mappages_1 [OF va(2)])
qed

text \<open>
  C6. Write protection does not survive \<open>fork\<close>. The step of \<open>uvmcopy\<close> for a page that its owner can only
  read marks the page copy-on-write as well, and \<open>handle_cow_fault\<close> makes the page it is called for
  writable. With a free page left, both address spaces can store to the page after their next fault.
\<close>

theorem fork_drops_write_protection:
  assumes "vm_inv s R xs" "old \<in> R" "new \<in> R" "old \<noteq> new" "usr va" "aligned 12 va"
    "table (mem s) old (vpath va) = Some a" "valid (leaf s old va)" "\<not> writable (leaf s old va)"
    "leaf s old va AND PTE_U \<noteq> 0" "page_ref s (target (leaf s old va)) < 2147483647" "\<not> valid (leaf s new va)"
    "uvmcopy_page new va (slot a (vpn va 0)) s = Ok (None, s1)" "FMM_size s1 \<noteq> 0" "r = old \<or> r = new"
  shows "is_cow_fault r va s1 = Ok (0, s1) \<and>
    (\<exists>s2 s3. handle_cow_fault r va s1 = Ok (0, s2) \<and> ustore r va b s2 = Some s3 \<and> uread s3 r va = Some b)"
proof -
  note L = vpath_leafkey [OF usr_uva [OF assms(5)]]
  from uvmcopy_page_effect [OF assms(1-8,11,12)] assms(13) obtain ys where
    i1: "vm_inv s1 R ys" and cp: "copied s s1 R old new va True" by (auto split: if_splits)
  have rR: "r \<in> R" using assms(2,3,15) by auto
  define v where "v = leaf s old va"
  have T: "kpage s (target v)" using vm_invD(6) [OF assms(1,2) L assms(8)] by (simp add: v_def)
  note E = copy_entry_props [OF T vm_invD(8) [OF assms(1)], unfolded v_def, OF assms(8)]
  have fl: "PTE_FLAGS (leaf s1 r va) = PTE_FLAGS (cow v)" "valid (leaf s1 r va)"
    using cp assms(8,15) E by (auto simp: copied_def v_def)
  have "bit (cow v) 4" "bit (cow v) 8" using assms(10) by (simp_all add: bit_cow PTE_U_bit v_def)
  then have u: "leaf s1 r va AND PTE_U \<noteq> 0" "leaf s1 r va AND PTE_COW \<noteq> 0"
    using fl(1) flags_U flags_COW PTE_U_bit PTE_COW_bit' by metis+
  obtain y zs where ys: "ys = y # zs"
    using kalloc_invD [OF vm_invD(9) [OF i1]] assms(14) by (cases ys) (auto simp: kalloc_inv_def)
  obtain c where c: "table (mem s1) r (vpath va) = Some c" "load64 (mem s1) (slot c (vpn va 0)) = leaf s1 r va"
    using leaf_table [OF fl(2)] .
  have "walk r (PGROUNDDOWN va) False s1 = Ok (slot c (vpn va 0), s1)"
    using walk_present [OF vm_invD(2) [OF i1], of r "PGROUNDDOWN va"] c(1) vakey_PGROUNDDOWN [OF assms(5)] by simp
  moreover have "slot c (vpn va 0) \<noteq> 0" using table_vm(3) [OF i1 rR leafkeyD(1) [OF L] c(1)] by simp
  ultimately have "is_cow_fault r va s1 = Ok (0, s1)"
    using u fl(2) c(2) by (simp add: is_cow_fault_def valid_def)
  moreover from cow_fault_store [OF i1 [unfolded ys] rR assms(5) fl(2) u(1), of b] rR assms(5)
  have "\<exists>s2 s3. handle_cow_fault r va s1 = Ok (0, s2) \<and> ustore r va b s2 = Some s3 \<and> uread s3 r va = Some b" by force
  ultimately show ?thesis by blast
qed

theorem fork_drops_write_protection_witness:
  "\<exists>s1 s2 s3. uvmcopy_page ex_r2 0x1000 (slot ex_t0 1) ex = Ok (None, s1) \<and> \<not> writable (leaf ex ex_r1 0x1000) \<and>
    handle_cow_fault ex_r1 0x1000 s1 = Ok (0, s2) \<and> ustore ex_r1 0x1000 7 s2 = Some s3"
proof -
  have va: "vpath 0x1000 = [0, 0]" "vpn 0x1000 0 = 1" "upath [0, 0]" "leafkey [0, 0] 1" "usr 0x1000" "aligned 12 0x1000"
    by (simp_all add: vpath_def vpn_eq upath_def leafkey_def usr_def aligned_def)
  have l: "leaf ex ex_r1 0x1000 = ex_ro" "leaf ex ex_r2 0x1000 = 0" unfolding va using va(4) by (simp_all add: ex_entry ex_def)
  have t: "table (mem ex) ex_r1 (vpath 0x1000) = Some ex_t0" "table (mem ex) ex_r2 (vpath 0x1000) = Some ex_u0"
    unfolding va(1) using ex_table [OF va(3)] by (simp_all add: ex_def del: table.simps)
  have f: "ex_ro AND PTE_U \<noteq> 0" "\<not> writable ex_ro" by (simp_all add: ex_ro_def PA2PTE_def VA2PA_def writable_def)
  have pr: "page_ref ex (target (leaf ex ex_r1 0x1000)) < 2147483647" by (simp add: page_ref_def ex_def)
  have h: "ex_r1 \<in> ex_R" "ex_r2 \<in> ex_R" "ex_r1 \<noteq> ex_r2" "valid (leaf ex ex_r1 0x1000)" "\<not> valid (leaf ex ex_r2 0x1000)"
    "\<not> writable (leaf ex ex_r1 0x1000)" "leaf ex ex_r1 0x1000 AND PTE_U \<noteq> 0" using l f by simp_all
  from uvmcopy_page_present [OF ex_vm_inv h(1-3) va(5,6) t(1) h(4) pr h(5) t(2)] obtain s1 where
    s1: "uvmcopy_page ex_r2 0x1000 (slot ex_t0 (vpn 0x1000 0)) ex = Ok (None, s1)" "FMM_size s1 \<noteq> 0" by (auto simp: ex_def)
  from fork_drops_write_protection [OF ex_vm_inv h(1-3) va(5,6) t(1) h(4,6,7) pr h(5) s1, of ex_r1 7]
  show ?thesis using s1(1) h(6) unfolding va(2) by auto
qed



text \<open>
  C3. \<open>uvmunmap\<close> with freeing, over a page-aligned range of user addresses whose mapped pages all have
  some permission bit: afterwards exactly the addresses of the range are unmapped in this address
  space. No other address and no other address space loses or changes memory.
\<close>

theorem uvmunmap_removes_range:
  assumes "vm_inv s R xs" "r \<in> R" "aligned 12 va" "0 \<le> n" "uint va + 4096 * n \<le> 2 ^ 38"
    "\<forall>a. usr a \<longrightarrow> valid (leaf s r a) \<longrightarrow> PTE_FLAGS (leaf s r a) \<noteq> PTE_V"
  shows "\<exists>s' xs'. uvmunmap r va n True s = Ok s' \<and> vm_inv s' R xs' \<and> kframe s' = kframe s \<and>
    (\<forall>r' \<in> R. \<forall>a. usr a \<longrightarrow> uread s' r' a =
      (if r' = r \<and> uint va \<le> uint a \<and> uint a < uint va + 4096 * n then None else uread s r' a))"
proof -
  define k where "k = nat n"
  have n: "n = int k" using assms(4) by (simp add: k_def)
  have "int (unat va + 4096 * k) \<le> int (2 ^ 38)" using assms(5) by (simp add: n)
  then have sm: "unat va + 4096 * k \<le> 2 ^ 38" by (simp only: of_nat_le_iff)
  have rng: "unat va \<le> unat a \<and> unat a < unat va + 4096 * k \<longleftrightarrow> uint va \<le> uint a \<and> uint a < uint va + 4096 * n" for a
    unfolding n uint_nat by linarith
  have w: "va + word_of_int n * PGSIZE = va + of_nat (4096 * k)" by (simp add: n mult.commute)
  from unmap_range [OF assms(1-3) sm] obtain s' xs' where
    s': "for_pages (unmap_page r True) va (va + of_nat (4096 * k)) s = Ok (None, s')" "vm_inv s' R xs'"
      "unmap_rel s s' R r (vakey ` set (page_range va k))" by auto
  have "uread s' r' a = (if r' = r \<and> uint va \<le> uint a \<and> uint a < uint va + 4096 * n then None else uread s r' a)"
    if a: "r' \<in> R" "usr a" for r' a
  proof (cases "r' = r \<and> vakey a \<in> vakey ` set (page_range va k)")
    case True
    then have "leaf s' r a = dropped (leaf s r a)"
      using s'(3) assms(2) vpath_leafkey [OF usr_uva [OF a(2)]] by (simp add: unmap_rel_def vakey_def)
    then have "uread s' r a = None" using assms(6) a(2) by (auto simp: uread_def dropped_def)
    then show ?thesis using True page_range_addr [OF assms(3) sm a(2)] rng by auto
  next
    case False
    then have "uread s' r' a = uread s r' a"
      using s'(3) a(1) usr_uva [OF a(2)] unfolding unmap_rel_def by blast
    then show ?thesis using False page_range_addr [OF assms(3) sm a(2)] rng by auto
  qed
  moreover have "uvmunmap r va n True s = Ok s'" using s'(1) by (simp add: uvmunmap_def w)
  ultimately show ?thesis using s'(2,3) by (auto simp: unmap_rel_def)
qed

theorem uvmunmap_removes_range_witness:
  "\<exists>s'. uvmunmap ex_r1 0 1 True ex = Ok s' \<and> uread s' ex_r1 0 = None \<and> uread s' ex_r2 0 = uread ex ex_r2 0"
proof -
  have "PTE_FLAGS (leaf ex ex_r1 a) \<noteq> PTE_V" if "usr a" "valid (leaf ex ex_r1 a)" for a
    using that ex_entry(1) [OF vpath_leafkey [OF usr_uva [OF that(1)]]] by (auto simp: ex_def split: if_splits)
  then have h: "\<forall>a. usr a \<longrightarrow> valid (leaf ex ex_r1 a) \<longrightarrow> PTE_FLAGS (leaf ex ex_r1 a) \<noteq> PTE_V" by blast
  have al: "aligned 12 0" by (simp add: aligned_def)
  from uvmunmap_removes_range [OF ex_vm_inv _ al _ _ h, of 1] show ?thesis using ex_leaf_0(3) by auto
qed

text \<open>
  C7. A page that is already shared copy-on-write loses that mark when the step of \<open>uvmcopy\<close> for it
  fails: the error path clears \<open>PTE_COW\<close> and restores only \<open>PTE_W\<close>. The owner's next store to the page
  is then no copy-on-write fault any more, although the page was writable for it before.
\<close>

theorem failed_copy_loses_cow:
  assumes "vm_inv s R xs" "old \<in> R" "new \<in> R" "old \<noteq> new" "usr va" "aligned 12 va"
    "table (mem s) old (vpath va) = Some a" "valid (leaf s old va)" "leaf s old va AND PTE_COW \<noteq> 0"
    "\<not> writable (leaf s old va)" "page_ref s (target (leaf s old va)) < 2147483647" "\<not> valid (leaf s new va)"
    "uvmcopy_page new va (slot a (vpn va 0)) s = Ok (Some (- 1), s1)"
  shows "is_cow_fault old va s = Ok (0, s) \<and> is_cow_fault old va s1 = Ok (- 1, s1) \<and> ustore old va b s1 = None"
proof -
  note L = vpath_leafkey [OF usr_uva [OF assms(5)]]
  from uvmcopy_page_effect [OF assms(1-8,11,12)] assms(13) obtain ys where
    i1: "vm_inv s1 R ys" and cp: "copied s s1 R old new va False" by (auto split: if_splits)
  have l: "leaf s1 old va = restored (leaf s old va)" "table (mem s1) old (vpath va) = Some a"
    using cp assms(2,7) leafkeyD(1) [OF L] by (auto simp: copied_def)
  have nc: "leaf s1 old va AND PTE_COW = 0"
    using PTE_COW_bit' [of "restored (leaf s old va)"] bit_restored [of 8] by (simp add: l)
  have nw: "\<not> writable (leaf s1 old va)" using assms(10) l by simp
  have w: "walk old (PGROUNDDOWN va) False t = Ok (slot a (vpn va 0), t)"
    if "vm_inv t R zs" "table (mem t) old (vpath va) = Some a" for t :: "'a kern_scheme" and zs
    using walk_present [OF vm_invD(2) [OF that(1)], of old "PGROUNDDOWN va"] that(2) vakey_PGROUNDDOWN [OF assms(5)] by simp
  have nz: "slot a (vpn va 0) \<noteq> 0" using table_vm(3) [OF assms(1,2) leafkeyD(1) [OF L] assms(7)] by simp
  have ld: "load64 (mem s) (slot a (vpn va 0)) = leaf s old va" "load64 (mem s1) (slot a (vpn va 0)) = leaf s1 old va"
    using assms(7) l(2) by (simp_all add: entry_def)
  show ?thesis
    using w [OF assms(1,7)] w [OF i1 l(2)] nz ld nc nw assms(8,9)
    by (simp add: is_cow_fault_def valid_def ustore_def Let_def)
qed

lemma walk_exhausted:
  assumes inv: "vm_inv s R []" and r: "r \<in> R" "uva va" and n: "table (mem s) r (vpath va) = None"
  shows "\<exists>s'. walk r va True s = Ok (0, s')"
proof -
  from walk_True [OF inv r] obtain s' xs' where s': "vm_inv s' R xs'" "vm_grow s s' R [] xs'" and
    alt: "walk r va True s = Ok (0, s') \<or> (\<exists>a. table (mem s') r (vpath va) = Some a)" by auto
  note G = vm_effD [OF s'(2)]
  have False if a: "table (mem s') r (vpath va) = Some a" for a
  proof -
    note u = vpath_upath(1) [OF r(2)]
    from G(6) [OF is_tableI [OF r(1) u a]] obtain r' p where p: "r' \<in> R" "upath p" "table (mem s) r' p = Some a"
      by (auto simp: is_table_def)
    from tables_okD(2) [OF vm_invD(4) [OF s'(1)] r(1) u a p(1,2) G(5) [OF p]] p(3) n show False by simp
  qed
  then show ?thesis using alt by blast
qed

lemma uvmcopy_page_exhausted:
  assumes inv: "vm_inv s R []" and o: "old \<in> R" "new \<in> R" "old \<noteq> new" and va: "usr va" "aligned 12 va"
    and a: "table (mem s) old (vpath va) = Some a" and v: "valid (leaf s old va)"
    and lim: "page_ref s (target (leaf s old va)) < 2147483647" and e: "\<not> valid (leaf s new va)"
    and c: "table (mem s) new (vpath va) = None"
  shows "\<exists>s'. uvmcopy_page new va (slot a (vpn va 0)) s = Ok (Some (- 1), s')"
proof -
  obtain s2 perm k where s2: "vm_inv s2 R []" "table (mem s2) new (vpath va) = None" and
    u: "uvmcopy_page new va (slot a (vpn va 0)) s =
       bnd (mappages new va (PTE2PA (leaf s old va)) 4096 perm s2) (\<lambda>(r, s).
         if r < 0 then bnd (k s) (\<lambda>(_ :: int, s). Ok (Some (- 1), s)) else Ok (None, s))"
    using uvmcopy_page_prefix [OF inv o va a v lim e, unfolded c] by blast
  obtain s3 where "walk new va True s2 = Ok (0, s3)" using walk_exhausted [OF s2(1) o(2) usr_uva [OF va(1)] s2(2)] by blast
  then have "uvmcopy_page new va (slot a (vpn va 0)) s = bnd (k s3) (\<lambda>(_, s). Ok (Some (- 1), s))"
    by (simp add: u mappages_1 [OF va(2)])
  then have "uvmcopy_page new va (slot a (vpn va 0)) s \<noteq> Ok (None, s')" for s' by (cases "k s3") auto
  then show ?thesis using uvmcopy_page_effect [OF inv o va a v lim e] by (metis (full_types))
qed

theorem failed_copy_loses_cow_witness:
  "\<exists>(s :: kern) s1. vm_inv s ex_R [] \<and> is_cow_fault ex_r1 0 s = Ok (0, s) \<and>
    uvmcopy_page ex_r3 0 (slot ex_t0 0) s = Ok (Some (- 1), s1) \<and> is_cow_fault ex_r1 0 s1 = Ok (- 1, s1)"
proof -
  define s where "s = kalloc_take ex_x ex"
  note X = vm_take [OF ex_vm_inv, folded s_def]
  have u: "usr 0" "uva 0" "vpath 0 = [0, 0]" "vpn 0 0 = 0" "leafkey [0, 0] 0" "upath [0, 0]" "aligned 12 0"
    by (simp_all add: usr_def uva_def vpath_def vpn_eq leafkey_def upath_def aligned_def)
  have t: "table (mem s) r [0, 0] = table ex_mem r [0, 0]" if "r \<in> ex_R" for r
    using X(9) [OF that u(6)] by (simp add: ex_def)
  have tt: "table (mem s) ex_r1 (vpath 0) = Some ex_t0" "table (mem s) ex_r3 (vpath 0) = None"
    using t [of ex_r1] t [of ex_r3] ex_table [OF u(6)] by (simp_all add: u del: table.simps)
  have l: "leaf s ex_r1 0 = ex_leaf" "leaf s ex_r3 0 = 0"
    using vm_effD(4) [OF X(3), of ex_r1 "[0, 0]" 0] vm_effD(4) [OF X(3), of ex_r3 "[0, 0]" 0] u(5)
    by (simp_all add: u ex_def ex_entry)
  have pr: "page_ref s (target (leaf s ex_r1 0)) < 2147483647"
    by (simp add: l page_ref_def s_def kalloc_take_def ex_def)
  have h: "ex_r1 \<in> ex_R" "ex_r3 \<in> ex_R" "ex_r1 \<noteq> ex_r3" "valid (leaf s ex_r1 0)" "\<not> valid (leaf s ex_r3 0)"
    "leaf s ex_r1 0 AND PTE_COW \<noteq> 0" "\<not> writable (leaf s ex_r1 0)" using l ex_leaf_flags by simp_all
  from uvmcopy_page_exhausted [OF X(2) h(1-3) u(1,7) tt(1) h(4) pr h(5) tt(2)] obtain s1 where
    s1: "uvmcopy_page ex_r3 0 (slot ex_t0 (vpn 0 0)) s = Ok (Some (- 1), s1)" by blast
  from failed_copy_loses_cow [OF X(2) h(1-3) u(1,7) tt(1) h(4,6,7) pr h(5) s1] s1 X(2)
  show ?thesis unfolding u(4) by blast
qed

end
