(* ===== verification/Listh.thy ===== *)
theory Listh
  imports Kalloc
begin

text \<open>
  The circular doubly linked lists of \<open>include/kernel/list.h\<close> in raw memory: a \<open>list_head\<close> holds
  \<open>next\<close> at offset 0 and \<open>prev\<close> at offset 8. The operations implement insertion at the end and
  removal on the sequence of linked nodes.
\<close>

section \<open>Operations\<close>

definition list_init :: "u64 \<Rightarrow> memory \<Rightarrow> memory" where
  "list_init l m = store64 (store64 m l l) (l + 8) l"

definition list_is_empty :: "u64 \<Rightarrow> memory \<Rightarrow> bool" where
  "list_is_empty head m \<longleftrightarrow> load64 m head = head"

definition list_first :: "u64 \<Rightarrow> memory \<Rightarrow> u64" where
  "list_first head m = load64 m head"

definition list_add_tail :: "u64 \<Rightarrow> u64 \<Rightarrow> memory \<Rightarrow> memory" where
  "list_add_tail new head m =
     (let m = store64 m new head;
          m = store64 m (new + 8) (load64 m (head + 8));
          m = store64 m (load64 m (head + 8)) new
      in store64 m (head + 8) new)"

definition list_del :: "u64 \<Rightarrow> memory \<Rightarrow> memory" where
  "list_del head m =
     (let nxt = load64 m head;
          m = store64 m (load64 m (head + 8)) nxt;
          m = store64 m (nxt + 8) (load64 m (head + 8));
          m = store64 m head 0
      in store64 m (head + 8) 0)"

section \<open>Linked sequences\<close>

definition link :: "memory \<Rightarrow> u64 \<Rightarrow> u64 \<Rightarrow> bool" where
  "link m a b \<longleftrightarrow> load64 m a = b \<and> load64 m (b + 8) = a"

fun chain :: "memory \<Rightarrow> u64 \<Rightarrow> u64 list \<Rightarrow> u64 \<Rightarrow> bool" where
  "chain m a [] b \<longleftrightarrow> link m a b"
| "chain m a (x # xs) b \<longleftrightarrow> link m a x \<and> chain m x xs b"

text \<open>Nodes are aligned and their two words do not overlap.\<close>

definition nodes_ok :: "u64 set \<Rightarrow> bool" where
  "nodes_ok A \<longleftrightarrow> (\<forall>a \<in> A. aligned 3 a \<and> (\<forall>b \<in> A. b \<noteq> a + 8))"

definition dlist :: "memory \<Rightarrow> u64 \<Rightarrow> u64 list \<Rightarrow> bool" where
  "dlist m h xs \<longleftrightarrow> chain m h xs h \<and> distinct (h # xs) \<and> nodes_ok (set (h # xs))"

lemma aligned_add_8: "aligned 3 a \<Longrightarrow> aligned 3 (a + 8)"
proof -
  assume "aligned 3 a"
  then have "8 dvd (unat a + 8) mod 2 ^ 64" unfolding aligned_def by (simp add: dvd_mod)
  then show ?thesis by (simp add: aligned_def unat_word_ariths)
qed

lemma chain_snoc: "chain m a (xs @ [x]) b \<longleftrightarrow> chain m a xs x \<and> link m x b"
  by (induction xs arbitrary: a) auto

lemma chain_append: "chain m a (xs @ x # ys) b \<longleftrightarrow> chain m a xs x \<and> chain m x ys b"
  by (induction xs arbitrary: a) auto

lemma chain_cong:
  assumes "\<And>x. x \<in> set (a # xs) \<Longrightarrow> load64 m' x = load64 m x"
    "\<And>x. x \<in> set (xs @ [b]) \<Longrightarrow> load64 m' (x + 8) = load64 m (x + 8)"
  shows "chain m' a xs b \<longleftrightarrow> chain m a xs b"
  using assms by (induction xs arbitrary: a) (auto simp: link_def)

lemma chain_ends: "chain m a xs b \<Longrightarrow> load64 m a = hd (xs @ [b]) \<and> load64 m (b + 8) = last (a # xs)"
  by (induction xs arbitrary: a) (auto simp: link_def split: if_splits)

lemma list_init_dlist: "aligned 3 l \<Longrightarrow> dlist (list_init l m) l []"
  using aligned_add_8 [of l] by (simp add: dlist_def link_def nodes_ok_def list_init_def load64_store64)

lemma list_is_empty_iff: "dlist m h xs \<Longrightarrow> list_is_empty h m \<longleftrightarrow> xs = []"
  by (auto simp: dlist_def list_is_empty_def link_def dest!: chain_ends) (cases xs; auto)

lemma list_first_eq: "dlist m h (x # xs) \<Longrightarrow> list_first h m = x"
  by (simp add: dlist_def list_first_def link_def)

text \<open>The memory after an insertion or a removal, at word addresses.\<close>

lemma list_add_tail_load:
  assumes "aligned 3 new" "aligned 3 head" "aligned 3 (load64 m (head + 8))" "new \<noteq> head" "new \<noteq> head + 8" "aligned 3 a"
    "load64 m (head + 8) \<noteq> head + 8"
  shows "load64 (list_add_tail new head m) a =
    (if a = head + 8 \<or> a = load64 m (head + 8) then new else if a = new + 8 then load64 m (head + 8)
     else if a = new then head else load64 m a)"
  using assms aligned_add_8 [of new] aligned_add_8 [of head]
  by (auto simp: list_add_tail_def Let_def load64_store64)

lemma list_del_load:
  assumes "aligned 3 n" "aligned 3 p" "aligned 3 q" "load64 m n = q" "load64 m (n + 8) = p" "aligned 3 a"
    "p \<noteq> n + 8" "q \<noteq> n" "p \<noteq> n" "q + 8 \<noteq> n"
  shows "load64 (list_del n m) a = (if a = n \<or> a = n + 8 then 0 else if a = q + 8 then p else if a = p then q else load64 m a)"
  using assms aligned_add_8 [of n] aligned_add_8 [of q]
  by (auto simp: list_del_def Let_def load64_store64)

lemma nodes_okD: "nodes_ok A \<Longrightarrow> a \<in> A \<Longrightarrow> aligned 3 a" "nodes_ok A \<Longrightarrow> a \<in> A \<Longrightarrow> b \<in> A \<Longrightarrow> b \<noteq> a + 8"
  by (auto simp: nodes_ok_def)

lemma nodes_ok_mono: "nodes_ok A \<Longrightarrow> B \<subseteq> A \<Longrightarrow> nodes_ok B"
  by (auto simp: nodes_ok_def)

lemma list_add_tail_dlist:
  assumes d: "dlist m h xs" and n: "new \<notin> set (h # xs)" "nodes_ok (set (new # h # xs))"
  shows "dlist (list_add_tail new h m) h (xs @ [new])"
    "aligned 3 a \<Longrightarrow> \<forall>x \<in> set (new # h # xs). a \<noteq> x \<and> a \<noteq> x + 8 \<Longrightarrow> load64 (list_add_tail new h m) a = load64 m a"
proof -
  define p where "p = last (h # xs)"
  note N = nodes_okD [OF n(2)]
  have c: "chain m h xs h" "distinct (h # xs)" using d by (auto simp: dlist_def)
  have p: "load64 m (h + 8) = p" "p \<in> set (h # xs)"
    using chain_ends [OF c(1)] last_in_set [of "h # xs"] by (simp_all add: p_def)
  have L: "load64 (list_add_tail new h m) a =
      (if a = h + 8 \<or> a = p then new else if a = new + 8 then p else if a = new then h else load64 m a)" if "aligned 3 a" for a
    using list_add_tail_load [OF N(1) N(1) _ _ _ that, of new h m] p N n(1) by auto
  show "load64 (list_add_tail new h m) a = load64 m a"
    if "aligned 3 a" "\<forall>x \<in> set (new # h # xs). a \<noteq> x \<and> a \<noteq> x + 8"
    using L [OF that(1)] that(2) p(2) by auto
  have al: "aligned 3 (x + 8)" if "x \<in> set (new # h # xs)" for x using aligned_add_8 [OF N(1) [OF that]] .
  have "chain (list_add_tail new h m) h xs new"
  proof (cases xs rule: rev_cases)
    case Nil
    then show ?thesis using L [of h] L [of "new + 8"] N al n(1) p by (auto simp: link_def p_def)
  next
    case (snoc ys x)
    then have x: "p = x" "chain m h ys x" using c(1) by (simp_all add: p_def chain_snoc)
    have "chain (list_add_tail new h m) h ys x"
    proof (rule chain_cong [THEN iffD2, OF _ _ x(2)])
      fix y assume "y \<in> set (h # ys)"
      then have y: "y \<in> set (new # h # xs)" "y \<noteq> p" "y \<noteq> new" using snoc c(2) n(1) x(1) by auto
      then show "load64 (list_add_tail new h m) y = load64 m y"
        using L [OF N(1) [OF y(1)]] N(2) [of h y] N(2) [of new y] by auto
    next
      fix y assume "y \<in> set (ys @ [x])"
      then have y: "y \<in> set (new # h # xs)" "y \<noteq> h" "y \<noteq> new" using snoc c(2) n(1) by auto
      have "p \<in> set (new # h # xs)" using p(2) by simp
      then show "load64 (list_add_tail new h m) (y + 8) = load64 m (y + 8)"
        using L [OF al [OF y(1)]] N(2) [OF y(1), of p] N(2) [OF y(1), of new] y by auto
    qed
    moreover have "load64 (list_add_tail new h m) x = new" "load64 (list_add_tail new h m) (new + 8) = x"
      using L [of x] L [of "new + 8"] N al n(1) snoc x(1) by (auto simp: p_def)
    ultimately show ?thesis by (simp add: snoc chain_snoc link_def)
  qed
  moreover have "link (list_add_tail new h m) new h"
    using L [of new] L [of "h + 8"] N al n(1) p(2) unfolding link_def by auto
  ultimately show "dlist (list_add_tail new h m) h (xs @ [new])"
    using c(2) n by (auto simp: dlist_def chain_snoc insert_commute)
qed

lemma list_del_dlist:
  assumes d: "dlist m h (us @ n # vs)"
  shows "dlist (list_del n m) h (us @ vs)"
    "aligned 3 a \<Longrightarrow> \<forall>x \<in> set (h # us @ n # vs). a \<noteq> x \<and> a \<noteq> x + 8 \<Longrightarrow> load64 (list_del n m) a = load64 m a"
proof -
  define p q where "p = last (h # us)" and "q = hd (vs @ [h])"
  have c: "chain m h us n" "chain m n vs h" "distinct (h # us @ n # vs)" and N0: "nodes_ok (set (h # us @ n # vs))"
    using d by (auto simp: dlist_def chain_append)
  note N = nodes_okD [OF N0]
  have p: "load64 m (n + 8) = p" "p \<in> set (h # us)"
    using chain_ends [OF c(1)] last_in_set [of "h # us"] by (simp_all add: p_def)
  have q: "load64 m n = q" "q \<in> set (h # vs)"
    using chain_ends [OF c(2)] hd_in_set [of "vs @ [h]"] by (auto simp: q_def)
  have pq: "p \<in> set (h # us @ n # vs)" "q \<in> set (h # us @ n # vs)" "p \<noteq> n" "q \<noteq> n" using p q c(3) by auto
  have nn: "n \<in> set (h # us @ n # vs)" by simp
  have L: "load64 (list_del n m) a = (if a = n \<or> a = n + 8 then 0 else if a = q + 8 then p else if a = p then q else load64 m a)"
    if "aligned 3 a" for a
    by (rule list_del_load [OF N(1) [OF nn] N(1) [OF pq(1)] N(1) [OF pq(2)] q(1) p(1) that N(2) [OF nn pq(1)] pq(4,3)
        N(2) [OF pq(2) nn, symmetric]])
  show "load64 (list_del n m) a = load64 m a" if "aligned 3 a" "\<forall>x \<in> set (h # us @ n # vs). a \<noteq> x \<and> a \<noteq> x + 8"
    using L [OF that(1)] that(2) pq by auto
  have al: "aligned 3 (x + 8)" if "x \<in> set (h # us @ n # vs)" for x using aligned_add_8 [OF N(1) [OF that]] .
  have lk: "link (list_del n m) p q"
    using L [OF N(1) [OF pq(1)]] L [OF al [OF pq(2)]] N(2) [OF nn pq(1)] N(2) [OF pq(2) nn] N(2) [OF pq(2) pq(1)] pq(3,4)
    unfolding link_def by auto
  have next_same: "load64 (list_del n m) x = load64 m x" if "x \<in> set (h # us @ vs)" "x \<noteq> p" for x
  proof -
    have x: "x \<in> set (h # us @ n # vs)" "x \<noteq> n" using that c(3) by auto
    then show ?thesis using L [OF N(1) [OF x(1)]] N(2) [OF nn x(1)] N(2) [OF pq(2) x(1)] that by auto
  qed
  have prev_same: "load64 (list_del n m) (x + 8) = load64 m (x + 8)" if "x \<in> set (h # us @ vs)" "x \<noteq> q" for x
  proof -
    have x: "x \<in> set (h # us @ n # vs)" "x \<noteq> n" using that c(3) by auto
    then show ?thesis using L [OF al [OF x(1)]] N(2) [OF x(1) nn] N(2) [OF x(1) pq(1)] that by auto
  qed
  have left: "chain (list_del n m) h us' p" if "us = us' @ [p]" for us'
  proof (rule chain_cong [THEN iffD2])
    show "chain m h us' p" using c(1) that by (simp add: chain_snoc)
    show "load64 (list_del n m) x = load64 m x" if "x \<in> set (h # us')" for x
      using that \<open>us = us' @ [p]\<close> c(3) by (intro next_same) auto
    show "load64 (list_del n m) (x + 8) = load64 m (x + 8)" if "x \<in> set (us' @ [p])" for x
      using that \<open>us = us' @ [p]\<close> c(3) q(2) by (intro prev_same) auto
  qed
  have right: "chain (list_del n m) q vs' h" if "vs = q # vs'" for vs'
  proof (rule chain_cong [THEN iffD2])
    show "chain m q vs' h" using c(2) that by simp
    show "load64 (list_del n m) x = load64 m x" if "x \<in> set (q # vs')" for x
      using that \<open>vs = q # vs'\<close> c(3) p(2) by (intro next_same) auto
    show "load64 (list_del n m) (x + 8) = load64 m (x + 8)" if "x \<in> set (vs' @ [h])" for x
      using that \<open>vs = q # vs'\<close> c(3) by (intro prev_same) auto
  qed
  have "chain (list_del n m) h us q"
  proof (cases us rule: rev_cases)
    case Nil
    then show ?thesis using lk by (simp add: p_def)
  next
    case (snoc us' x)
    then have "x = p" by (simp add: p_def)
    then show ?thesis using left lk snoc by (simp add: chain_snoc)
  qed
  then have "chain (list_del n m) h (us @ vs) h"
  proof (cases vs)
    case Nil
    then show ?thesis using \<open>chain (list_del n m) h us q\<close> by (simp add: q_def)
  next
    case (Cons x vs')
    then have "x = q" by (simp add: q_def)
    then show ?thesis using right Cons \<open>chain (list_del n m) h us q\<close> by (simp add: chain_append)
  qed
  then show "dlist (list_del n m) h (us @ vs)"
    using c(3) nodes_ok_mono [OF N0, of "set (h # us @ vs)"] by (auto simp: dlist_def)
qed

section \<open>Properties\<close>

text \<open>
  C40. The list operations implement a sequence: \<open>list_add_tail\<close> of a fresh node appends it,
  \<open>list_del\<close> of a linked node removes exactly this node, and deleting the appended node gives back
  the sequence from before.
\<close>

theorem list_refines_sequence:
  assumes "dlist m h xs" "new \<notin> set (h # xs)" "nodes_ok (set (new # h # xs))"
  shows "dlist (list_add_tail new h m) h (xs @ [new]) \<and> dlist (list_del new (list_add_tail new h m)) h xs \<and>
    (\<forall>us n vs. xs = us @ n # vs \<longrightarrow> dlist (list_del n m) h (us @ vs))"
  using list_add_tail_dlist(1) [OF assms] list_del_dlist(1) [of "list_add_tail new h m" h xs new "[]"] list_del_dlist(1) assms(1)
  by auto

theorem list_refines_sequence_witness:
  "dlist (list_add_tail 0x2000 0x1000 (list_init 0x1000 (\<lambda>_. 0))) 0x1000 [0x2000]"
proof -
  have "dlist (list_init 0x1000 (\<lambda>_. 0)) 0x1000 []" by (rule list_init_dlist) (simp add: aligned_def)
  from list_refines_sequence [OF this, of "0x2000"] show ?thesis by (simp add: nodes_ok_def aligned_def)
qed

end
