(* ===== verification/Slab.thy ===== *)
theory Slab
  imports Listh Process
begin

text \<open>
  The slab allocator, \<open>kernel/mm/slab/slab.c\<close>, and the size-class allocator on top of it,
  \<open>kernel/mm/kmalloc.c\<close>, over raw memory. Structures are given by the offsets of their fields.
\<close>

unbundle bit_operations_syntax

section \<open>State and layout\<close>

text \<open>
  \<open>slab_list\<close> is the address of \<open>slab_cache.cache_list\<close>, \<open>kmalloc_name\<close> the address of the string
  literal that \<open>kmalloc_cache_init\<close> passes as a name.
\<close>

record slab_state = kern +
  slab_list :: u64
  slab_cache_init :: bool
  kmalloc_caches :: "nat \<Rightarrow> u64"
  kmalloc_ready :: bool
  kmalloc_name :: u64

text \<open>
  \<open>struct kmem_slab\<close>, 48 bytes at the end of its page, with \<open>mem\<close> as its first field, and
  \<open>struct kmem_cache\<close>.
\<close>

abbreviation total_objs :: "u64 \<Rightarrow> u64" where "total_objs sl \<equiv> sl + 8"
abbreviation free_objs :: "u64 \<Rightarrow> u64" where "free_objs sl \<equiv> sl + 12"
abbreviation slab_owner :: "u64 \<Rightarrow> u64" where "slab_owner sl \<equiv> sl + 16"
abbreviation freelist :: "u64 \<Rightarrow> u64" where "freelist sl \<equiv> sl + 24"
abbreviation slab_node :: "u64 \<Rightarrow> u64" where "slab_node sl \<equiv> sl + 32"

abbreviation obj_size :: "u64 \<Rightarrow> u64" where "obj_size cp \<equiv> cp + 32"
abbreviation total_size :: "u64 \<Rightarrow> u64" where "total_size cp \<equiv> cp + 48"
abbreviation cache_align :: "u64 \<Rightarrow> u64" where "cache_align cp \<equiv> cp + 56"
abbreviation constructor :: "u64 \<Rightarrow> u64" where "constructor cp \<equiv> cp + 88"
abbreviation destructor :: "u64 \<Rightarrow> u64" where "destructor cp \<equiv> cp + 96"
abbreviation slabs_full :: "u64 \<Rightarrow> u64" where "slabs_full cp \<equiv> cp + 104"
abbreviation slabs_partial :: "u64 \<Rightarrow> u64" where "slabs_partial cp \<equiv> cp + 120"
abbreviation slabs_empty :: "u64 \<Rightarrow> u64" where "slabs_empty cp \<equiv> cp + 136"
abbreviation cache_list :: "u64 \<Rightarrow> u64" where "cache_list cp \<equiv> cp + 152"

abbreviation SLAB_SIZE :: u64 where "SLAB_SIZE \<equiv> 48"

definition page_slab :: "u64 \<Rightarrow> u64" where
  "page_slab a = (a OR 0xfff) + 1 - SLAB_SIZE"

definition upd_mem :: "(memory \<Rightarrow> memory) \<Rightarrow> 'a machine_scheme \<Rightarrow> 'a machine_scheme" where
  "upd_mem f s = s\<lparr>mem := f (mem s)\<rparr>"

abbreviation st64 :: "u64 \<Rightarrow> u64 \<Rightarrow> memory \<Rightarrow> memory" where "st64 a v m \<equiv> store64 m a v"
abbreviation st32 :: "u64 \<Rightarrow> u32 \<Rightarrow> memory \<Rightarrow> memory" where "st32 a v m \<equiv> store32 m a v"

text \<open>
  Constructors and destructors are called through function pointers: \<open>call f a n\<close> is the call of
  the function at \<open>f\<close> with the object and its size.
\<close>

type_synonym 's call = "u64 \<Rightarrow> u64 \<Rightarrow> u64 \<Rightarrow> 's \<Rightarrow> 's outcome"

section \<open>slab.c\<close>

definition is_power_of_two :: "u64 \<Rightarrow> bool" where
  "is_power_of_two x \<longleftrightarrow> x \<noteq> 0 \<and> x AND (x - 1) = 0"

definition slab_init :: "'a slab_state_scheme \<Rightarrow> 'a slab_state_scheme" where
  "slab_init s =
     (if slab_cache_init s then s
      else (initlock_held SlabCacheLock (upd_mem (list_init (slab_list s)) s))\<lparr>slab_cache_init := True\<rparr>)"

definition kmem_cache_create ::
  "u64 \<Rightarrow> u64 \<Rightarrow> int \<Rightarrow> u64 \<Rightarrow> u64 \<Rightarrow> 'a slab_state_scheme \<Rightarrow> (u64 \<times> 'a slab_state_scheme) outcome" where
  "kmem_cache_create name sz align ctor dtor s =
     bnd (kalloc s) (\<lambda>(cache, s).
     if cache = 0 then Ok (0, s)
     else
       let sz = (if sz < 8 then 8 else sz) in
       if align \<noteq> 0 \<and> \<not> is_power_of_two (word_of_int align) then
         bnd (kfree cache s) (\<lambda>s. Ok (0, s))
       else
         let align = (if align = 0 then 8 else align);
             sz = ALIGN_UP sz (word_of_int align);
             s = upd_mem (st64 (obj_size cache) sz) s;
             s = upd_mem (st32 (cache_align cache) (word_of_int align)) s;
             s = upd_mem (st64 (constructor cache) ctor) s;
             s = upd_mem (st64 (destructor cache) dtor) s;
             s = upd_mem (st64 (total_size cache) 0) s;
             s = upd_mem (\<lambda>m. strncpy m cache name 31) s;
             s = upd_mem (\<lambda>m. m(cache + 31 := 0)) s;
             s = initlock_held (CacheLock cache) s;
             s = upd_mem (list_init (cache_list cache)) s;
             s = upd_mem (list_init (slabs_full cache)) s;
             s = upd_mem (list_init (slabs_partial cache)) s;
             s = upd_mem (list_init (slabs_empty cache)) s
         in bnd (acquire SlabCacheLock s) (\<lambda>s.
            let s = upd_mem (list_add_tail (cache_list cache) (slab_list s)) s in
            bnd (release SlabCacheLock s) (\<lambda>s. Ok (cache, s))))"

text \<open>The loop of \<open>kmem_cache_grow\<close> that links the objects of the page, with the current head.\<close>

fun grow_loop ::
  "'a slab_state_scheme call \<Rightarrow> u64 \<Rightarrow> u64 \<Rightarrow> nat list \<Rightarrow> u64 \<Rightarrow> 'a slab_state_scheme \<Rightarrow>
    (u64 \<times> 'a slab_state_scheme) outcome" where
  "grow_loop call cp p [] head s = Ok (head, s)"
| "grow_loop call cp p (i # is) head s =
     (let sz = load64 (mem s) (obj_size cp); node = p + of_nat i * sz; ctor = load64 (mem s) (constructor cp) in
      bnd (if ctor \<noteq> 0 then call ctor node sz s else Ok s) (\<lambda>s.
      grow_loop call cp p is node (upd_mem (st64 node head) s)))"

definition kmem_cache_grow ::
  "'a slab_state_scheme call \<Rightarrow> u64 \<Rightarrow> 'a slab_state_scheme \<Rightarrow> (int \<times> 'a slab_state_scheme) outcome" where
  "kmem_cache_grow call cp s =
     bnd (kalloc s) (\<lambda>(new_space, s).
     if new_space = 0 then Ok (0, s)
     else
       let slab = page_slab new_space;
           s = upd_mem (list_init (slab_node slab)) s;
           s = upd_mem (st64 slab new_space) s;
           s = upd_mem (st64 (slab_owner slab) cp) s;
           sz = load64 (mem s) (obj_size cp)
       in if sz = 0 then Fault ''kmem_cache_grow: zero divisor''
       else
         let total = (ucast ((PGSIZE - SLAB_SIZE) div sz) :: u32);
             s = upd_mem (st32 (total_objs slab) total) s
         in if total = 0 then bnd (kfree new_space s) (\<lambda>s. Ok (0, s))
         else
           let s = upd_mem (st32 (free_objs slab) total) s in
           bnd (grow_loop call cp new_space [0..<unat total] 0 s) (\<lambda>(head, s).
           let s = upd_mem (st64 (freelist slab) head) s in
           bnd (acquire (CacheLock cp) s) (\<lambda>s.
           let s = upd_mem (\<lambda>m. store64 m (total_size cp) (load64 m (total_size cp) + PGSIZE)) s;
               s = upd_mem (list_add_tail (slab_node slab) (slabs_empty cp)) s
           in bnd (release (CacheLock cp) s) (\<lambda>s. Ok (4096, s)))))"

text \<open>The loops of \<open>kmem_cache_reap\<close> and \<open>kmem_cache_destroy\<close> that call the destructor.\<close>

definition destruct_objs ::
  "'a slab_state_scheme call \<Rightarrow> u64 \<Rightarrow> u64 \<Rightarrow> u64 \<Rightarrow> 'a slab_state_scheme \<Rightarrow> 'a slab_state_scheme outcome" where
  "destruct_objs call cp slab p s =
     bnd (for_each (\<lambda>i s.
       let dtor = load64 (mem s) (destructor cp); sz = load64 (mem s) (obj_size cp) in
       bnd (if dtor \<noteq> 0 then call dtor (p + of_nat i * sz) sz s else Ok s) (\<lambda>s. Ok (None :: unit option, s)))
       [0..<unat (load32 (mem s) (total_objs slab))] s)
     (\<lambda>(_, s). Ok s)"

definition kmem_cache_reap ::
  "'a slab_state_scheme call \<Rightarrow> u64 \<Rightarrow> 'a slab_state_scheme \<Rightarrow> (int \<times> 'a slab_state_scheme) outcome" where
  "kmem_cache_reap call cp s =
     (if cp = 0 then Ok (- 1, s)
      else bnd (acquire (CacheLock cp) s) (\<lambda>s.
        if list_is_empty (slabs_empty cp) (mem s) then bnd (release (CacheLock cp) s) (\<lambda>s. Ok (- 1, s))
        else
          let slab = list_first (slabs_empty cp) (mem s) - 32 in
          if load32 (mem s) (free_objs slab) \<noteq> load32 (mem s) (total_objs slab)
          then bnd (release (CacheLock cp) s) (\<lambda>s. Ok (- 1, s))
          else
            let s = upd_mem (list_del (slab_node slab)) s;
                p = load64 (mem s) slab;
                s = upd_mem (\<lambda>m. store64 m (total_size cp) (load64 m (total_size cp) - PGSIZE)) s
            in bnd (release (CacheLock cp) s) (\<lambda>s.
               bnd (destruct_objs call cp slab p s) (\<lambda>s.
               bnd (kfree p s) (\<lambda>s. Ok (0, s))))))"

text \<open>
  The loop of \<open>kmem_cache_alloc\<close> that looks for a slab, with \<open>cp->lock\<close> held: \<open>None\<close> when the
  function returns 0 from inside the loop. The first argument bounds the number of passes. A pass
  that grows the cache leaves an empty slab behind, so a cache that no other CPU uses needs two.
\<close>

fun find_slab ::
  "nat \<Rightarrow> 'a slab_state_scheme call \<Rightarrow> u64 \<Rightarrow> int \<Rightarrow> 'a slab_state_scheme \<Rightarrow>
    (u64 option \<times> 'a slab_state_scheme) outcome" where
  "find_slab 0 call cp flags s = Fault ''kmem_cache_alloc: no progress''"
| "find_slab (Suc n) call cp flags s =
     (if \<not> list_is_empty (slabs_partial cp) (mem s) then
        Ok (Some (list_first (slabs_partial cp) (mem s) - 32), s)
      else if \<not> list_is_empty (slabs_empty cp) (mem s) then
        Ok (Some (list_first (slabs_empty cp) (mem s) - 32), s)
      else bnd (release (CacheLock cp) s) (\<lambda>s.
        if flags = 1 then Ok (None, s)
        else bnd (kmem_cache_grow call cp s) (\<lambda>(r, s).
          if r = 0 then Ok (None, s)
          else bnd (acquire (CacheLock cp) s) (find_slab n call cp flags))))"

text \<open>Taking the first free object of a slab, and the list the slab goes to.\<close>

definition take_obj :: "u64 \<Rightarrow> u64 \<Rightarrow> memory \<Rightarrow> u64 \<times> memory" where
  "take_obj cp slab m =
     (let node = load64 m (freelist slab);
          m = store64 m (freelist slab) (load64 m node);
          was_empty = (load32 m (free_objs slab) = load32 m (total_objs slab));
          m = store32 m (free_objs slab) (load32 m (free_objs slab) - 1)
      in (node,
          if was_empty then
            if load32 m (free_objs slab) \<noteq> 0
            then list_add_tail (slab_node slab) (slabs_partial cp) (list_del (slab_node slab) m)
            else list_add_tail (slab_node slab) (slabs_full cp) (list_del (slab_node slab) m)
          else if load32 m (free_objs slab) = 0
          then list_add_tail (slab_node slab) (slabs_full cp) (list_del (slab_node slab) m)
          else m))"

definition kmem_cache_alloc ::
  "'a slab_state_scheme call \<Rightarrow> u64 \<Rightarrow> int \<Rightarrow> 'a slab_state_scheme \<Rightarrow> (u64 \<times> 'a slab_state_scheme) outcome" where
  "kmem_cache_alloc call cp flags s =
     (if cp = 0 then Ok (0, s)
      else bnd (acquire (CacheLock cp) s) (\<lambda>s.
        bnd (find_slab 2 call cp flags s) (\<lambda>(r, s).
        case r of None \<Rightarrow> Ok (0, s)
        | Some slab \<Rightarrow>
            if load32 (mem s) (free_objs slab) = 0 then bnd (release (CacheLock cp) s) (\<lambda>s. Ok (0, s))
            else
              let (ret, m) = take_obj cp slab (mem s)
              in bnd (release (CacheLock cp) (s\<lparr>mem := m\<rparr>)) (\<lambda>s. Ok (ret, s)))))"

text \<open>
  The search for \<open>buf\<close> in the free list of its slab. The first argument bounds the length of the
  list; a page holds at most 506 objects.
\<close>

fun on_freelist :: "nat \<Rightarrow> memory \<Rightarrow> u64 \<Rightarrow> u64 \<Rightarrow> bool outcome" where
  "on_freelist 0 m tmp buf = Fault ''kmem_cache_free: free list does not end''"
| "on_freelist (Suc n) m tmp buf =
     (if tmp = 0 then Ok False else if tmp = buf then Ok True else on_freelist n m (load64 m tmp) buf)"

text \<open>Putting an object back, after its slab's count of free objects has been raised.\<close>

definition put_obj :: "u64 \<Rightarrow> u64 \<Rightarrow> u64 \<Rightarrow> bool \<Rightarrow> memory \<Rightarrow> memory" where
  "put_obj cp slab buf was_full m =
     (let m = store64 m buf (load64 m (freelist slab));
          m = store64 m (freelist slab) buf
      in if load32 m (free_objs slab) = load32 m (total_objs slab)
         then list_add_tail (slab_node slab) (slabs_empty cp) (list_del (slab_node slab) m)
         else if was_full
         then list_add_tail (slab_node slab) (slabs_partial cp) (list_del (slab_node slab) m)
         else m)"

definition kmem_cache_free :: "u64 \<Rightarrow> u64 \<Rightarrow> 'a slab_state_scheme \<Rightarrow> 'a slab_state_scheme outcome" where
  "kmem_cache_free cp buf s =
     (if cp = 0 \<or> buf = 0 then Ok s
      else bnd (acquire (CacheLock cp) s) (\<lambda>s.
        let slab = page_slab buf; base = load64 (mem s) slab in
        if buf < base \<or> buf \<ge> base + PGSIZE then Panic ''kmem_cache_free: buf is not in slab''
        else bnd (on_freelist 507 (mem s) (load64 (mem s) (freelist slab)) buf) (\<lambda>found.
          if found then release (CacheLock cp) s
          else
            let was_full = (load32 (mem s) (free_objs slab) = 0);
                m = store32 (mem s) (free_objs slab) (load32 (mem s) (free_objs slab) + 1)
            in if load32 m (free_objs slab) > load32 m (total_objs slab)
               then Panic ''kmem_cache_free: slab->free_objs > slab->total_objs''
               else release (CacheLock cp) (s\<lparr>mem := put_obj cp slab buf was_full m\<rparr>))))"

text \<open>The loop of \<open>kmem_cache_destroy\<close> over the empty slabs; the first argument bounds their number.\<close>

fun destroy_loop ::
  "nat \<Rightarrow> 'a slab_state_scheme call \<Rightarrow> u64 \<Rightarrow> 'a slab_state_scheme \<Rightarrow> 'a slab_state_scheme outcome" where
  "destroy_loop 0 call cp s = Fault ''kmem_cache_destroy: too many slabs''"
| "destroy_loop (Suc n) call cp s =
     bnd (acquire (CacheLock cp) s) (\<lambda>s.
     if list_is_empty (slabs_empty cp) (mem s) then release (CacheLock cp) s
     else
       let slab = list_first (slabs_empty cp) (mem s) - 32 in
       if load32 (mem s) (free_objs slab) \<noteq> load32 (mem s) (total_objs slab) then Panic ''destroy non-empty slab''
       else
         let p = load64 (mem s) slab; s = upd_mem (list_del (slab_node slab)) s in
         if load64 (mem s) (total_size cp) < PGSIZE then Panic ''kmem_cache_destroy: cp->total_size < PGSIZE''
         else
           let s = upd_mem (\<lambda>m. store64 m (total_size cp) (load64 m (total_size cp) - PGSIZE)) s in
           bnd (release (CacheLock cp) s) (\<lambda>s.
           bnd (destruct_objs call cp slab (load64 (mem s) slab) s) (\<lambda>s.
           bnd (kfree p s) (destroy_loop n call cp))))"

definition kmem_cache_destroy ::
  "nat \<Rightarrow> 'a slab_state_scheme call \<Rightarrow> u64 \<Rightarrow> 'a slab_state_scheme \<Rightarrow> 'a slab_state_scheme outcome" where
  "kmem_cache_destroy n call cp s =
     (if cp = 0 then Ok s
      else bnd (acquire (CacheLock cp) s) (\<lambda>s.
        if \<not> list_is_empty (slabs_full cp) (mem s) \<or> \<not> list_is_empty (slabs_partial cp) (mem s)
        then release (CacheLock cp) s
        else bnd (release (CacheLock cp) s) (\<lambda>s.
          bnd (destroy_loop n call cp s) (\<lambda>s.
          bnd (acquire SlabCacheLock s) (\<lambda>s.
          bnd (release SlabCacheLock (upd_mem (list_del (cache_list cp)) s)) (kfree cp))))))"

section \<open>kmalloc.c\<close>

abbreviation KMALLOC_MAX_SLAB_SIZE :: u64 where "KMALLOC_MAX_SLAB_SIZE \<equiv> 2048"

definition kmalloc_cache_init :: "'a slab_state_scheme \<Rightarrow> (int \<times> 'a slab_state_scheme) outcome" where
  "kmalloc_cache_init s =
     (if kmalloc_ready s then Ok (0, s)
      else bnd (for_each (\<lambda>idx s.
          bnd (kmem_cache_create (kmalloc_name s) (push_bit idx 8) 0 0 0 s) (\<lambda>(cp, s).
          Ok (None :: unit option, s\<lparr>kmalloc_caches := (kmalloc_caches s)(idx := cp)\<rparr>))) [0..<9] s)
        (\<lambda>(_, s). Ok (0, s\<lparr>kmalloc_ready := True\<rparr>)))"

text \<open>The size class: the first \<open>idx\<close> for which \<open>8 << idx\<close> is not below the size.\<close>

definition size_class :: "u64 \<Rightarrow> nat option" where
  "size_class sz = find (\<lambda>idx. \<not> (push_bit idx 8 < sz)) [0..<9]"

definition kmalloc ::
  "'a slab_state_scheme call \<Rightarrow> u64 \<Rightarrow> 'a slab_state_scheme \<Rightarrow> (u64 \<times> 'a slab_state_scheme) outcome" where
  "kmalloc call sz s =
     bnd (if \<not> kmalloc_ready s then bnd (kmalloc_cache_init s) (\<lambda>(_, s). Ok s) else Ok s) (\<lambda>s.
     if sz \<le> KMALLOC_MAX_SLAB_SIZE then
       case size_class sz of
         None \<Rightarrow> Fault ''kmalloc_caches: index out of range''
       | Some idx \<Rightarrow>
           let cp = kmalloc_caches s idx in
           if cp = 0 then Ok (0, s)
           else bnd (kmem_cache_alloc call cp 0 s) (\<lambda>(p, s).
             if p = 0 then Ok (0, s)
             else Ok (p, upd_mem (\<lambda>m. memset m p 0 (2 ^ idx * 8)) s))
     else if sz \<le> PGSIZE - SLAB_SIZE then
       bnd (kalloc s) (\<lambda>(p, s).
       if p = 0 then Ok (0, s)
       else Ok (p, upd_mem (st64 (slab_owner (p + PGSIZE - SLAB_SIZE)) 0) s))
     else Ok (0, s))"

definition kmfree :: "u64 \<Rightarrow> 'a slab_state_scheme \<Rightarrow> 'a slab_state_scheme outcome" where
  "kmfree ptr s =
     (if ptr = 0 then Ok s
      else if ptr < kernel_end s then Panic ''kfree_any: bad pointer''
      else
        let slab = page_slab ptr; cache = load64 (mem s) (slab_owner slab) in
        if cache \<noteq> 0 then kmem_cache_free cache ptr s else kfree ptr s)"

end
