(* ===== verification/Slabinv.thy ===== *)
theory Slabinv
  imports Slab
begin

text \<open>
  The invariant of a slab cache: its three lists hold its slabs by the number of free objects, and
  the free list of every slab holds distinct objects of its page. Allocation takes an object off a
  free list, release puts it back.
\<close>

unbundle bit_operations_syntax

section \<open>Words and pages\<close>

lemma off_eq:
  assumes "aligned 12 a" "aligned 12 b" "i < 4096" "j < 4096"
  shows "a + i = b + j \<longleftrightarrow> a = b \<and> i = (j :: u64)"
proof -
  have "in_page a (a + i)" "in_page b (b + j)" using assms(3,4) by (simp_all add: in_page_def word_less_nat_alt)
  then show ?thesis using in_page_unique [OF assms(1,2), of "a + i"] by auto
qed

lemma off_eq_0:
  assumes "aligned 12 a" "aligned 12 b" "j < 4096"
  shows "a = b + j \<longleftrightarrow> a = b \<and> j = (0 :: u64)" "b + j = a \<longleftrightarrow> b = a \<and> j = (0 :: u64)"
  using off_eq [OF assms(1,2) _ assms(3), of 0] by auto

lemma aligned_off:
  assumes "aligned 12 a" "aligned 3 i"
  shows "aligned 3 (a + i)"
  by (rule aligned_add [OF _ aligned_weaken [OF assms(1)] assms(2)]) simp_all

lemma aligned_numeral: "aligned 3 (numeral n) \<longleftrightarrow> 8 dvd unat (numeral n :: u64)"
  by (simp add: aligned_def)

lemma load32_low: "load32 m a = ucast (load64 m a)"
  by (rule bit_word_eqI) (auto simp: load32_def load64_def bit_load_le bit_simps)

lemma load32_high: "load32 m (a + 4) = ucast (drop_bit 32 (load64 m a))"
proof (rule bit_word_eqI)
  fix n assume "n < LENGTH(32)"
  then have n: "n < 32" by simp
  have e: "(n + 32) div 8 = 4 + n div 8" "(n + 32) mod 8 = n mod 8" by presburger+
  show "bit (load32 m (a + 4)) n = bit (ucast (drop_bit 32 (load64 m a)) :: u32) n"
    using n by (simp add: load32_def load64_def bit_load_le bit_simps e ac_simps)
qed

text \<open>Memories that agree on all words but those at \<open>A\<close>.\<close>

definition same_but :: "u64 set \<Rightarrow> memory \<Rightarrow> memory \<Rightarrow> bool" where
  "same_but A m m' \<longleftrightarrow> (\<forall>a. aligned 3 a \<longrightarrow> a \<notin> A \<longrightarrow> load64 m' a = load64 m a)"

lemma same_butD: "same_but A m m' \<Longrightarrow> aligned 3 a \<Longrightarrow> a \<notin> A \<Longrightarrow> load64 m' a = load64 m a"
  by (simp add: same_but_def)

lemma same_but_trans: "same_but A m m1 \<Longrightarrow> same_but B m1 m2 \<Longrightarrow> same_but (A \<union> B) m m2"
  by (simp add: same_but_def)

lemma same_but_mono: "same_but A m m' \<Longrightarrow> A \<subseteq> B \<Longrightarrow> same_but B m m'"
  by (auto simp: same_but_def)

lemma same_but_store64: "aligned 3 a \<Longrightarrow> same_but {a} m (store64 m a v)"
  by (simp add: same_but_def load64_store64)

lemma store32_low:
  assumes "aligned 3 a"
  shows "same_but {a} m (store32 m (a + 4) v)" "load32 (store32 m (a + 4) v) a = load32 m a"
    "load32 (store32 m (a + 4) v) (a + 4) = v"
proof -
  have d: "unat (x - a) = unat (x - (a + 4)) + 4" if "unat (x - (a + 4)) < 4" for x
  proof -
    have "x - a = (x - (a + 4)) + of_nat 4" by simp
    then show ?thesis using unat_add_small [of "x - (a + 4)" 4] that by simp
  qed
  have r: "b = a" if "aligned 3 b" "i < 8" "unat (b + of_nat i - (a + 4)) < 4" for b i
  proof (rule ccontr)
    assume "b \<noteq> a"
    then have "\<not> unat (b + of_nat i - a) < 2 ^ 3"
      using that(2) by (intro aligned_ranges_disjoint [OF assms that(1)]) auto
    then show False using d [OF that(3)] that(3) by simp
  qed
  have r4: "4 \<le> i" if "i < 8" "unat (a + of_nat i - (a + 4)) < 4" for i
    using d [OF that(2)] unat_of_nat_small [of i, where 'a = 64] that(1) by simp
  show "same_but {a} m (store32 m (a + 4) v)"
    unfolding same_but_def load64_def store32_def
    using r by (intro allI impI load_le_cong) (auto simp: store_le_def)
  show "load32 (store32 m (a + 4) v) a = load32 m a"
    unfolding load32_def store32_def
  proof (rule load_le_cong)
    fix i :: nat assume "i < 4"
    then have "\<not> unat (a + of_nat i - (a + 4)) < 4" using r4 [of i] by auto
    then show "store_le 4 m (a + 4) v (a + of_nat i) = m (a + of_nat i)" by (simp add: store_le_def)
  qed
  show "load32 (store32 m (a + 4) v) (a + 4) = v"
    by (simp add: load32_def store32_def load_store_le_same)
qed

section \<open>Lists and slabs in memory\<close>

lemma dlist_frame:
  assumes "same_but A m m'" "nodes_ok (set (h # xs))" "\<And>x. x \<in> set (h # xs) \<Longrightarrow> x \<notin> A \<and> x + 8 \<notin> A"
  shows "dlist m' h xs \<longleftrightarrow> dlist m h xs"
proof -
  have "chain m' h xs h \<longleftrightarrow> chain m h xs h"
  proof (rule chain_cong)
    fix x assume x: "x \<in> set (h # xs)"
    show "load64 m' x = load64 m x" using same_butD [OF assms(1)] nodes_okD(1) [OF assms(2) x] assms(3) [OF x] by blast
  next
    fix x assume "x \<in> set (xs @ [h])"
    then have x: "x \<in> set (h # xs)" by auto
    show "load64 m' (x + 8) = load64 m (x + 8)"
      using same_butD [OF assms(1)] aligned_add_8 [OF nodes_okD(1) [OF assms(2) x]] assms(3) [OF x] by blast
  qed
  then show ?thesis by (simp add: dlist_def)
qed

lemma node_words_disjoint:
  assumes "\<And>y. y \<in> S \<Longrightarrow> x \<noteq> y \<and> x \<noteq> y + 8 \<and> x + 8 \<noteq> y + 8 \<and> x + 8 \<noteq> y"
  shows "(x :: u64) \<notin> (\<Union>y \<in> S. {y, y + 8}) \<and> x + 8 \<notin> (\<Union>y \<in> S. {y, y + 8})"
  using assms by fast

text \<open>Moving a node from one list to the end of another.\<close>

lemma dlist_move:
  assumes "dlist m h (us @ n # vs)" "dlist m h' ys" "nodes_ok (set (h # us @ n # vs) \<union> set (h' # ys))"
    "set (h # us @ n # vs) \<inter> set (h' # ys) = {}"
  defines "m' \<equiv> list_add_tail n h' (list_del n m)"
  shows "dlist m' h (us @ vs)" "dlist m' h' (ys @ [n])"
    "same_but (\<Union>x \<in> set (h # us @ n # vs) \<union> set (h' # ys). {x, x + 8}) m m'"
proof -
  define A where "A = (\<Union>x \<in> set (h # us @ n # vs). {x, x + 8})"
  define B where "B = (\<Union>x \<in> set (n # h' # ys). {x, x + 8})"
  note D = list_del_dlist [OF assms(1)]
  note N = nodes_okD [OF assms(3)]
  have sub: "nodes_ok X" if "X \<subseteq> set (h # us @ n # vs) \<union> set (h' # ys)" for X
    by (rule nodes_ok_mono [OF assms(3) that])
  have d1: "same_but A m (list_del n m)" using D(2) by (auto simp: same_but_def A_def)
  have disj: "x \<noteq> y \<and> x \<noteq> y + 8 \<and> x + 8 \<noteq> y + 8 \<and> x + 8 \<noteq> y"
    if "x \<in> set (h # us @ n # vs)" "y \<in> set (h' # ys)" for x y
  proof -
    have ne: "x \<noteq> y" using assms(4) that by auto
    note xy = UnI1 [OF that(1), of "set (h' # ys)"] UnI2 [OF that(2), of "set (h # us @ n # vs)"]
    have "y \<noteq> x + 8" "x \<noteq> y + 8" by (rule N(2) [OF xy(1) xy(2)], rule N(2) [OF xy(2) xy(1)])
    then show ?thesis using ne by (simp add: eq_commute)
  qed
  have l2: "dlist (list_del n m) h' ys"
  proof (rule dlist_frame [THEN iffD2, OF d1 _ _ assms(2)])
    show "nodes_ok (set (h' # ys))" by (rule sub) auto
    show "x \<notin> A \<and> x + 8 \<notin> A" if "x \<in> set (h' # ys)" for x
      unfolding A_def
    proof (rule node_words_disjoint)
      fix y assume "y \<in> set (h # us @ n # vs)"
      from disj [OF this that] show "x \<noteq> y \<and> x \<noteq> y + 8 \<and> x + 8 \<noteq> y + 8 \<and> x + 8 \<noteq> y" by metis
    qed
  qed
  have nn: "n \<notin> set (h' # ys)" using assms(4) by auto
  have N2: "nodes_ok (set (n # h' # ys))" by (rule sub) auto
  note E = list_add_tail_dlist [OF l2 nn N2, folded m'_def]
  show "dlist m' h' (ys @ [n])" by (rule E(1))
  have d2: "same_but B (list_del n m) m'" using E(2) by (auto simp: same_but_def B_def)
  show "dlist m' h (us @ vs)"
  proof (rule dlist_frame [THEN iffD2, OF d2 _ _ D(1)])
    show "nodes_ok (set (h # us @ vs))" by (rule sub) auto
    show "x \<notin> B \<and> x + 8 \<notin> B" if x: "x \<in> set (h # us @ vs)" for x
    proof -
      have xn: "x \<noteq> n" "x \<in> set (h # us @ n # vs)" "n \<in> set (h # us @ n # vs)" using x assms(1) by (auto simp: dlist_def)
      note xu = UnI1 [OF xn(2), of "set (h' # ys)"] UnI1 [OF xn(3), of "set (h' # ys)"]
      show ?thesis
        unfolding B_def
      proof (rule node_words_disjoint)
        fix y assume y: "y \<in> set (n # h' # ys)"
        show "x \<noteq> y \<and> x \<noteq> y + 8 \<and> x + 8 \<noteq> y + 8 \<and> x + 8 \<noteq> y"
        proof (cases "y = n")
          case True
          then show ?thesis using xn(1) N(2) [OF xu(2) xu(1)] N(2) [OF xu(1) xu(2)] by (metis add_right_cancel)
        next
          case False
          then have "y \<in> set (h' # ys)" using y by simp
          from disj [OF xn(2) this] show ?thesis .
        qed
      qed
    qed
  qed
  have "A \<union> B \<subseteq> (\<Union>x \<in> set (h # us @ n # vs) \<union> set (h' # ys). {x, x + 8})" unfolding A_def B_def by auto
  then show "same_but (\<Union>x \<in> set (h # us @ n # vs) \<union> set (h' # ys). {x, x + 8}) m m'"
    by (rule same_but_mono [OF same_but_trans [OF d1 d2]])
qed

text \<open>The null-terminated list of free objects.\<close>

fun objs :: "memory \<Rightarrow> u64 \<Rightarrow> u64 list \<Rightarrow> bool" where
  "objs m p [] \<longleftrightarrow> p = 0"
| "objs m p (x # xs) \<longleftrightarrow> p = x \<and> x \<noteq> 0 \<and> objs m (load64 m x) xs"

lemma objs_cong: "(\<And>x. x \<in> set xs \<Longrightarrow> load64 m' x = load64 m x) \<Longrightarrow> objs m' p xs = objs m p xs"
  by (induction xs arbitrary: p) auto

definition objects :: "nat \<Rightarrow> nat" where
  "objects z = 4048 div z"

definition obj_addrs :: "nat \<Rightarrow> u64 \<Rightarrow> u64 set" where
  "obj_addrs z b = (\<lambda>i. b + of_nat (i * z)) ` {..<objects z}"

text \<open>A slab in page \<open>b\<close> of the cache \<open>cp\<close> with objects of \<open>z\<close> bytes and the free objects \<open>os\<close>.\<close>

definition slab_ok :: "memory \<Rightarrow> u64 \<Rightarrow> nat \<Rightarrow> u64 \<Rightarrow> u64 list \<Rightarrow> bool" where
  "slab_ok m cp z b os \<longleftrightarrow>
     aligned 12 b \<and> b \<noteq> 0 \<and> unat b + 4096 < 2 ^ 64 \<and> load64 m (b + 4048) = b \<and> load64 m (b + 4064) = cp \<and>
     load32 m (b + 4056) = of_nat (objects z) \<and> load32 m (b + 4060) = of_nat (length os) \<and>
     objs m (load64 m (b + 4072)) os \<and> distinct os \<and> set os \<subseteq> obj_addrs z b"

definition node :: "u64 \<Rightarrow> u64" where
  "node b = b + 4080"

text \<open>
  The cache \<open>cp\<close>: for the offset \<open>k\<close> of each of its three list heads the pages \<open>L k\<close> of the slabs in
  list order, and the free objects \<open>fl b\<close> of page \<open>b\<close>.
\<close>

abbreviation FULL :: u64 where "FULL \<equiv> 104"
abbreviation PARTIAL :: u64 where "PARTIAL \<equiv> 120"
abbreviation EMPTY :: u64 where "EMPTY \<equiv> 136"

definition heads :: "u64 set" where
  "heads = {FULL, PARTIAL, EMPTY}"

definition cache_lists :: "memory \<Rightarrow> u64 \<Rightarrow> nat \<Rightarrow> (u64 \<Rightarrow> u64 list) \<Rightarrow> (u64 \<Rightarrow> u64 list) \<Rightarrow> bool" where
  "cache_lists m cp z L fl \<longleftrightarrow>
     aligned 12 cp \<and> cp \<noteq> 0 \<and> 8 dvd z \<and> 8 \<le> z \<and> z \<le> 4048 \<and> load64 m (cp + 32) = of_nat z \<and>
     (\<forall>k \<in> heads. dlist m (cp + k) (map node (L k)) \<and> cp \<notin> set (L k) \<and> (\<forall>b \<in> set (L k). slab_ok m cp z b (fl b))) \<and>
     (\<forall>k \<in> heads. \<forall>k' \<in> heads. k \<noteq> k' \<longrightarrow> set (L k) \<inter> set (L k') = {})"

definition cache_ok :: "memory \<Rightarrow> u64 \<Rightarrow> nat \<Rightarrow> (u64 \<Rightarrow> u64 list) \<Rightarrow> (u64 \<Rightarrow> u64 list) \<Rightarrow> bool" where
  "cache_ok m cp z L fl \<longleftrightarrow> cache_lists m cp z L fl \<and> (\<forall>b \<in> set (L FULL). fl b = []) \<and>
     (\<forall>b \<in> set (L PARTIAL). 0 < length (fl b) \<and> length (fl b) < objects z) \<and>
     (\<forall>b \<in> set (L EMPTY). length (fl b) = objects z)"

text \<open>The words of a slab page without the list node.\<close>

definition area :: "u64 \<Rightarrow> u64 set" where
  "area b = {a. unat (a - b) < 4080}"

lemma area_off: "aligned 12 a \<Longrightarrow> aligned 12 b \<Longrightarrow> i < 4096 \<Longrightarrow> a + i \<in> area b \<longleftrightarrow> a = b \<and> i < 4080"
proof -
  assume a: "aligned 12 a" "aligned 12 b" "i < 4096"
  show ?thesis
  proof
    assume l: "a + i \<in> area b"
    then have "a + i - b < 4096" by (simp add: area_def word_less_nat_alt)
    then have "a = b \<and> i = a + i - b" using off_eq [OF a(1,2,3), of "a + i - b"] by simp
    then show "a = b \<and> i < 4080" using l by (auto simp: area_def word_less_nat_alt)
  qed (auto simp: area_def word_less_nat_alt)
qed

lemma obj_addrs_area:
  assumes "z \<le> 4048" "8 dvd z" "aligned 12 b" "x \<in> obj_addrs z b"
  obtains i where "x = b + i" "i < 4048" "aligned 3 x"
proof -
  obtain j where j: "x = b + of_nat (j * z)" "j < 4048 div z" using assms(4) by (auto simp: obj_addrs_def objects_def)
  then have "z > 0" by (cases z) auto
  have "Suc j * z \<le> 4048" using j(2) by (metis Suc_leI div_times_less_eq_dividend le_trans mult_le_mono1)
  then have l: "j * z < 4048" using \<open>z > 0\<close> by simp
  then have u: "unat (of_nat (j * z) :: u64) = j * z" by (intro unat_of_nat_small) simp
  moreover have "aligned 3 (of_nat (j * z))" using u assms(2) by (simp add: aligned_def)
  ultimately show ?thesis using that j(1) l aligned_off [OF assms(3)] by (simp add: word_less_nat_alt)
qed

lemma slab_frame:
  assumes "same_but A m m'" "A \<inter> area b = {}" "slab_ok m cp z b os" "z \<le> 4048" "8 dvd z"
  shows "slab_ok m' cp z b os"
proof -
  have b: "aligned 12 b" using assms(3) by (simp add: slab_ok_def)
  have eq: "load64 m' (b + i) = load64 m (b + i)" if "i < 4080" "aligned 3 (b + i)" for i
    using same_butD [OF assms(1) that(2)] assms(2) area_off [OF b b, of i] that(1) by (auto simp: less_trans)
  have h: "load64 m' (b + i) = load64 m (b + i)" if "i \<in> {4048, 4056, 4064, 4072}" for i
    using that by (intro eq aligned_off [OF b]) (auto simp: aligned_def)
  have "load32 m' (b + 4056) = load32 m (b + 4056)" using h by (simp add: load32_low)
  moreover have "load32 m' (b + 4060) = load32 m (b + 4060)"
    using h [of 4056] load32_high [of m' "b + 4056"] load32_high [of m "b + 4056"] by (simp add: add.assoc)
  moreover have "load64 m' x = load64 m x" if "x \<in> set os" for x
  proof -
    have "x \<in> obj_addrs z b" using assms(3) that by (auto simp: slab_ok_def)
    from obj_addrs_area [OF assms(4,5) b this] obtain i where "x = b + i" "i < 4048" "aligned 3 x" .
    then show ?thesis using eq [of i] by (auto simp: less_trans)
  qed
  ultimately show ?thesis
    using assms(3) h objs_cong [of os m' m] by (simp add: slab_ok_def)
qed

lemma cache_listsD:
  assumes "cache_lists m cp z L fl"
  shows "aligned 12 cp" "z \<le> 4048" "8 dvd z" "8 \<le> z" "load64 m (cp + 32) = of_nat z" "cp \<noteq> 0"
    "\<And>k. k \<in> heads \<Longrightarrow> dlist m (cp + k) (map node (L k))" "\<And>k. k \<in> heads \<Longrightarrow> cp \<notin> set (L k)"
    "\<And>k b. k \<in> heads \<Longrightarrow> b \<in> set (L k) \<Longrightarrow> slab_ok m cp z b (fl b)"
    "\<And>k k'. k \<in> heads \<Longrightarrow> k' \<in> heads \<Longrightarrow> k \<noteq> k' \<Longrightarrow> set (L k) \<inter> set (L k') = {}"
  using assms unfolding cache_lists_def by blast+

definition list_nodes :: "u64 \<Rightarrow> (u64 \<Rightarrow> u64 list) \<Rightarrow> u64 set" where
  "list_nodes cp L = (\<Union>k \<in> heads. insert (cp + k) (node ` set (L k)))"

lemma heads_small: "k \<in> heads \<Longrightarrow> k < 256 \<and> aligned 3 k \<and> (\<forall>k' \<in> heads. k' \<noteq> k + 8) \<and> k \<noteq> 32 \<and> k + 8 \<noteq> 32"
  by (auto simp: heads_def aligned_def)

lemma list_nodes_cases:
  assumes "cache_lists m cp z L fl" "x \<in> list_nodes cp L"
  obtains c i where "x = c + i" "aligned 12 c" "c = cp \<and> i \<in> heads \<or> c \<noteq> cp \<and> i = 4080"
proof -
  note D = cache_listsD [OF assms(1)]
  from assms(2) consider k where "k \<in> heads" "x = cp + k" | k b where "k \<in> heads" "b \<in> set (L k)" "x = node b"
    by (auto simp: list_nodes_def)
  then show ?thesis
  proof cases
    case 1
    then show ?thesis using that D(1) by blast
  next
    case 2
    then have "aligned 12 b" "b \<noteq> cp" using D(8,9) by (auto simp: slab_ok_def)
    then show ?thesis using that [of b 4080] 2 by (simp add: node_def)
  qed
qed

lemma off_small:
  assumes "c = cp \<and> i \<in> heads \<or> c \<noteq> cp \<and> i = 4080"
  shows "i < 4096" "i + 8 < 4096" "aligned 3 i"
  using assms by (auto simp: heads_def aligned_def)

lemma nodes_ok_list_nodes: "cache_lists m cp z L fl \<Longrightarrow> nodes_ok (list_nodes cp L)"
  unfolding nodes_ok_def
proof (intro ballI conjI)
  fix x assume c: "cache_lists m cp z L fl" and x: "x \<in> list_nodes cp L"
  obtain c i where xi: "x = c + i" "aligned 12 c" "c = cp \<and> i \<in> heads \<or> c \<noteq> cp \<and> i = 4080"
    using list_nodes_cases [OF c x] .
  show "aligned 3 x" using xi off_small(3) [OF xi(3)] aligned_off by simp
  fix y assume "y \<in> list_nodes cp L"
  then obtain d j where yj: "y = d + j" "aligned 12 d" "d = cp \<and> j \<in> heads \<or> d \<noteq> cp \<and> j = 4080"
    using list_nodes_cases [OF c] by metis
  have "d + j = c + (i + 8) \<longleftrightarrow> d = c \<and> j = i + 8"
    using off_eq [OF yj(2) xi(2) off_small(1) [OF yj(3)] off_small(2) [OF xi(3)]] .
  then show "y \<noteq> x + 8" using xi yj heads_small by (auto simp: add.assoc)
qed

text \<open>The words of the list nodes are apart from the rest of the slabs and from the object size.\<close>

lemma node_apart:
  assumes "aligned 12 cp" "x = c + i" "aligned 12 c" "c = cp \<and> i \<in> heads \<or> c \<noteq> cp \<and> i = 4080" "aligned 12 b" "b \<noteq> cp"
  shows "x \<notin> area b \<and> x + 8 \<notin> area b \<and> cp + 32 \<noteq> x \<and> cp + 32 \<noteq> x + 8"
proof -
  note S = off_small [OF assms(4)]
  have "c + i \<in> area b \<longleftrightarrow> c = b \<and> i < 4080" "c + (i + 8) \<in> area b \<longleftrightarrow> c = b \<and> i + 8 < 4080"
    by (rule area_off [OF assms(3,5) S(1)], rule area_off [OF assms(3,5) S(2)])
  moreover have "cp + 32 = c + i \<longleftrightarrow> cp = c \<and> 32 = i" "cp + 32 = c + (i + 8) \<longleftrightarrow> cp = c \<and> 32 = i + 8"
    by (rule off_eq [OF assms(1,3) _ S(1)], simp, rule off_eq [OF assms(1,3) _ S(2)], simp)
  ultimately show ?thesis using assms(2,4,6) heads_small [of i] by (auto simp: add.assoc)
qed

lemma list_words_disjoint:
  assumes "cache_lists m cp z L fl" "k \<in> heads" "b \<in> set (L k)"
  shows "(\<Union>x \<in> list_nodes cp L. {x, x + 8}) \<inter> area b = {}" "cp + 32 \<notin> (\<Union>x \<in> list_nodes cp L. {x, x + 8})"
proof -
  have b: "aligned 12 b" "b \<noteq> cp" using cache_listsD(8,9) [OF assms(1,2)] assms(3) by (auto simp: slab_ok_def)
  have "x \<notin> area b \<and> x + 8 \<notin> area b \<and> cp + 32 \<noteq> x \<and> cp + 32 \<noteq> x + 8" if xin: "x \<in> list_nodes cp L" for x
  proof -
    obtain c i where xi: "x = c + i" "aligned 12 c" "c = cp \<and> i \<in> heads \<or> c \<noteq> cp \<and> i = 4080"
      using list_nodes_cases [OF assms(1) xin] .
    show ?thesis by (rule node_apart [OF cache_listsD(1) [OF assms(1)] xi b])
  qed
  then show "(\<Union>x \<in> list_nodes cp L. {x, x + 8}) \<inter> area b = {}" "cp + 32 \<notin> (\<Union>x \<in> list_nodes cp L. {x, x + 8})" by fast+
qed

section \<open>Steps of the allocator\<close>

lemma list_sets_disjoint:
  assumes c: "cache_lists m cp z L fl" and k: "k \<in> heads" "k' \<in> heads" "k \<noteq> k'"
  shows "set ((cp + k) # map node (L k)) \<inter> set ((cp + k') # map node (L k')) = {}"
proof -
  note D = cache_listsD [OF c]
  have al: "aligned 12 x" "x \<noteq> cp" if "x \<in> set (L k) \<union> set (L k')" for x
    using that D(8,9) k by (auto simp: slab_ok_def)
  have "node x \<noteq> node y" if "x \<in> set (L k)" "y \<in> set (L k')" for x y
    using D(10) [OF k] that by (auto simp: node_def)
  moreover have "cp + j \<noteq> node x" if "x \<in> set (L k) \<union> set (L k')" "j \<in> heads" for x j
  proof -
    have "cp + j = x + 4080 \<longleftrightarrow> cp = x \<and> j = 4080"
      using off_eq [OF D(1) al(1) [OF that(1)], of j 4080] heads_small [OF that(2)] less_trans [of j 256 4096] by simp
    then show ?thesis using al(2) [OF that(1)] by (auto simp: node_def)
  qed
  ultimately show ?thesis using k by fastforce
qed

lemma nodes_apart:
  assumes "nodes_ok A" "x \<in> A" "S \<subseteq> A" "x \<notin> S"
  shows "x \<notin> (\<Union>y \<in> S. {y, y + 8}) \<and> x + 8 \<notin> (\<Union>y \<in> S. {y, y + 8})"
proof (rule node_words_disjoint)
  fix y assume "y \<in> S"
  then have y: "y \<in> A" "x \<noteq> y" using assms(3,4) by auto
  show "x \<noteq> y \<and> x \<noteq> y + 8 \<and> x + 8 \<noteq> y + 8 \<and> x + 8 \<noteq> y"
    using y(2) nodes_okD(2) [OF assms(1,2) y(1)] nodes_okD(2) [OF assms(1) y(1) assms(2)] by (metis add_right_cancel)
qed

lemma move_disjoint:
  assumes "\<And>i j. i \<in> H \<Longrightarrow> j \<in> H \<Longrightarrow> i \<noteq> j \<Longrightarrow> A i \<inter> A j = {}" "k \<in> H" "k' \<in> H" "k \<noteq> k'" "b \<in> A k"
  defines "B \<equiv> \<lambda>j. if j = k then A k - {b} else if j = k' then insert b (A k') else A j"
  assumes "i \<in> H" "j \<in> H" "i \<noteq> j"
  shows "B i \<inter> B j = {}"
proof -
  have "b \<notin> A l" if "l \<in> H" "l \<noteq> k" for l using assms(1) [OF assms(2) that(1)] that(2) assms(5) by blast
  then show ?thesis
    using assms(1) [OF assms(7,8,9)] assms(4,7-9) unfolding B_def by (cases "i = k"; cases "j = k"; cases "i = k'"; cases "j = k'") auto
qed

text \<open>Moving a slab from one list of the cache to the end of another.\<close>

lemma cache_move:
  assumes c: "cache_lists m cp z L fl" and k: "k \<in> heads" "k' \<in> heads" "k \<noteq> k'" and L: "L k = us @ b # vs"
  defines "m' \<equiv> list_add_tail (node b) (cp + k') (list_del (node b) m)"
  shows "cache_lists m' cp z (L(k := us @ vs, k' := L k' @ [b])) fl"
    "same_but (\<Union>x \<in> list_nodes cp L. {x, x + 8}) m m'"
proof -
  note D = cache_listsD [OF c]
  let ?S = "set ((cp + k) # map node us @ node b # map node vs) \<union> set ((cp + k') # map node (L k'))"
  note NN = nodes_ok_list_nodes [OF c]
  have d: "dlist m (cp + k) (map node us @ node b # map node vs)" "dlist m (cp + k') (map node (L k'))"
    using D(7) [OF k(1)] D(7) [OF k(2)] L by simp_all
  have Lk: "set ((cp + k) # map node us @ node b # map node vs) = set ((cp + k) # map node (L k))" by (simp add: L)
  have sub: "?S \<subseteq> list_nodes cp L" unfolding Lk using k by (auto simp: list_nodes_def)
  note M = dlist_move [OF d nodes_ok_mono [OF NN sub] list_sets_disjoint [OF c k, folded Lk], folded m'_def]
  show sb: "same_but (\<Union>x \<in> list_nodes cp L. {x, x + 8}) m m'" by (rule same_but_mono [OF M(3) UN_mono [OF sub]]) simp
  have others: "dlist m' (cp + j) (map node (L j))" if j: "j \<in> heads" "j \<noteq> k" "j \<noteq> k'" for j
  proof (rule dlist_frame [THEN iffD2, OF M(3) _ _ D(7) [OF j(1)]])
    have sj: "set ((cp + j) # map node (L j)) \<subseteq> list_nodes cp L" using j by (auto simp: list_nodes_def)
    show "nodes_ok (set ((cp + j) # map node (L j)))" by (rule nodes_ok_mono [OF NN sj])
    fix x assume x: "x \<in> set ((cp + j) # map node (L j))"
    then have "x \<notin> ?S"
      unfolding Lk using list_sets_disjoint [OF c j(1) k(1) j(2)] list_sets_disjoint [OF c j(1) k(2) j(3)] by blast
    then show "x \<notin> (\<Union>y \<in> ?S. {y, y + 8}) \<and> x + 8 \<notin> (\<Union>y \<in> ?S. {y, y + 8})"
      using nodes_apart [OF NN subsetD [OF sj x] sub] by blast
  qed
  have slabs: "slab_ok m' cp z x (fl x)" if "j \<in> heads" "x \<in> set (L j)" for j x
    by (rule slab_frame [OF sb list_words_disjoint(1) [OF c that] D(9) [OF that] D(2,3)])
  have bL: "b \<in> set (L k)" using L by simp
  have "load64 m' (cp + 32) = of_nat z"
    using same_butD [OF sb _ list_words_disjoint(2) [OF c k(1) bL]] aligned_off [OF D(1), of 32] D(5) by (simp add: aligned_def)
  moreover have "dlist m' (cp + j) (map node ((L(k := us @ vs, k' := L k' @ [b])) j))" if "j \<in> heads" for j
    using M(1,2) others [OF that] k(3) by (auto simp: L)
  moreover have "distinct (L k)" using d(1) distinct_map [of node "L k"] by (auto simp: dlist_def L)
  then have "b \<notin> set (us @ vs)" by (simp add: L)
  then have set': "set ((L(k := us @ vs, k' := L k' @ [b])) j) = (if j = k then set (L k) - {b} else if j = k' then insert b (set (L k')) else set (L j))" for j
    using k(3) by (auto simp: L)
  have "set ((L(k := us @ vs, k' := L k' @ [b])) j) \<inter> set ((L(k := us @ vs, k' := L k' @ [b])) j') = {}"
    if "j \<in> heads" "j' \<in> heads" "j \<noteq> j'" for j j'
    unfolding set' by (rule move_disjoint [where A = "\<lambda>j. set (L j)", OF D(10) k bL that])
  moreover have "cp \<notin> set ((L(k := us @ vs, k' := L k' @ [b])) j) \<and> (\<forall>x \<in> set ((L(k := us @ vs, k' := L k' @ [b])) j). slab_ok m' cp z x (fl x))"
    if "j \<in> heads" for j
    unfolding set' using that k bL D(8) slabs by (auto split: if_splits)
  ultimately show "cache_lists m' cp z (L(k := us @ vs, k' := L k' @ [b])) fl"
    unfolding cache_lists_def using D(1-4,6) by blast
qed

text \<open>A change inside one slab.\<close>

lemma cache_update:
  assumes c: "cache_lists m cp z L fl" and b: "k \<in> heads" "b \<in> set (L k)"
    and sb: "same_but A m m'" "A \<subseteq> area b" and ok: "slab_ok m' cp z b os"
  shows "cache_lists m' cp z L (fl(b := os))"
proof -
  note D = cache_listsD [OF c]
  note W = list_words_disjoint [OF c b]
  have al: "aligned 12 b" "b \<noteq> cp" using D(8,9) b by (auto simp: slab_ok_def)
  have "dlist m' (cp + j) (map node (L j))" if j: "j \<in> heads" for j
  proof (rule dlist_frame [THEN iffD2, OF sb(1) _ _ D(7) [OF j]])
    have sj: "set ((cp + j) # map node (L j)) \<subseteq> list_nodes cp L" using j by (auto simp: list_nodes_def)
    show "nodes_ok (set ((cp + j) # map node (L j)))" by (rule nodes_ok_mono [OF nodes_ok_list_nodes [OF c] sj])
    show "x \<notin> A \<and> x + 8 \<notin> A" if "x \<in> set ((cp + j) # map node (L j))" for x
      using W(1) sb(2) subsetD [OF sj that] by blast
  qed
  moreover have "slab_ok m' cp z x ((fl(b := os)) x)" if j: "j \<in> heads" "x \<in> set (L j)" for j x
  proof (cases "x = b")
    case True
    then show ?thesis using ok by simp
  next
    case False
    have x: "aligned 12 x" using D(9) [OF j] by (simp add: slab_ok_def)
    have "a \<notin> area x" if a: "a \<in> area b" for a
    proof -
      have "a - b < 4096" using a by (simp add: area_def word_less_nat_alt)
      from area_off [OF al(1) x this] show ?thesis using False by auto
    qed
    then have "A \<inter> area x = {}" using sb(2) by blast
    then show ?thesis using slab_frame [OF sb(1) _ D(9) [OF j] D(2,3)] False by simp
  qed
  moreover have "load64 m' (cp + 32) = of_nat z"
  proof -
    have "cp + 32 \<notin> area b" using area_off [OF D(1) al(1), of 32] al(2) by simp
    then show ?thesis
      using same_butD [OF sb(1), of "cp + 32"] sb(2) aligned_off [OF D(1), of 32] D(5) by (auto simp: aligned_def)
  qed
  ultimately show ?thesis unfolding cache_lists_def using D(1-4,6,8,10) by blast
qed

lemma objects_bound: "8 \<le> z \<Longrightarrow> objects z \<le> 506"
  using div_le_mono2 [of 8 z 4048] by (simp add: objects_def)

lemma slab_words:
  assumes "aligned 12 b"
  shows "aligned 3 (b + 4048)" "aligned 3 (b + 4056)" "aligned 3 (b + 4064)" "aligned 3 (b + 4072)"
    "b + 4056 \<in> area b" "b + 4072 \<in> area b"
proof -
  have "aligned 3 4048" "aligned 3 4056" "aligned 3 4064" "aligned 3 4072" by (simp_all add: aligned_def)
  then show "aligned 3 (b + 4048)" "aligned 3 (b + 4056)" "aligned 3 (b + 4064)" "aligned 3 (b + 4072)"
    by (auto intro: aligned_off [OF assms])
  show "b + 4056 \<in> area b" "b + 4072 \<in> area b"
    using area_off [OF assms assms, of 4056] area_off [OF assms assms, of 4072] by simp_all
qed

lemma slab_ok_len:
  assumes "slab_ok m cp z b os" "8 \<le> z" "z \<le> 4048"
  shows "length os \<le> objects z" "unat (of_nat (length os) :: u32) = length os" "unat (of_nat (objects z) :: u32) = objects z"
proof -
  have "card (set os) \<le> card (obj_addrs z b)"
    using assms(1) by (intro card_mono) (auto simp: slab_ok_def obj_addrs_def)
  also have "\<dots> \<le> objects z" unfolding obj_addrs_def using card_image_le [of "{..<objects z}"] by simp
  finally show "length os \<le> objects z" using assms(1) by (simp add: slab_ok_def distinct_card)
  then show "unat (of_nat (length os) :: u32) = length os" "unat (of_nat (objects z) :: u32) = objects z"
    using objects_bound [OF assms(2)] by (auto intro!: unat_of_nat_small)
qed

lemma slab_pop:
  assumes c: "cache_lists m cp z L fl" and b: "k \<in> heads" "b \<in> set (L k)" and x: "fl b = x # xs"
  defines "m' \<equiv> store32 (store64 m (b + 4072) (load64 m x)) (b + 4060) (of_nat (length xs))"
  shows "cache_lists m' cp z L (fl(b := xs))" "same_but {b + 4072, b + 4056} m m'"
proof -
  note D = cache_listsD [OF c]
  have ok: "slab_ok m cp z b (x # xs)" using D(9) [OF b] x by simp
  then have al: "aligned 12 b" by (simp add: slab_ok_def)
  note S = slab_words [OF al]
  define m1 where "m1 = store64 m (b + 4072) (load64 m x)"
  have b60: "b + 4060 = b + 4056 + 4" by (simp add: add.assoc)
  note T = store32_low [OF S(2), of m1 "of_nat (length xs)", folded b60]
  have m': "m' = store32 m1 (b + 4060) (of_nat (length xs))" by (simp add: m'_def m1_def)
  have sb1: "same_but {b + 4072} m m1" unfolding m1_def by (rule same_but_store64 [OF S(4)])
  show sb: "same_but {b + 4072, b + 4056} m m'"
    using same_but_trans [OF sb1 T(1)] by (simp add: m' insert_commute)
  have eq: "load64 m' a = load64 m a" if "aligned 3 a" "a \<noteq> b + 4072" "a \<noteq> b + 4056" for a
    using same_butD [OF sb that(1)] that(2,3) by simp
  have ob: "load64 m' y = load64 m y" if "y \<in> set xs" for y
  proof -
    have "y \<in> obj_addrs z b" using ok that by (auto simp: slab_ok_def)
    from obj_addrs_area [OF D(2,3) al this] obtain i where i: "y = b + i" "i < 4048" "aligned 3 y" .
    then have "i \<noteq> 4072" "i \<noteq> 4056" by auto
    then show ?thesis using i by (intro eq) auto
  qed
  have "load64 m' (b + 4072) = load64 m x"
    using same_butD [OF T(1) S(4)] by (simp add: m' m1_def)
  moreover have "load32 m1 (b + 4056) = load32 m (b + 4056)"
    using same_butD [OF sb1 S(2)] by (simp add: load32_low)
  ultimately have "slab_ok m' cp z b xs"
    using ok eq [OF S(1)] eq [OF S(3)] T(2,3) objs_cong [OF ob] by (simp add: slab_ok_def m')
  then show "cache_lists m' cp z L (fl(b := xs))"
    using cache_update [OF c b sb] S(5,6) by simp
qed

lemma slab_push:
  assumes c: "cache_lists m cp z L fl" and b: "k \<in> heads" "b \<in> set (L k)"
    and x: "x \<in> obj_addrs z b" "x \<notin> set (fl b)" "x \<noteq> 0"
  defines "m' \<equiv> store64 (store64 (store32 m (b + 4060) (of_nat (Suc (length (fl b))))) x (load64 m (b + 4072))) (b + 4072) x"
  shows "cache_lists m' cp z L (fl(b := x # fl b))" "same_but {b + 4056, x, b + 4072} m m'"
proof -
  note D = cache_listsD [OF c]
  have ok: "slab_ok m cp z b (fl b)" using D(9) [OF b] by simp
  then have al: "aligned 12 b" by (simp add: slab_ok_def)
  note S = slab_words [OF al]
  obtain i where i: "x = b + i" "i < 4048" "aligned 3 x" using obj_addrs_area [OF D(2,3) al x(1)] .
  have ne: "x \<noteq> b + 4048" "x \<noteq> b + 4056" "x \<noteq> b + 4064" "x \<noteq> b + 4072" using i(1,2) by auto
  have b60: "b + 4060 = b + 4056 + 4" by (simp add: add.assoc)
  define m1 where "m1 = store32 m (b + 4060) (of_nat (Suc (length (fl b))))"
  note T = store32_low [OF S(2), of m "of_nat (Suc (length (fl b)))", folded b60, folded m1_def]
  have m': "m' = store64 (store64 m1 x (load64 m (b + 4072))) (b + 4072) x" by (simp add: m'_def m1_def)
  have sb1: "same_but {x, b + 4072} m1 m'"
    unfolding m' using i(3) S(4) by (auto simp: same_but_def load64_store64)
  show sb: "same_but {b + 4056, x, b + 4072} m m'" using same_but_trans [OF T(1) sb1] by (simp add: insert_commute)
  have eq: "load64 m' a = load64 m a" if "aligned 3 a" "a \<noteq> b + 4072" "a \<noteq> b + 4056" "a \<noteq> x" for a
    using same_butD [OF sb that(1)] that(2-4) by simp
  have ob: "load64 m' y = load64 m y" if "y \<in> set (fl b)" for y
  proof -
    have "y \<in> obj_addrs z b" using ok that by (auto simp: slab_ok_def)
    from obj_addrs_area [OF D(2,3) al this] obtain j where j: "y = b + j" "j < 4048" "aligned 3 y" .
    then have "j \<noteq> 4072" "j \<noteq> 4056" "y \<noteq> x" using that x(2) by auto
    then show ?thesis using j by (intro eq) auto
  qed
  have "load32 m' (b + 4056) = load32 m1 (b + 4056)" "load32 m' (b + 4060) = load32 m1 (b + 4060)"
    using same_butD [OF sb1 S(2)] ne load32_high [of m' "b + 4056"] load32_high [of m1 "b + 4056"]
    by (auto simp: load32_low b60)
  moreover have "load64 m' (b + 4072) = x" by (simp add: m')
  moreover have "load64 m' x = load64 m (b + 4072)" using i(3) S(4) ne by (simp add: m' load64_store64)
  ultimately have "slab_ok m' cp z b (x # fl b)"
    using ok eq [OF S(1)] eq [OF S(3)] ne T(2,3) objs_cong [OF ob] x by (auto simp: slab_ok_def)
  moreover have "x \<in> area b" using area_off [OF al al, of i] i(1,2) by (auto simp: less_trans)
  ultimately show "cache_lists m' cp z L (fl(b := x # fl b))"
    using cache_update [OF c b sb] S(5,6) by simp
qed

section \<open>Allocation and release\<close>

lemma page_slab_eq:
  assumes "aligned 12 b" "i < 4096"
  shows "page_slab (b + i) = b + 4048"
proof -
  have i: "unat i < 4096" using assms(2) by (simp add: word_less_nat_alt)
  obtain q where q: "unat b = 4096 * q" using assms(1) by (auto simp: aligned_def elim: dvdE)
  have "unat b < 2 ^ 64" using unsigned_less [of b] by simp
  then have "unat b + unat i < 2 ^ 64" using q i by simp
  then have u: "unat (b + i) = unat b + unat i" by (simp add: unat_word_ariths)
  have "unat ((b + i) AND NOT (mask 12)) = unat b"
    unfolding unat_and_not_mask u q using i by simp
  then have d: "(b + i) AND NOT (mask 12) = b" by (simp add: word_eq_iff_unat)
  have m: "(0xfff :: u64) = mask 12" by (simp add: mask_eq_exp_minus_1)
  have "(b + i) OR 0xfff = ((b + i) AND NOT (mask 12)) OR mask 12"
    unfolding m by (rule bit_word_eqI) (auto simp: bit_simps)
  also have "\<dots> = ((b + i) AND NOT (mask 12)) + mask 12"
    by (rule disjunctive_add [symmetric]) (auto simp: bit_simps)
  finally have "(b + i) OR 0xfff = b + 0xfff" unfolding d by (simp add: mask_eq_exp_minus_1)
  then show ?thesis by (simp add: page_slab_def)
qed

lemma obj_page:
  assumes "z \<le> 4048" "8 dvd z" "slab_ok m cp z b os" "x \<in> obj_addrs z b"
  shows "page_slab x = b + 4048" "\<not> (x < b \<or> x \<ge> b + PGSIZE)" "x \<noteq> 0"
proof -
  have b: "aligned 12 b" "unat b + 4096 < 2 ^ 64" "b \<noteq> 0" using assms(3) by (simp_all add: slab_ok_def)
  obtain i where i: "x = b + i" "i < 4048" using obj_addrs_area [OF assms(1,2) b(1) assms(4)] .
  have u: "unat i < 4048" using i(2) by (simp add: word_less_nat_alt)
  then have ux: "unat x = unat b + unat i" "unat (b + PGSIZE) = unat b + 4096"
    using unat_add_small [of b "unat i"] unat_add_page [OF b(2)] b(2) by (simp_all add: i(1))
  show "page_slab x = b + 4048" using page_slab_eq [OF b(1), of i] i less_trans [of i 4048 4096] by simp
  show "\<not> (x < b \<or> x \<ge> b + PGSIZE)" using ux u by (simp add: word_less_nat_alt word_le_nat_alt)
  have "unat b \<noteq> 0" using b(3) by (simp add: unat_eq_zero)
  then show "x \<noteq> 0" using ux(1) by auto
qed

lemma on_freelist_eq:
  "objs m p os \<Longrightarrow> length os < n \<Longrightarrow> on_freelist n m p buf = Ok (buf \<noteq> 0 \<and> buf \<in> set os)"
  by (induction os arbitrary: p n) (case_tac n; auto)+

lemma cache_okD:
  assumes "cache_ok m cp z L fl"
  shows "cache_lists m cp z L fl" "\<And>b. b \<in> set (L FULL) \<Longrightarrow> fl b = []"
    "\<And>b. b \<in> set (L PARTIAL) \<Longrightarrow> 0 < length (fl b) \<and> length (fl b) < objects z"
    "\<And>b. b \<in> set (L EMPTY) \<Longrightarrow> length (fl b) = objects z"
  using assms unfolding cache_ok_def by auto

lemma heads_mem [simp]: "FULL \<in> heads" "PARTIAL \<in> heads" "EMPTY \<in> heads"
  by (simp_all add: heads_def)

lemma objects_pos: "8 \<le> z \<Longrightarrow> z \<le> 4048 \<Longrightarrow> 0 < objects z"
  by (simp add: objects_def div_greater_zero_iff)

definition pages :: "(u64 \<Rightarrow> u64 list) \<Rightarrow> u64 set" where
  "pages L = (\<Union>k \<in> heads. set (L k))"

lemma pages_move:
  assumes "k \<in> heads" "k' \<in> heads" "k \<noteq> k'" "L k = us @ b # vs"
  shows "pages (L(k := us @ vs, k' := L k' @ [b])) = pages L"
  using assms unfolding pages_def heads_def by auto

text \<open>The contents of the objects of all slabs are the same.\<close>

definition same_objects :: "nat \<Rightarrow> (u64 \<Rightarrow> u64 list) \<Rightarrow> memory \<Rightarrow> memory \<Rightarrow> bool" where
  "same_objects z L m m' \<longleftrightarrow> (\<forall>b \<in> pages L. \<forall>i. i < 4048 \<longrightarrow> aligned 3 i \<longrightarrow> load64 m' (b + i) = load64 m (b + i))"

lemma same_objects_lists:
  assumes "cache_lists m0 cp z L fl" "same_but (\<Union>x \<in> list_nodes cp L. {x, x + 8}) m m'"
  shows "same_objects z L m m'"
  unfolding same_objects_def
proof (intro ballI allI impI)
  fix b i assume b: "b \<in> pages L" and i: "i < 4048" "aligned 3 i"
  obtain k where k: "k \<in> heads" "b \<in> set (L k)" using b by (auto simp: pages_def)
  have al: "aligned 12 b" using cache_listsD(9) [OF assms(1) k] by (simp add: slab_ok_def)
  have "b + i \<in> area b" using area_off [OF al al, of i] i(1) by (auto simp: less_trans)
  then have "b + i \<notin> (\<Union>x \<in> list_nodes cp L. {x, x + 8})" using list_words_disjoint(1) [OF assms(1) k] by blast
  then show "load64 m' (b + i) = load64 m (b + i)" using same_butD [OF assms(2) aligned_off [OF al i(2)]] by simp
qed

text \<open>The words that the operations of a cache write.\<close>

definition cache_words :: "u64 \<Rightarrow> (u64 \<Rightarrow> u64 list) \<Rightarrow> u64 set" where
  "cache_words cp L = insert (cp + 48) ((\<Union>x \<in> list_nodes cp L. {x, x + 8}) \<union> (\<Union>b \<in> pages L. area b))"

lemma same_but_words:
  assumes "same_but A m m1" "A \<subseteq> area b" "b \<in> pages L" "same_but (\<Union>x \<in> list_nodes cp L. {x, x + 8}) m1 m2"
  shows "same_but (cache_words cp L) m m2"
proof (rule same_but_mono [OF same_but_trans [OF assms(1,4)]])
  show "A \<union> (\<Union>x \<in> list_nodes cp L. {x, x + 8}) \<subseteq> cache_words cp L" using assms(2,3) by (auto simp: cache_words_def)
qed

lemma cache_words_cases:
  assumes c: "cache_lists m cp z L fl" and a: "a \<in> cache_words cp L"
  obtains b i where "a = b + i" "b \<in> insert cp (pages L)" "aligned 12 b" "i < 4096" "b = cp \<Longrightarrow> i = 48 \<or> i \<in> heads \<or> i - 8 \<in> heads"
proof -
  note D = cache_listsD [OF c]
  have al: "aligned 12 b" "b \<noteq> cp" if "b \<in> pages L" for b using that D(8,9) by (auto simp: pages_def slab_ok_def)
  consider "a = cp + 48" | k where "k \<in> heads" "a = cp + k \<or> a = cp + k + 8"
    | b where "b \<in> pages L" "a = b + 4080 \<or> a = b + 4080 + 8" | b where "b \<in> pages L" "a \<in> area b"
    using a by (fastforce simp: cache_words_def list_nodes_def node_def pages_def)
  then show ?thesis
  proof cases
    case 1
    then show ?thesis using that [of cp 48] D(1) by simp
  next
    case 2
    then consider "a = cp + k" | "a = cp + (k + 8)" by (auto simp: add.assoc)
    then show ?thesis
    proof cases
      case 1
      then show ?thesis using that [of cp k] D(1) 2(1) by (auto simp: heads_def)
    next
      case b: 2
      then show ?thesis using that [of cp "k + 8"] D(1) 2(1) by (auto simp: heads_def)
    qed
  next
    case 3
    then consider "a = b + 4080" | "a = b + 4088" by (auto simp: add.assoc)
    then show ?thesis by cases (use that [of b 4080] that [of b 4088] al [OF 3(1)] 3(1) in auto)
  next
    case 4
    then have "a - b < 4096" by (simp add: area_def word_less_nat_alt)
    then show ?thesis using that [of b "a - b"] al [OF 4(1)] 4(1) by auto
  qed
qed

lemma cache_words_fixed:
  assumes c: "cache_lists m cp z L fl"
  shows "cp + 88 \<notin> cache_words cp L" "aligned 12 x \<Longrightarrow> x \<notin> insert cp (pages L) \<Longrightarrow> x \<notin> cache_words cp L"
proof -
  note D = cache_listsD [OF c]
  show "cp + 88 \<notin> cache_words cp L"
  proof
    assume "cp + 88 \<in> cache_words cp L"
    from cache_words_cases [OF c this] obtain b i where bi: "cp + 88 = b + i" "aligned 12 b" "i < 4096"
      "b = cp \<Longrightarrow> i = 48 \<or> i \<in> heads \<or> i - 8 \<in> heads" by metis
    then have i: "b = cp" "i = 88" using off_eq [OF D(1) bi(2) _ bi(3), of 88] by auto
    show False using bi(4) [OF i(1)] unfolding i(2) by (simp add: heads_def)
  qed
  assume x: "aligned 12 x" "x \<notin> insert cp (pages L)"
  show "x \<notin> cache_words cp L"
  proof
    assume "x \<in> cache_words cp L"
    from cache_words_cases [OF c this] obtain b i where bi: "x = b + i" "b \<in> insert cp (pages L)" "aligned 12 b" "i < 4096" by metis
    then have "x = b" using off_eq_0 [OF x(1) bi(3,4)] by auto
    then show False using bi(2) x(2) by simp
  qed
qed

text \<open>Taking an object when some slab has a free one.\<close>

lemma alloc_from_slab:
  assumes ok: "cache_ok m cp z L fl" and k: "k \<in> {PARTIAL, EMPTY}" "L k = b # bs" "fl b = x # xs"
  defines "m2 \<equiv> store32 (store64 m (b + 4072) (load64 m x)) (b + 4060) (of_nat (length xs))"
  defines "k' \<equiv> if xs = [] then FULL else PARTIAL"
  defines "m3 \<equiv> if k' = k then m2 else list_add_tail (node b) (cp + k') (list_del (node b) m2)"
  shows "cache_ok m3 cp z (if k' = k then L else L(k := bs, k' := L k' @ [b])) (fl(b := xs))" "same_objects z L m m3"
    "same_but (cache_words cp L) m m3"
proof -
  note C = cache_okD [OF ok]
  note D = cache_listsD [OF C(1)]
  have kh: "k \<in> heads" "b \<in> set (L k)" "k' \<in> heads" using k by (auto simp: k'_def)
  have bok: "slab_ok m cp z b (x # xs)" using D(9) [OF kh(1,2)] k(3) by simp
  note P = slab_pop [OF C(1) kh(1,2) k(3), folded m2_def]
  have al: "aligned 12 b" using bok by (simp add: slab_ok_def)
  have so2: "same_objects z L m m2"
    unfolding same_objects_def
  proof (intro ballI allI impI)
    fix c i assume c: "c \<in> pages L" and i: "i < 4048" "aligned 3 i"
    have ac: "aligned 12 c" using c D(9) by (auto simp: pages_def slab_ok_def)
    have "i < 4096" using i(1) less_trans [of i 4048 4096] by simp
    then have "c + i \<noteq> b + 4072" "c + i \<noteq> b + 4056"
      using off_eq [OF ac al, of i 4072] off_eq [OF ac al, of i 4056] i(1) by auto
    then show "load64 m2 (c + i) = load64 m (c + i)" using same_butD [OF P(2) aligned_off [OF ac i(2)]] by simp
  qed
  have len: "length (x # xs) \<le> objects z" using slab_ok_len(1) [OF bok D(4,2)] .
  have cls: "\<And>c. c \<in> set (L FULL) \<Longrightarrow> c \<noteq> b" "\<And>c. c \<in> set bs \<Longrightarrow> c \<noteq> b"
    "\<And>c j. j \<in> heads \<Longrightarrow> j \<noteq> k \<Longrightarrow> c \<in> set (L j) \<Longrightarrow> c \<noteq> b"
  proof -
    show a: "c \<noteq> b" if "j \<in> heads" "j \<noteq> k" "c \<in> set (L j)" for c j using D(10) [OF that(1) kh(1) that(2)] kh(2) that(3) by auto
    show "c \<noteq> b" if "c \<in> set (L FULL)" for c using a [of FULL c] that k(1) by auto
    show "c \<noteq> b" if "c \<in> set bs" for c
      using D(7) [OF kh(1)] that k(2) by (auto simp: dlist_def)
  qed
  have "cache_ok m3 cp z (if k' = k then L else L(k := bs, k' := L k' @ [b])) (fl(b := xs)) \<and> same_objects z L m m3"
  proof (cases "k' = k")
    case True
    then have "k = PARTIAL" "xs \<noteq> []" using k(1) by (auto simp: k'_def split: if_splits)
    then show ?thesis
      using True P(1) so2 C(2-4) cls k len C(3) [of b] cls(3) [of EMPTY b] unfolding cache_ok_def m3_def by auto
  next
    case False
    have mv: "cache_lists m3 cp z (L(k := bs, k' := L k' @ [b])) (fl(b := xs))"
      "same_but (\<Union>x \<in> list_nodes cp L. {x, x + 8}) m2 m3"
      using cache_move [OF P(1) kh(1,3) False [symmetric], of "[]" b bs] k(2) False by (simp_all add: m3_def)
    have "same_objects z L m2 m3" by (rule same_objects_lists [OF C(1) mv(2)])
    then have "same_objects z L m m3" using so2 by (simp add: same_objects_def)
    then show ?thesis
      using False mv(1) C(2-4) cls k len C(3) [of b] C(4) [of b] unfolding cache_ok_def by (auto simp: k'_def split: if_splits)
  qed
  then show "cache_ok m3 cp z (if k' = k then L else L(k := bs, k' := L k' @ [b])) (fl(b := xs))" "same_objects z L m m3" by auto
  have "same_but (\<Union>x \<in> list_nodes cp L. {x, x + 8}) m2 m3"
    using cache_move(2) [OF P(1) kh(1,3) _, of "[]" b bs] k(2) by (cases "k' = k") (simp_all add: m3_def same_but_def)
  moreover have "{b + 4072, b + 4056} \<subseteq> area b" using slab_words [OF al] by auto
  moreover have "b \<in> pages L" using kh by (auto simp: pages_def)
  ultimately show "same_but (cache_words cp L) m m3" by (intro same_but_words [OF P(2)])
qed

lemma first_slab:
  assumes "cache_lists m cp z L fl" "k \<in> heads"
  shows "list_is_empty (cp + k) m \<longleftrightarrow> L k = []" "L k = b # bs \<Longrightarrow> list_first (cp + k) m - 32 = b + 4048"
  using list_is_empty_iff [OF cache_listsD(7) [OF assms]] list_first_eq [of m "cp + k" "node b" "map node bs"]
    cache_listsD(7) [OF assms] by (auto simp: node_def)

lemma kmem_cache_alloc_step:
  assumes ok: "cache_ok (mem s) cp z L fl" and lk: "CacheLock cp \<notin> set (held s)"
    and k: "k = (if L PARTIAL = [] then EMPTY else PARTIAL)" "L k = b # bs"
  obtains x xs m' L' where "fl b = x # xs" "x \<in> obj_addrs z b" "kmem_cache_alloc call cp flags s = Ok (x, s\<lparr>mem := m'\<rparr>)"
    "cache_ok m' cp z L' (fl(b := xs))" "pages L' = pages L" "same_objects z L (mem s) m'"
    "same_but (cache_words cp L) (mem s) m'"
proof -
  note C = cache_okD [OF ok]
  note D = cache_listsD [OF C(1)]
  have kh: "k \<in> heads" "k \<in> {PARTIAL, EMPTY}" "b \<in> set (L k)" using k by auto
  have bok: "slab_ok (mem s) cp z b (fl b)" using D(9) [OF kh(1,3)] .
  have "0 < length (fl b)" using kh C(3,4) [of b] objects_pos [OF D(4,2)] by auto
  then obtain x xs where x: "fl b = x # xs" by (cases "fl b") auto
  define k' where "k' = (if xs = [] then FULL else PARTIAL)"
  define m2 where "m2 = store32 (store64 (mem s) (b + 4072) (load64 (mem s) x)) (b + 4060) (of_nat (length xs))"
  define m3 where "m3 = (if k' = k then m2 else list_add_tail (node b) (cp + k') (list_del (node b) m2))"
  define L' where "L' = (if k' = k then L else L(k := bs, k' := L k' @ [b]))"
  note A = alloc_from_slab [OF ok kh(2) k(2) x, folded m2_def k'_def, folded m3_def, folded L'_def]
  have pg: "pages L' = pages L" using k kh by (auto simp: L'_def pages_def heads_def k'_def)
  let ?m = "mem s"
  define m1 where "m1 = store64 ?m (b + 4072) (load64 ?m x)"
  have al: "aligned 12 b" using bok by (simp add: slab_ok_def)
  note S = slab_words [OF al]
  have b60: "b + 4060 = b + 4056 + 4" by (simp add: add.assoc)
  have sb1: "same_but {b + 4072} ?m m1" unfolding m1_def by (rule same_but_store64 [OF S(4)])
  have len: "length (x # xs) \<le> objects z" "unat (of_nat (length (x # xs)) :: u32) = length (x # xs)"
    "unat (of_nat (objects z) :: u32) = objects z" using slab_ok_len [OF bok D(4,2)] x by simp_all
  have f: "load32 ?m (b + 4060) = of_nat (length (x # xs))" "load64 ?m (b + 4072) = x" "load32 ?m (b + 4056) = of_nat (objects z)"
    using bok x by (auto simp: slab_ok_def)
  have f1: "load32 m1 (b + 4060) = of_nat (length (x # xs))" "load32 m1 (b + 4056) = of_nat (objects z)"
    using same_butD [OF sb1 S(2)] f(1,3) load32_high [of m1 "b + 4056"] load32_high [of ?m "b + 4056"]
    by (simp_all add: load32_low b60)
  have f2: "load32 m2 (b + 4060) = of_nat (length xs)"
    using store32_low(3) [OF S(2), of m1 "of_nat (length xs)", folded b60] by (simp add: m2_def m1_def)
  have nz: "(of_nat (length (x # xs)) :: u32) \<noteq> 0" using len(2) by auto
  have we: "(of_nat (length (x # xs)) :: u32) = of_nat (objects z) \<longleftrightarrow> k = EMPTY"
  proof -
    have "(of_nat (length (x # xs)) :: u32) = of_nat (objects z) \<longleftrightarrow> length (x # xs) = objects z"
      using len(2,3) by metis
    also have "\<dots> \<longleftrightarrow> k = EMPTY" using kh(2,3) C(3,4) [of b] x by auto
    finally show ?thesis .
  qed
  have e0: "(of_nat (length xs) :: u32) = 0 \<longleftrightarrow> xs = []"
  proof -
    have "unat (of_nat (length xs) :: u32) = length xs"
      using len(1) objects_bound [OF D(4)] by (intro unat_of_nat_small) simp
    then have "(of_nat (length xs) :: u32) = 0 \<longleftrightarrow> length xs = 0" by (simp only: flip: unat_eq_zero)
    then show ?thesis by simp
  qed
  have sub1: "(of_nat (length (x # xs)) :: u32) - 1 = of_nat (length xs)" by simp
  have fs: "find_slab 2 call cp flags (s\<lparr>held := CacheLock cp # held s\<rparr>) = Ok (Some (b + 4048), s\<lparr>held := CacheLock cp # held s\<rparr>)"
    using first_slab(1) [OF C(1) heads_mem(2)] first_slab(1) [OF C(1) kh(1)] first_slab(2) [OF C(1) kh(1), of b bs] k
    by (cases "L PARTIAL = []") (simp_all add: numeral_2_eq_2)
  have nb: "b + 4048 + 32 = node b" by (simp add: node_def)
  have b2: "b + 4048 + 12 = b + 4060" "b + 4048 + 24 = b + 4072" "b + 4048 + 8 = b + 4056" by simp_all
  have m2': "store32 m1 (b + 4060) (load32 m1 (b + 4060) - 1) = m2" by (simp only: m2_def m1_def [symmetric] f1(1) sub1)
  have "take_obj cp (b + 4048) ?m = (x, m3)"
    unfolding take_obj_def Let_def b2 nb f(2) m1_def [symmetric] m2' unfolding f1 f2 we e0 m3_def k'_def using kh(2) by auto
  then have "kmem_cache_alloc call cp flags s = Ok (x, s\<lparr>mem := m3\<rparr>)"
    using D(6) lk fs nz f(1) by (simp add: kmem_cache_alloc_def b2 del: of_nat_Suc list.size)
  then show ?thesis using that [OF x _ _ A(1) pg A(2,3)] bok x by (auto simp: slab_ok_def)
qed

text \<open>Putting an object back.\<close>

lemma kmem_cache_free_step:
  assumes ok: "cache_ok (mem s) cp z L fl" and lk: "CacheLock cp \<notin> set (held s)"
    and b: "b \<in> pages L" and x: "x \<in> obj_addrs z b"
  shows "x \<in> set (fl b) \<Longrightarrow> kmem_cache_free cp x s = Ok s"
    "x \<notin> set (fl b) \<Longrightarrow> \<exists>m' L'. kmem_cache_free cp x s = Ok (s\<lparr>mem := m'\<rparr>) \<and> cache_ok m' cp z L' (fl(b := x # fl b)) \<and>
       pages L' = pages L \<and> same_but (cache_words cp L) (mem s) m' \<and> (\<forall>c \<in> pages L. \<forall>i. i < 4048 \<longrightarrow> aligned 3 i \<longrightarrow> c + i \<noteq> x \<longrightarrow> load64 m' (c + i) = load64 (mem s) (c + i))"
proof -
  note C = cache_okD [OF ok]
  note D = cache_listsD [OF C(1)]
  let ?m = "mem s"
  obtain k where k: "k \<in> heads" "b \<in> set (L k)" using b by (auto simp: pages_def)
  have bok: "slab_ok ?m cp z b (fl b)" using D(9) [OF k] .
  note X = obj_page [OF D(2,3) bok x]
  have al: "aligned 12 b" using bok by (simp add: slab_ok_def)
  note S = slab_words [OF al]
  have b2: "b + 4048 + 12 = b + 4060" "b + 4048 + 24 = b + 4072" "b + 4048 + 8 = b + 4056" "b + 4048 + 32 = node b"
    by (simp_all add: node_def)
  have f: "load32 ?m (b + 4060) = of_nat (length (fl b))" "load32 ?m (b + 4056) = of_nat (objects z)"
    "load64 ?m (b + 4048) = b" using bok by (auto simp: slab_ok_def)
  have len: "length (fl b) \<le> objects z" "objects z \<le> 506" "unat (of_nat (objects z) :: u32) = objects z"
    using slab_ok_len [OF bok D(4,2)] objects_bound [OF D(4)] by simp_all
  have fr: "on_freelist 507 ?m (load64 ?m (b + 4072)) x = Ok (x \<in> set (fl b))"
    using on_freelist_eq [of ?m "load64 ?m (b + 4072)" "fl b" 507 x] bok len X(3) by (simp add: slab_ok_def)
  show "kmem_cache_free cp x s = Ok s" if "x \<in> set (fl b)"
    using D(6) X lk f(3) fr that by (simp add: kmem_cache_free_def b2 Let_def)
  assume nx: "x \<notin> set (fl b)"
  have lt: "length (fl b) < objects z"
  proof -
    have "x # fl b \<noteq> []" "set (x # fl b) \<subseteq> obj_addrs z b" "distinct (x # fl b)" using x nx bok by (auto simp: slab_ok_def)
    then have "card (set (x # fl b)) \<le> card (obj_addrs z b)" by (intro card_mono) (auto simp: obj_addrs_def)
    also have "\<dots> \<le> objects z" unfolding obj_addrs_def using card_image_le [of "{..<objects z}"] by simp
    finally show ?thesis using \<open>distinct (x # fl b)\<close> distinct_card [of "x # fl b"] by simp
  qed
  have u: "unat (of_nat (length (fl b)) :: u32) = length (fl b)" "unat (of_nat (Suc (length (fl b))) :: u32) = Suc (length (fl b))"
    using lt len(2) by (auto intro!: unat_of_nat_small simp del: of_nat_Suc)
  define m1 where "m1 = store32 ?m (b + 4060) (of_nat (Suc (length (fl b))))"
  define m2 where "m2 = store64 (store64 m1 x (load64 ?m (b + 4072))) (b + 4072) x"
  note P = slab_push [OF C(1) k x nx X(3), folded m1_def, folded m2_def]
  have b60: "b + 4060 = b + 4056 + 4" by (simp add: add.assoc)
  note T = store32_low [OF S(2), of ?m "of_nat (Suc (length (fl b)))", folded b60, folded m1_def]
  have ld: "load64 m1 (b + 4072) = load64 ?m (b + 4072)" using same_butD [OF T(1) S(4)] by simp
  have f2: "load32 m2 (b + 4060) = of_nat (Suc (length (fl b)))" "load32 m2 (b + 4056) = of_nat (objects z)"
    using cache_listsD(9) [OF P(1) k] by (auto simp: slab_ok_def)
  define full where "full \<longleftrightarrow> Suc (length (fl b)) = objects z"
  define k' where "k' = (if full then EMPTY else PARTIAL)"
  have cmp: "(of_nat (Suc (length (fl b))) :: u32) = of_nat (objects z) \<longleftrightarrow> full"
    unfolding full_def using u(2) len(3) by metis
  have wf: "(of_nat (length (fl b)) :: u32) = 0 \<longleftrightarrow> fl b = []"
  proof -
    have "(of_nat (length (fl b)) :: u32) = 0 \<longleftrightarrow> unat (of_nat (length (fl b)) :: u32) = 0" by (simp only: unat_eq_zero)
    then show ?thesis unfolding u(1) by simp
  qed
  have kk: "k = (if fl b = [] then FULL else PARTIAL)"
    using k C(2-4) [of b] lt by (auto simp: heads_def split: if_splits)
  define m3 where "m3 = (if k' = k then m2 else list_add_tail (node b) (cp + k') (list_del (node b) m2))"
  have put: "put_obj cp (b + 4048) x (fl b = []) m1 = m3"
    unfolding put_obj_def Let_def b2 ld m2_def [symmetric] unfolding f2 cmp m3_def k'_def kk by auto
  obtain us vs where us: "L k = us @ b # vs" using k(2) by (auto dest: split_list)
  define L' where "L' = (if k' = k then L else L(k := us @ vs, k' := L k' @ [b]))"
  have k'h: "k' \<in> heads" by (simp add: k'_def)
  have cl: "cache_lists m3 cp z L' (fl(b := x # fl b))"
    using P(1) cache_move(1) [OF P(1) k(1) k'h _ us] by (simp add: m3_def L'_def)
  have sb3: "same_but (\<Union>y \<in> list_nodes cp L. {y, y + 8}) m2 m3"
    using cache_move(2) [OF P(1) k(1) k'h _ us] by (auto simp: m3_def same_but_def)
  obtain i where i: "x = b + i" "i < 4048" using obj_addrs_area [OF D(2,3) al x] .
  then have "x \<in> area b" using area_off [OF al al, of i] by (auto simp: less_trans)
  then have "{b + 4056, x, b + 4072} \<subseteq> area b" using S by auto
  from same_but_words [OF P(2) this b sb3] have sw: "same_but (cache_words cp L) ?m m3" .
  have pg: "pages L' = pages L" using pages_move [of k k' L us b vs] k(1) k'h us by (auto simp: L'_def)
  have dis: "b \<notin> set (us @ vs)"
    using D(7) [OF k(1)] distinct_map [of node "L k"] by (auto simp: dlist_def us)
  have "cache_ok m3 cp z L' (fl(b := x # fl b))"
  proof -
    have nb: "c \<noteq> b" if "j \<in> heads" "j \<noteq> k" "c \<in> set (L j)" for c j using D(10) [OF that(1) k(1) that(2)] k(2) that(3) by auto
    have keep: "c \<in> set (L j) \<and> c \<noteq> b \<or> c = b \<and> j = k'" if "j \<in> heads" "c \<in> set (L' j)" for c j
      using that nb [of j c] dis us by (auto simp: L'_def split: if_splits)
    have "(fl(b := x # fl b)) c = []" if "c \<in> set (L' FULL)" for c
      using keep [OF _ that] C(2) [of c] by (auto simp: k'_def split: if_splits)
    moreover have "0 < length ((fl(b := x # fl b)) c) \<and> length ((fl(b := x # fl b)) c) < objects z" if "c \<in> set (L' PARTIAL)" for c
      using keep [OF _ that] C(3) [of c] lt by (auto simp: k'_def full_def split: if_splits)
    moreover have "length ((fl(b := x # fl b)) c) = objects z" if "c \<in> set (L' EMPTY)" for c
      using keep [OF _ that] C(4) [of c] by (auto simp: k'_def full_def split: if_splits)
    ultimately show ?thesis unfolding cache_ok_def using cl by blast
  qed
  moreover have "load64 m3 (c + i) = load64 ?m (c + i)" if c: "c \<in> pages L" "i < 4048" "aligned 3 i" "c + i \<noteq> x" for c i
  proof -
    have ac: "aligned 12 c" using c D(9) by (auto simp: pages_def slab_ok_def)
    have "i < 4096" using c(2) less_trans [of i 4048 4096] by simp
    then have "c + i \<noteq> b + 4072" "c + i \<noteq> b + 4056"
      using off_eq [OF ac al, of i 4072] off_eq [OF ac al, of i 4056] c(2) by auto
    then have "load64 m2 (c + i) = load64 ?m (c + i)" using same_butD [OF P(2) aligned_off [OF ac c(3)]] c(4) by simp
    moreover have "same_objects z L m2 m3" by (rule same_objects_lists [OF C(1) sb3])
    ultimately show ?thesis using c by (simp add: same_objects_def)
  qed
  moreover have "kmem_cache_free cp x s = Ok (s\<lparr>mem := m3\<rparr>)"
  proof -
    have "load32 ?m (b + 4060) + 1 = of_nat (Suc (length (fl b)))" by (simp add: f(1))
    moreover have "load32 m1 (b + 4060) = of_nat (Suc (length (fl b)))" "load32 m1 (b + 4056) = of_nat (objects z)" using T(2,3) f(2) by simp_all
    moreover have "\<not> (of_nat (objects z) :: u32) < of_nat (Suc (length (fl b)))"
      using u(2) len(3) lt by (simp add: word_less_nat_alt del: of_nat_Suc)
    ultimately show ?thesis
      using D(6) X lk f(1,3) fr nx put wf by (simp add: kmem_cache_free_def b2 Let_def del: of_nat_Suc flip: m1_def)
  qed
  ultimately show "\<exists>m' L'. kmem_cache_free cp x s = Ok (s\<lparr>mem := m'\<rparr>) \<and> cache_ok m' cp z L' (fl(b := x # fl b)) \<and>
       pages L' = pages L \<and> same_but (cache_words cp L) (mem s) m' \<and> (\<forall>c \<in> pages L. \<forall>i. i < 4048 \<longrightarrow> aligned 3 i \<longrightarrow> c + i \<noteq> x \<longrightarrow> load64 m' (c + i) = load64 ?m (c + i))"
    using pg sw by blast
qed

section \<open>Growing a cache\<close>

lemma store32_aligned:
  assumes "aligned 3 a"
  shows "same_but {a} m (store32 m a v)" "load32 (store32 m a v) a = v" "load32 (store32 m a v) (a + 4) = load32 m (a + 4)"
proof -
  have r: "b = a" if "aligned 3 b" "i < 8" "unat (b + of_nat i - a) < 4" for b i
  proof (rule ccontr)
    assume "b \<noteq> a"
    then have "\<not> unat (b + of_nat i - a) < 2 ^ 3"
      using that(2) by (intro aligned_ranges_disjoint [OF assms that(1)]) auto
    then show False using that(3) by simp
  qed
  show "same_but {a} m (store32 m a v)"
    unfolding same_but_def load64_def store32_def
    using r by (intro allI impI load_le_cong) (auto simp: store_le_def)
  show "load32 (store32 m a v) a = v" by (simp add: load32_def store32_def load_store_le_same)
  show "load32 (store32 m a v) (a + 4) = load32 m (a + 4)"
    unfolding load32_def store32_def
  proof (rule load_le_cong)
    fix i :: nat assume "i < 4"
    then have "unat (a + 4 + of_nat i - a) = 4 + i" using unat_of_nat_small [of "4 + i", where 'a = 64] by simp
    then show "store_le 4 m a v (a + 4 + of_nat i) = m (a + 4 + of_nat i)" by (simp add: store_le_def)
  qed
qed

lemma cache_frame:
  assumes c: "cache_lists m cp z L fl" and sb: "same_but A m m'" "cp + 32 \<notin> A"
    "\<And>x. x \<in> list_nodes cp L \<Longrightarrow> x \<notin> A \<and> x + 8 \<notin> A" "\<And>b. b \<in> pages L \<Longrightarrow> A \<inter> area b = {}"
  shows "cache_lists m' cp z L fl"
proof -
  note D = cache_listsD [OF c]
  have "dlist m' (cp + j) (map node (L j))" if j: "j \<in> heads" for j
  proof (rule dlist_frame [THEN iffD2, OF sb(1) _ _ D(7) [OF j]])
    have sj: "set ((cp + j) # map node (L j)) \<subseteq> list_nodes cp L" using j by (auto simp: list_nodes_def)
    show "nodes_ok (set ((cp + j) # map node (L j)))" by (rule nodes_ok_mono [OF nodes_ok_list_nodes [OF c] sj])
    show "x \<notin> A \<and> x + 8 \<notin> A" if "x \<in> set ((cp + j) # map node (L j))" for x using sb(3) subsetD [OF sj that] by blast
  qed
  moreover have "slab_ok m' cp z x (fl x)" if "j \<in> heads" "x \<in> set (L j)" for j x
    using slab_frame [OF sb(1) sb(4) D(9) [OF that] D(2,3)] that by (auto simp: pages_def)
  moreover have "load64 m' (cp + 32) = of_nat z"
    using same_butD [OF sb(1) _ sb(2)] aligned_off [OF D(1), of 32] D(5) by (simp add: aligned_def)
  ultimately show ?thesis unfolding cache_lists_def using D(1-4,6,8,10) by blast
qed

text \<open>Linking a new slab.\<close>

lemma cache_add:
  assumes c: "cache_lists m cp z L fl" and p: "p \<notin> pages L" "p \<noteq> cp" "slab_ok m cp z p os" and k: "k \<in> heads"
  defines "m' \<equiv> list_add_tail (node p) (cp + k) m"
  shows "cache_lists m' cp z (L(k := L k @ [p])) (fl(p := os))"
    "same_but (insert (node p) (insert (node p + 8) (\<Union>x \<in> list_nodes cp L. {x, x + 8}))) m m'"
proof -
  note D = cache_listsD [OF c]
  let ?A = "\<Union>x \<in> set (node p # (cp + k) # map node (L k)). {x, x + 8}"
  define L2 where "L2 = L(k := L k @ [p])"
  have al: "aligned 12 p" using p(3) by (simp add: slab_ok_def)
  have ex: "\<exists>c i. x = c + i \<and> aligned 12 c \<and> (c = cp \<and> i \<in> heads \<or> c \<noteq> cp \<and> i = 4080)"
    if "x \<in> insert (node p) (list_nodes cp L)" for x
    using that list_nodes_cases [OF c] al p(2) unfolding node_def by (metis insert_iff)
  have NN: "nodes_ok (insert (node p) (list_nodes cp L))"
    unfolding nodes_ok_def
  proof (intro ballI conjI)
    fix x assume "x \<in> insert (node p) (list_nodes cp L)"
    then obtain c i where xi: "x = c + i" "aligned 12 c" "c = cp \<and> i \<in> heads \<or> c \<noteq> cp \<and> i = 4080" using ex by blast
    show "aligned 3 x" using xi off_small(3) [OF xi(3)] aligned_off by simp
    fix y assume "y \<in> insert (node p) (list_nodes cp L)"
    then obtain d j where yj: "y = d + j" "aligned 12 d" "d = cp \<and> j \<in> heads \<or> d \<noteq> cp \<and> j = 4080" using ex by blast
    have "d + j = c + (i + 8) \<longleftrightarrow> d = c \<and> j = i + 8"
      using off_eq [OF yj(2) xi(2) off_small(1) [OF yj(3)] off_small(2) [OF xi(3)]] .
    then show "y \<noteq> x + 8" using xi yj heads_small by (auto simp: add.assoc)
  qed
  have np: "node p \<notin> list_nodes cp L"
  proof
    assume "node p \<in> list_nodes cp L"
    then have "(\<exists>j \<in> heads. p + 4080 = cp + j) \<or> p \<in> pages L"
      by (auto simp: list_nodes_def node_def pages_def)
    then show False
    proof (elim disjE bexE)
      fix j assume "j \<in> heads" "p + 4080 = cp + j"
      then show False using off_eq [OF al D(1), of 4080 j] heads_small [of j] less_trans [of j 256 4096] p(2) by auto
    qed (use p(1) in simp)
  qed
  have sk: "set ((cp + k) # map node (L k)) \<subseteq> list_nodes cp L" using k by (auto simp: list_nodes_def)
  have nk: "node p \<notin> set ((cp + k) # map node (L k))" using np sk by blast
  have sub: "set (node p # (cp + k) # map node (L k)) \<subseteq> insert (node p) (list_nodes cp L)" using sk by auto
  note T = list_add_tail_dlist [OF D(7) [OF k] nk nodes_ok_mono [OF NN sub], folded m'_def]
  have sb0: "same_but ?A m m'" using T(2) by (auto simp: same_but_def)
  have AA: "?A \<subseteq> insert (node p) (insert (node p + 8) (\<Union>x \<in> list_nodes cp L. {x, x + 8}))" using sub by auto
  show sb: "same_but (insert (node p) (insert (node p + 8) (\<Union>x \<in> list_nodes cp L. {x, x + 8}))) m m'"
    by (rule same_but_mono [OF sb0 AA])
  have apart: "a \<notin> area b \<and> a \<noteq> cp + 32" if aA: "a \<in> ?A" "aligned 12 b" "b \<noteq> cp" for a b
  proof -
    obtain x where x: "x \<in> insert (node p) (list_nodes cp L)" "a = x \<or> a = x + 8" using aA(1) subsetD [OF sub] by blast
    obtain c i where xi: "x = c + i" "aligned 12 c" "c = cp \<and> i \<in> heads \<or> c \<noteq> cp \<and> i = 4080" using ex [OF x(1)] by blast
    show ?thesis using node_apart [OF D(1) xi aA(2,3)] x(2) by auto
  qed
  have slabs: "slab_ok m' cp z x ((fl(p := os)) x)" if xp: "x = p \<or> x \<in> pages L" for x
  proof -
    have x0: "aligned 12 x \<and> x \<noteq> cp \<and> slab_ok m cp z x ((fl(p := os)) x)"
    proof (cases "x = p")
      case False
      then obtain j where "j \<in> heads" "x \<in> set (L j)" using xp by (auto simp: pages_def)
      then show ?thesis using D(8,9) False by (auto simp: slab_ok_def)
    qed (use al p in simp)
    then have x: "aligned 12 x" "x \<noteq> cp" "slab_ok m cp z x ((fl(p := os)) x)"
      using x0 by simp_all
    then have "?A \<inter> area x = {}" using apart by blast
    from slab_frame [OF sb0 this x(3) D(2,3)] show ?thesis .
  qed
  have "dlist m' (cp + j) (map node ((L(k := L k @ [p])) j))" if j: "j \<in> heads" for j
  proof (cases "j = k")
    case True
    then show ?thesis using T(1) by simp
  next
    case False
    have sj: "set ((cp + j) # map node (L j)) \<subseteq> insert (node p) (list_nodes cp L)" using j by (auto simp: list_nodes_def)
    have "dlist m' (cp + j) (map node (L j))"
    proof (rule dlist_frame [THEN iffD2, OF sb0 nodes_ok_mono [OF NN sj] _ D(7) [OF j]])
      fix x assume x: "x \<in> set ((cp + j) # map node (L j))"
      then have "x \<in> list_nodes cp L" using j by (auto simp: list_nodes_def)
      then have "x \<noteq> node p" using np by blast
      moreover have "x \<notin> set ((cp + k) # map node (L k))" using list_sets_disjoint [OF c j k False] x by blast
      ultimately have "x \<notin> set (node p # (cp + k) # map node (L k))" by (metis set_ConsD)
      then show "x \<notin> ?A \<and> x + 8 \<notin> ?A" using nodes_apart [OF NN subsetD [OF sj x] sub] by blast
    qed
    then show ?thesis using False by simp
  qed
  moreover have "load64 m' (cp + 32) = of_nat z"
  proof -
    have "cp + 32 \<notin> ?A" using apart [of "cp + 32" p] al p(2) by blast
    then show ?thesis using same_butD [OF sb0] aligned_off [OF D(1), of 32] D(5) by (simp add: aligned_def)
  qed
  moreover have "slab_ok m' cp z x ((fl(p := os)) x)" if "j \<in> heads" "x \<in> set ((L(k := L k @ [p])) j)" for j x
    by (rule slabs) (use that in \<open>auto simp: pages_def split: if_splits\<close>)
  moreover have "cp \<notin> set ((L(k := L k @ [p])) j)" if "j \<in> heads" for j using D(8) [OF that] p(2) by auto
  moreover have "set ((L(k := L k @ [p])) j) \<inter> set ((L(k := L k @ [p])) j') = {}"
    if "j \<in> heads" "j' \<in> heads" "j \<noteq> j'" for j j'
    using D(10) [OF that] p(1) that by (auto simp: pages_def)
  ultimately show "cache_lists m' cp z (L(k := L k @ [p])) (fl(p := os))"
    unfolding cache_lists_def using D(1-4,6) by blast
qed

end
