(* ===== verification/Slabgrow.thy ===== *)
theory Slabgrow
  imports Slabinv Example
begin

text \<open>
  Growing a cache by a page, and the slab allocator as an allocator of objects: \<open>kmem_cache_alloc\<close>
  hands out an object that is not in use, growing the cache when no slab has one, and
  \<open>kmem_cache_free\<close> takes it back. \<open>cache_rep\<close> relates a state to the set of objects in use.
\<close>

section \<open>Growing a cache\<close>

definition obj_at :: "nat \<Rightarrow> u64 \<Rightarrow> nat \<Rightarrow> u64" where
  "obj_at z b i = b + of_nat (i * z)"

lemma obj_offset:
  assumes "i < objects z"
  shows "i * z + z \<le> 4048" "unat (of_nat (i * z) :: u64) = i * z"
proof -
  have "Suc i * z \<le> 4048" using assms unfolding objects_def by (metis Suc_leI div_times_less_eq_dividend le_trans mult_le_mono1)
  then show "i * z + z \<le> 4048" by simp
  then show "unat (of_nat (i * z) :: u64) = i * z" by (intro unat_of_nat_small) simp
qed

lemma obj_at_inj:
  assumes "0 < z" "i < objects z" "j < objects z" "obj_at z b i = obj_at z b j"
  shows "i = j"
proof -
  have "(of_nat (i * z) :: u64) = of_nat (j * z)" using assms(4) by (simp add: obj_at_def)
  then have "i * z = j * z" using obj_offset(2) [OF assms(2)] obj_offset(2) [OF assms(3)] by metis
  then show ?thesis using assms(1) by simp
qed

definition all_objs :: "nat \<Rightarrow> u64 \<Rightarrow> u64 list" where
  "all_objs z b = rev (map (obj_at z b) [0..<objects z])"

lemma all_objs:
  assumes "0 < z"
  shows "distinct (all_objs z b)" "set (all_objs z b) = obj_addrs z b" "length (all_objs z b) = objects z"
  using obj_at_inj [OF assms] by (auto simp: all_objs_def distinct_map inj_on_def obj_addrs_def obj_at_def)

lemma grow_loop_links:
  assumes p: "aligned 12 p" "aligned 12 cp" "p \<noteq> cp" "p \<noteq> 0" and z: "8 dvd z" "8 \<le> z" "z \<le> 4048"
  shows "load64 (mem s) (cp + 32) = of_nat z \<Longrightarrow> load64 (mem s) (cp + 88) = 0 \<Longrightarrow> i \<le> n \<Longrightarrow> n \<le> objects z \<Longrightarrow>
    objs (mem s) head (rev (map (obj_at z p) [0..<i])) \<Longrightarrow>
    \<exists>h m'. grow_loop call cp p [i..<n] head s = Ok (h, s\<lparr>mem := m'\<rparr>) \<and>
      objs m' h (rev (map (obj_at z p) [0..<n])) \<and> same_but (obj_addrs z p) (mem s) m'"
proof (induction "n - i" arbitrary: i head s)
  case 0
  then show ?case by (intro exI [of _ head] exI [of _ "mem s"]) (simp add: same_but_def)
next
  case (Suc k)
  let ?o = "obj_at z p i"
  define s1 where "s1 = upd_mem (st64 ?o head) s"
  have i: "i < n" "i < objects z" using Suc by auto
  have oa: "?o \<in> obj_addrs z p" using i(2) by (auto simp: obj_addrs_def obj_at_def)
  obtain d where d: "?o = p + d" "d < 4048" "aligned 3 ?o" using obj_addrs_area [OF z(3,1) p(1) oa] .
  have d': "d < 4096" using d(2) less_trans [of d 4048 4096] by simp
  have sb: "same_but {?o} (mem s) (mem s1)" using same_but_store64 [OF d(3)] by (simp add: s1_def upd_mem_def)
  have "?o \<noteq> cp + 32" "?o \<noteq> cp + 88"
    using off_eq [OF p(1,2) d', of 32] off_eq [OF p(1,2) d', of 88] p(3) d(1) by auto
  then have c: "load64 (mem s1) (cp + 32) = of_nat z" "load64 (mem s1) (cp + 88) = 0"
    using same_butD [OF sb] aligned_off [OF p(2), of 32] aligned_off [OF p(2), of 88] Suc.prems(1,2)
    by (simp_all add: aligned_def)
  have on: "load64 (mem s1) x = load64 (mem s) x" if x: "x \<in> set (rev (map (obj_at z p) [0..<i]))" for x
  proof -
    obtain j where j: "j < i" "x = obj_at z p j" using x by auto
    then have "x \<noteq> ?o" using obj_at_inj [of z j i p] i z(2) by auto
    moreover have "x \<in> obj_addrs z p" using j i by (auto simp: obj_addrs_def obj_at_def)
    then have "aligned 3 x" using obj_addrs_area [OF z(3,1) p(1)] by metis
    ultimately show ?thesis using same_butD [OF sb] by simp
  qed
  have "?o \<noteq> 0"
  proof
    assume "?o = 0"
    moreover have "aligned 12 (0 :: u64)" by (simp add: aligned_def)
    ultimately show False using off_eq_0(2) [OF _ p(1) d', of 0] d(1) p(4) by simp
  qed
  moreover have "load64 (mem s1) ?o = head" by (simp add: s1_def upd_mem_def)
  moreover have "objs (mem s1) head (rev (map (obj_at z p) [0..<i]))" using objs_cong [OF on] Suc.prems(5) by blast
  ultimately have ob: "objs (mem s1) ?o (rev (map (obj_at z p) [0..<Suc i]))" by simp
  have kk: "k = n - Suc i" using Suc.hyps(2) by simp
  obtain h m' where h: "grow_loop call cp p [Suc i..<n] ?o s1 = Ok (h, s1\<lparr>mem := m'\<rparr>)"
    "objs m' h (rev (map (obj_at z p) [0..<n]))" "same_but (obj_addrs z p) (mem s1) m'"
    using Suc.hyps(1) [OF kk c _ Suc.prems(4) ob] i(1) by auto
  have "[i..<n] = i # [Suc i..<n]" using i by (simp add: upt_conv_Cons)
  moreover have "p + of_nat i * of_nat z = ?o" by (simp add: obj_at_def)
  ultimately have "grow_loop call cp p [i..<n] head s = Ok (h, s\<lparr>mem := m'\<rparr>)"
    using h(1) Suc.prems(1,2) by (simp add: s1_def upd_mem_def Let_def)
  moreover have "same_but (obj_addrs z p) (mem s) m'"
    using same_but_trans [OF sb h(3)] oa by (simp add: insert_absorb)
  ultimately show ?case using h(2) by blast
qed

definition pg :: "u64 \<Rightarrow> u64 set" where
  "pg p = {a. in_page p a}"

lemma pg_off: "aligned 12 c \<Longrightarrow> aligned 12 p \<Longrightarrow> i < 4096 \<Longrightarrow> c + i \<in> pg p \<longleftrightarrow> c = p"
  using in_page_unique [of c p "c + i"] by (auto simp: pg_def in_page_def word_less_nat_alt)

lemma same_but_pg:
  assumes "same_but A m m1" "aligned 3 a" "a \<in> A"
  shows "same_but A m (store64 m1 a v)" "same_but A m (store32 m1 a w)" "same_but A m (store32 m1 (a + 4) w)"
  using same_but_trans [OF assms(1) same_but_store64 [OF assms(2)]] same_but_trans [OF assms(1) store32_aligned(1) [OF assms(2)]]
    same_but_trans [OF assms(1) store32_low(1) [OF assms(2)]] assms(3) by (simp_all add: insert_absorb)

lemma same_but_memset: "aligned 12 p \<Longrightarrow> same_but (pg p) m (memset m p 0 4096)"
  by (auto simp: same_but_def load64_memset_page pg_def)

text \<open>The words of a fresh slab page.\<close>

lemma new_header:
  fixes m :: memory and cp :: u64 and n :: u32
  assumes p: "aligned 12 p"
  defines "m2 \<equiv> store64 (store64 (list_init (p + 4080) (memset m p 0 4096)) (p + 4048) p) (p + 4064) cp"
  shows "same_but (pg p) m m2" "same_but (pg p) m (store32 (store32 m2 (p + 4056) n) (p + 4060) n)"
proof -
  note S = slab_words [OF p]
  have S2: "aligned 3 (p + 4080)" "aligned 3 (p + 4088)" using aligned_off [OF p] by (simp_all add: aligned_def)
  have P: "p + 4048 \<in> pg p" "p + 4056 \<in> pg p" "p + 4064 \<in> pg p" "p + 4072 \<in> pg p" "p + 4080 \<in> pg p" "p + 4088 \<in> pg p"
    by (simp_all add: pg_off p)
  have b60: "p + 4060 = p + 4056 + 4" "p + 4080 + 8 = p + 4088" by (simp_all add: add.assoc)
  show sb2: "same_but (pg p) m m2"
    unfolding m2_def list_init_def b60(2) by (intro same_but_pg same_but_memset p S S2 P)
  show "same_but (pg p) m (store32 (store32 m2 (p + 4056) n) (p + 4060) n)"
    unfolding b60(1) by (intro same_but_pg sb2 S P)
qed

lemma new_slab:
  fixes m :: memory and cp :: u64
  assumes p: "aligned 12 p" "p \<noteq> 0" "unat p + 4096 < 2 ^ 64" and z: "8 dvd z" "8 \<le> z" "z \<le> 4048"
  defines "n \<equiv> of_nat (objects z)"
  defines "m5 \<equiv> store32 (store32 (store64 (store64 (list_init (p + 4080) (memset m p 0 4096)) (p + 4048) p) (p + 4064) cp) (p + 4056) n) (p + 4060) n"
  assumes m6: "same_but (obj_addrs z p) m5 m6" "objs m6 h (all_objs z p)"
  shows "same_but (pg p) m (store64 m6 (p + 4072) h)" "slab_ok (store64 m6 (p + 4072) h) cp z p (all_objs z p)"
proof -
  note S = slab_words [OF p(1)]
  have P: "p + 4048 \<in> pg p" "p + 4056 \<in> pg p" "p + 4064 \<in> pg p" "p + 4072 \<in> pg p"
    by (simp_all add: pg_off p(1))
  have b60: "p + 4060 = p + 4056 + 4" by (simp add: add.assoc)
  define m2 where "m2 = store64 (store64 (list_init (p + 4080) (memset m p 0 4096)) (p + 4048) p) (p + 4064) cp"
  define m4 where "m4 = store32 m2 (p + 4056) n"
  have m5: "m5 = store32 m4 (p + 4060) n" by (simp add: m5_def m4_def m2_def)
  have sb5: "same_but (pg p) m m5" unfolding m5 m4_def m2_def by (rule new_header(2) [OF p(1)])
  have ob: "obj_addrs z p \<subseteq> pg p"
  proof
    fix x assume "x \<in> obj_addrs z p"
    from obj_addrs_area [OF z(3,1) p(1) this] obtain i where "x = p + i" "i < 4048" .
    then show "x \<in> pg p" using pg_off [OF p(1) p(1), of i] less_trans [of i 4048 4096] by simp
  qed
  show "same_but (pg p) m (store64 m6 (p + 4072) h)"
    by (intro same_but_pg same_but_mono [OF same_but_trans [OF sb5 m6(1)]] S P) (use ob in auto)
  note T = store32_aligned [OF S(2), of m2 n, folded m4_def]
  note U = store32_low [OF S(2), of m4 n, folded b60, folded m5]
  let ?m = "store64 m6 (p + 4072) h"
  have no: "p + i \<notin> insert (p + 4072) (obj_addrs z p)" if "4048 \<le> i" "i \<noteq> 4072" for i
  proof -
    have "p + i \<notin> obj_addrs z p"
    proof
      assume "p + i \<in> obj_addrs z p"
      from obj_addrs_area [OF z(3,1) p(1) this] obtain j where "p + i = p + j" "j < 4048" .
      then show False using that(1) by auto
    qed
    then show ?thesis using that(2) by simp
  qed
  have sb7: "same_but (insert (p + 4072) (obj_addrs z p)) m5 ?m"
    using same_but_trans [OF m6(1) same_but_store64 [OF S(4)]] by (simp add: Un_commute)
  have sb45: "same_but {p + 4056} m2 m5" using same_but_trans [OF T(1) U(1)] by simp
  have "load64 ?m (p + 4048) = p" "load64 ?m (p + 4064) = cp"
    using same_butD [OF sb7 S(1) no] same_butD [OF sb7 S(3) no] same_butD [OF sb45 S(1)] same_butD [OF sb45 S(3)]
    by (simp_all add: m2_def load64_store64 S)
  moreover have "load64 ?m (p + 4056) = load64 m5 (p + 4056)" using same_butD [OF sb7 S(2) no] by simp
  then have "load32 ?m (p + 4056) = n" "load32 ?m (p + 4060) = n"
    using U(2,3) T load32_high [of ?m "p + 4056", folded b60] load32_high [of m5 "p + 4056", folded b60] by (simp_all add: load32_low)
  moreover have "load64 ?m (p + 4072) = h" by simp
  moreover have "load64 ?m x = load64 m6 x" if "x \<in> set (all_objs z p)" for x
  proof -
    have "x \<in> obj_addrs z p" using that all_objs(2) [of z p] z(2) by simp
    from obj_addrs_area [OF z(3,1) p(1) this] obtain i where "x = p + i" "i < 4048" "aligned 3 x" .
    then show ?thesis using S(4) by (auto simp: load64_store64)
  qed
  then have "objs ?m h (all_objs z p)" using objs_cong [of "all_objs z p" ?m m6] m6(2) by blast
  ultimately show "slab_ok ?m cp z p (all_objs z p)"
    using p all_objs [of z p] z(2) by (simp add: slab_ok_def n_def)
qed

lemma page_words:
  assumes "aligned 12 p" "aligned 3 a" "a \<in> pg p"
  shows "a \<in> area p \<or> a = node p \<or> a = node p + 8"
proof -
  have u: "unat (a - p) < 4096" using assms(3) by (simp add: pg_def in_page_def)
  obtain q where q: "unat p = 4096 * q" using assms(1) by (auto simp: aligned_def elim: dvdE)
  have "unat p < 2 ^ 64" using unsigned_less [of p] by simp
  then have "unat p + unat (a - p) < 2 ^ 64" using q u by simp
  then have "unat a = 4096 * q + unat (a - p)" using unat_add_small [of p "unat (a - p)"] q by simp
  moreover have "8 dvd unat a" using assms(2) by (simp add: aligned_def)
  moreover have "(8 :: nat) dvd 4096 * q" by (rule dvd_mult2) simp
  ultimately have "8 dvd unat (a - p)" using dvd_add_right_iff [of 8 "4096 * q"] by simp
  then obtain r where "unat (a - p) = 8 * r" by (auto elim: dvdE)
  then have "unat (a - p) < 4080 \<or> a - p = of_nat 4080 \<or> a - p = of_nat 4088"
    using u by (cases "r < 510") (auto simp: word_eq_iff_unat)
  then show ?thesis by (auto simp: area_def node_def algebra_simps)
qed

lemma kmem_cache_grow_effect:
  fixes s :: "'a slab_state_scheme"
  assumes ok: "cache_ok (mem s) cp z L fl" and ka: "kalloc_ready s (p # ps)" and lk: "CacheLock cp \<notin> set (held s)"
    and ctor: "load64 (mem s) (cp + 88) = 0" and p: "p \<notin> insert cp (pages L)"
  defines "L' \<equiv> L(EMPTY := L EMPTY @ [p])"
  shows "\<exists>m'. kmem_cache_grow call cp s = Ok (4096, (kalloc_take p s)\<lparr>mem := m'\<rparr>) \<and>
    cache_ok m' cp z L' (fl(p := all_objs z p)) \<and> same_but (cache_words cp L') (mem s) m' \<and>
    same_objects z L (mem s) m'"
proof -
  note C = cache_okD [OF ok]
  note D = cache_listsD [OF C(1)]
  have kp: "kpage s p" "kalloc_inv s (p # ps)" "MemLock \<notin> set (held s)" using ka kalloc_invD(4) [of s "p # ps" p] by (auto simp: kalloc_ready_def)
  have "KERNEL_BASE_HIGH \<le> p" using order_trans [OF kalloc_invD(1) [OF kp(2)]] kp(1) by (simp add: kpage_def)
  then have "unat KERNEL_BASE_HIGH \<le> unat p" "unat p < unat PHYSTOP_HIGH"
    using kp(1) by (simp_all only: kpage_def word_less_nat_alt word_le_nat_alt)
  then have al: "aligned 12 p" "p \<noteq> 0" "unat p + 4096 < 2 ^ 64" using kp(1) by (auto simp: kpage_def)
  have pc: "p \<noteq> cp" "p \<notin> pages L" using p by auto
  have S: "page_slab p = p + 4048" using page_slab_eq [OF al(1), of 0] by simp
  let ?n = "of_nat (objects z) :: u32"
  define m2 where "m2 = store64 (store64 (list_init (p + 4080) (memset (mem s) p 0 4096)) (p + 4048) p) (p + 4064) cp"
  define m5 where "m5 = store32 (store32 m2 (p + 4056) ?n) (p + 4060) ?n"
  define s5 where "s5 = (kalloc_take p s)\<lparr>mem := m5\<rparr>"
  have np: "cp + i \<notin> pg p" if "i < 4096" for i using pg_off [OF D(1) al(1) that] pc by auto
  have sb2: "same_but (pg p) (mem s) m2" "same_but (pg p) (mem s) m5"
    unfolding m5_def m2_def by (rule new_header [OF al(1)])+
  have A: "aligned 3 (cp + 32)" "aligned 3 (cp + 88)" "aligned 3 (cp + 48)" using aligned_off [OF D(1)] by (simp_all add: aligned_def)
  have l5: "load64 (mem s5) (cp + 32) = of_nat z" "load64 (mem s5) (cp + 88) = 0" "load64 m2 (cp + 32) = of_nat z"
    using same_butD [OF sb2(2) A(1)] same_butD [OF sb2(2) A(2)] same_butD [OF sb2(1) A(1)] np D(5) ctor by (simp_all add: s5_def)
  obtain h m6 where g: "grow_loop call cp p [0..<objects z] 0 s5 = Ok (h, s5\<lparr>mem := m6\<rparr>)"
    "objs m6 h (all_objs z p)" "same_but (obj_addrs z p) m5 m6"
    using grow_loop_links [OF al(1) D(1) pc(1) al(2) D(3,4,2) l5(1,2), of 0 "objects z" 0 call] by (auto simp: all_objs_def s5_def)
  define m7 where "m7 = store64 m6 (p + 4072) h"
  note N = new_slab [OF al D(3,4,2), where m = "mem s" and cp = cp and ?m6.0 = m6 and h = h, folded m2_def, folded m5_def, OF g(3,2), folded m7_def]
  define m8 where "m8 = store64 m7 (cp + 48) (load64 m7 (cp + 48) + PGSIZE)"
  define m9 where "m9 = list_add_tail (node p) (cp + EMPTY) m8"
  have sb8: "same_but (insert (cp + 48) (pg p)) (mem s) m8"
    using same_but_trans [OF N(1) same_but_store64 [OF A(3)]] by (simp add: m8_def)
  have pa: "aligned 12 b" "b \<noteq> cp" "b \<noteq> p" if "b \<in> pages L" for b
    using that D(8,9) pc by (auto simp: pages_def slab_ok_def)
  have ar: "insert (cp + 48) (pg p) \<inter> area b = {}" if b: "b \<in> pages L" for b
  proof -
    have "x \<notin> pg p" if "x \<in> area b" for x
    proof -
      have "x - b < 4096" using that by (simp add: area_def word_less_nat_alt)
      then show ?thesis using pg_off [OF pa(1) [OF b] al(1), of "x - b"] pa(3) [OF b] by simp
    qed
    then show ?thesis using area_off [OF D(1) pa(1) [OF b], of 48] pa(2) [OF b] by auto
  qed
  have cl8: "cache_lists m8 cp z L fl"
  proof (rule cache_frame [OF C(1) sb8 _ _ ar])
    show "cp + 32 \<notin> insert (cp + 48) (pg p)" using np [of 32] by simp
    fix x assume "x \<in> list_nodes cp L"
    then consider k where "k \<in> heads" "x = cp + k" | b where "b \<in> pages L" "x = b + 4080"
      by (auto simp: list_nodes_def pages_def node_def)
    then show "x \<notin> insert (cp + 48) (pg p) \<and> x + 8 \<notin> insert (cp + 48) (pg p)"
    proof cases
      case 1
      have "k < 4096 \<and> k + 8 < 4096 \<and> k \<noteq> 48 \<and> k + 8 \<noteq> 48" using 1(1) by (auto simp: heads_def)
      then show ?thesis using np [of k] np [of "k + 8"] unfolding 1(2) add.assoc by (metis add_left_cancel insert_iff)
    next
      case 2
      have "x + 8 = b + 4088" unfolding 2(2) by (simp add: add.assoc)
      moreover have "(4080 :: u64) < 4096" "(4088 :: u64) < 4096" "(48 :: u64) < 4096" by simp_all
      ultimately show ?thesis
        using pa [OF 2(1)] pg_off [OF _ al(1), of b] off_eq [OF _ D(1), of b _ 48] unfolding 2(2) by (metis insert_iff)
    qed
  qed simp_all
  have "{cp + 48} \<inter> area p = {}" using area_off [OF D(1) al(1), of 48] pc by auto
  from slab_frame [OF _ this N(2) D(2,3), of m8]
  have "slab_ok m8 cp z p (all_objs z p)" using same_but_store64 [OF A(3)] by (simp add: m8_def)
  note E = cache_add [OF cl8 pc(2,1) this heads_mem(3), folded m9_def, folded L'_def]
  have "cache_ok m9 cp z L' (fl(p := all_objs z p))"
    using E(1) C(2-4) pc(2) all_objs(3) [of z p] D(4) unfolding cache_ok_def by (auto simp: L'_def pages_def heads_def)
  moreover have "same_but (cache_words cp L') (mem s) m9"
    unfolding same_but_def
  proof (intro allI impI)
    fix a assume a: "aligned 3 a" "a \<notin> cache_words cp L'"
    have sub: "list_nodes cp L \<subseteq> list_nodes cp L'" "node p \<in> list_nodes cp L'" "p \<in> pages L'"
      by (auto simp: list_nodes_def L'_def pages_def heads_def)
    have "a \<notin> pg p" using page_words [OF al(1) a(1)] a(2) sub(2,3) by (auto simp: cache_words_def)
    then have "load64 m8 a = load64 (mem s) a" using same_butD [OF sb8 a(1)] a(2) by (auto simp: cache_words_def)
    moreover have "load64 m9 a = load64 m8 a" using same_butD [OF E(2) a(1)] a(2) sub(1,2) by (auto simp: cache_words_def)
    ultimately show "load64 m9 a = load64 (mem s) a" by simp
  qed
  moreover have "same_objects z L (mem s) m9"
    unfolding same_objects_def
  proof (intro ballI allI impI)
    fix b i assume b: "b \<in> pages L" and i: "i < 4048" "aligned 3 i"
    obtain k where k: "k \<in> heads" "b \<in> set (L k)" using b by (auto simp: pages_def)
    have a: "b + i \<in> area b" "aligned 3 (b + i)" "i < 4096"
      using area_off [OF pa(1) [OF b] pa(1) [OF b], of i] aligned_off [OF pa(1) [OF b] i(2)] less_trans [of i 4048 4096] less_trans [of i 4048 4080] i(1) by auto
    have "b + i \<noteq> node p" "b + i \<noteq> node p + 8"
      using off_eq [OF pa(1) [OF b] al(1) a(3), of 4080] off_eq [OF pa(1) [OF b] al(1) a(3), of 4088] pa(3) [OF b] by (auto simp: node_def add.assoc)
    then have "load64 m9 (b + i) = load64 m8 (b + i)"
      using same_butD [OF E(2) a(2)] a(1) list_words_disjoint(1) [OF C(1) k] by blast
    moreover have "b + i \<notin> insert (cp + 48) (pg p)" using ar [OF b] a(1) by blast
    ultimately show "load64 m9 (b + i) = load64 (mem s) (b + i)" using same_butD [OF sb8 a(2)] by simp
  qed
  moreover have "kmem_cache_grow call cp s = Ok (4096, (kalloc_take p s)\<lparr>mem := m9\<rparr>)"
  proof -
    have o: "objects z \<le> 506" "0 < objects z" using objects_bound [OF D(4)] objects_pos [OF D(4,2)] by simp_all
    have zu: "unat (of_nat z :: u64) = z" using D(2) by (intro unat_of_nat_small) simp
    have un: "unat ?n = objects z" using o(1) by (intro unat_of_nat_small) simp
    have d: "(4048 :: u64) div of_nat z = of_nat (objects z)"
      unfolding word_eq_iff_unat unat_div zu using o(1) unat_of_nat_small [of "objects z", where 'a = 64] by (simp add: objects_def)
    have uc: "ucast ((4048 :: u64) div of_nat z) = ?n"
      using d o(1) by (simp add: unsigned_of_nat take_bit_nat_eq_self)
    have n0: "?n \<noteq> 0" "(of_nat z :: u64) \<noteq> 0" using un o(2) zu D(4) by auto
    have ac: "numeral k + p = p + numeral k" for k by (rule add.commute)
    show ?thesis
      using lk n0 un l5(3) g(1) unfolding kmem_cache_grow_def kalloc_Cons [OF kp(2,3)]
      by (simp add: S ac al(2) upd_mem_def Let_def uc s5_def flip: m2_def m5_def m7_def m8_def m9_def [unfolded node_def])
  qed
  ultimately show ?thesis by blast
qed

section \<open>Objects in use\<close>

definition live :: "nat \<Rightarrow> (u64 \<Rightarrow> u64 list) \<Rightarrow> (u64 \<Rightarrow> u64 list) \<Rightarrow> u64 set" where
  "live z L fl = {x. \<exists>b \<in> pages L. x \<in> obj_addrs z b \<and> x \<notin> set (fl b)}"

definition cache_inv ::
  "'a slab_state_scheme \<Rightarrow> u64 \<Rightarrow> nat \<Rightarrow> (u64 \<Rightarrow> u64 list) \<Rightarrow> (u64 \<Rightarrow> u64 list) \<Rightarrow> u64 list \<Rightarrow> bool" where
  "cache_inv s cp z L fl xs \<longleftrightarrow> cache_ok (mem s) cp z L fl \<and> kalloc_ready s xs \<and> CacheLock cp \<notin> set (held s) \<and>
     load64 (mem s) (cp + 88) = 0 \<and> set xs \<inter> insert cp (pages L) = {}"

text \<open>The words of an object.\<close>

definition contents :: "nat \<Rightarrow> 'a machine_scheme \<Rightarrow> u64 \<Rightarrow> u64 list" where
  "contents z s x = map (\<lambda>i. load64 (mem s) (x + of_nat (8 * i))) [0..<z div 8]"

lemma obj_word:
  assumes "x \<in> obj_addrs z b" "8 dvd z" "i < z div 8" "aligned 12 b"
  obtains j where "j < objects z" "x = b + of_nat (j * z)" "x + of_nat (8 * i) = b + of_nat (j * z + 8 * i)"
    "(of_nat (j * z + 8 * i) :: u64) < 4048" "aligned 3 (of_nat (j * z + 8 * i))" "unat (of_nat (j * z + 8 * i) :: u64) = j * z + 8 * i"
proof -
  obtain j where j: "j < objects z" "x = b + of_nat (j * z)" using assms(1) by (auto simp: obj_addrs_def)
  have "8 * i < z" using assms(3) by (metis dvd_mult_div_cancel assms(2) mult_less_mono2 zero_less_numeral)
  then have lt: "j * z + 8 * i < 4048" using obj_offset(1) [OF j(1)] by simp
  then have u: "unat (of_nat (j * z + 8 * i) :: u64) = j * z + 8 * i" by (intro unat_of_nat_small) simp
  show ?thesis
  proof (rule that [OF j])
    show "x + of_nat (8 * i) = b + of_nat (j * z + 8 * i)" by (simp add: j(2))
    show "(of_nat (j * z + 8 * i) :: u64) < 4048" using u lt by (simp add: word_less_nat_alt del: of_nat_add of_nat_mult)
    show "aligned 3 (of_nat (j * z + 8 * i) :: u64)" using u assms(2) by (simp add: aligned_def del: of_nat_add of_nat_mult)
    show "unat (of_nat (j * z + 8 * i) :: u64) = j * z + 8 * i" by (rule u)
  qed
qed

lemma contents_same:
  assumes c: "cache_lists m cp z L fl" and x: "x \<in> live z L fl" and so: "same_objects z L (mem s) (mem s')"
  shows "contents z s' x = contents z s x"
proof -
  note D = cache_listsD [OF c]
  obtain b where b: "b \<in> pages L" "x \<in> obj_addrs z b" using x by (auto simp: live_def)
  have al: "aligned 12 b" using b(1) D(9) by (auto simp: pages_def slab_ok_def)
  have "load64 (mem s') (x + of_nat (8 * i)) = load64 (mem s) (x + of_nat (8 * i))" if i: "i < z div 8" for i
  proof -
    obtain j where "x + of_nat (8 * i) = b + of_nat (j * z + 8 * i)" "(of_nat (j * z + 8 * i) :: u64) < 4048" "aligned 3 (of_nat (j * z + 8 * i))"
      using obj_word [OF b(2) D(3) i al] .
    then show ?thesis using so b(1) unfolding same_objects_def by metis
  qed
  then show ?thesis by (simp add: contents_def)
qed

lemma kalloc_ready_words:
  assumes c: "cache_lists m cp z L fl" and sb: "same_but (cache_words cp L) (mem s) m'"
    and ka: "kalloc_ready s xs" "set xs \<inter> insert cp (pages L) = {}"
  shows "kalloc_ready (s\<lparr>mem := m'\<rparr>) xs" "load64 m' (cp + 88) = load64 (mem s) (cp + 88)"
proof -
  have "aligned 12 x" if "x \<in> set xs" for x
    using ka(1) kalloc_invD(4) [of s xs x] that by (auto simp: kalloc_ready_def kpage_def)
  then have "load64 (mem s) x = load64 m' x" if "x \<in> set xs" for x
    using that same_butD [OF sb, of x] cache_words_fixed(2) [OF c, of x] ka(2) aligned_weaken [of 12 x 3] by (auto simp: disjoint_iff)
  then have "free_path m' (head_addr s) (head_next s) xs = free_path (mem s) (head_addr s) (head_next s) xs"
    by (intro free_path_cong) simp
  then show "kalloc_ready (s\<lparr>mem := m'\<rparr>) xs" using ka(1) by (simp add: kalloc_ready_def kalloc_inv_def kpage_def)
  show "load64 m' (cp + 88) = load64 (mem s) (cp + 88)"
    using same_butD [OF sb] cache_words_fixed(1) [OF c] aligned_off [OF cache_listsD(1) [OF c], of 88] by (simp add: aligned_def)
qed

text \<open>Taking an object from a cache with a free one.\<close>

lemma cache_alloc_some:
  assumes inv: "cache_inv s cp z L fl xs" and ne: "L PARTIAL \<noteq> [] \<or> L EMPTY \<noteq> []"
  shows "\<exists>r s' L' fl'. kmem_cache_alloc call cp flags s = Ok (r, s') \<and> cache_inv s' cp z L' fl' xs \<and> r \<noteq> 0 \<and>
    r \<notin> live z L fl \<and> live z L' fl' = insert r (live z L fl) \<and> same_objects z L (mem s) (mem s')"
proof -
  have i: "cache_ok (mem s) cp z L fl" "kalloc_ready s xs" "CacheLock cp \<notin> set (held s)" "load64 (mem s) (cp + 88) = 0"
    "set xs \<inter> insert cp (pages L) = {}" using inv by (simp_all add: cache_inv_def)
  note C = cache_okD [OF i(1)]
  note D = cache_listsD [OF C(1)]
  define k where "k = (if L PARTIAL = [] then EMPTY else PARTIAL)"
  obtain b bs where b: "L k = b # bs" using ne by (cases "L k") (auto simp: k_def split: if_splits)
  obtain x ys m' L' where A: "fl b = x # ys" "x \<in> obj_addrs z b" "kmem_cache_alloc call cp flags s = Ok (x, s\<lparr>mem := m'\<rparr>)"
    "cache_ok m' cp z L' (fl(b := ys))" "pages L' = pages L" "same_objects z L (mem s) m'" "same_but (cache_words cp L) (mem s) m'"
    using kmem_cache_alloc_step [OF i(1,3) k_def b] by metis
  have k: "k \<in> heads" "b \<in> set (L k)" using b by (auto simp: k_def)
  then have bp: "b \<in> pages L" by (auto simp: pages_def)
  have bok: "slab_ok (mem s) cp z b (fl b)" using D(9) [OF k(1,2)] .
  have "x \<noteq> 0" using obj_page(3) [OF D(2,3) bok A(2)] .
  moreover have "x \<notin> live z L fl"
  proof
    assume "x \<in> live z L fl"
    then obtain c where c: "c \<in> pages L" "x \<in> obj_addrs z c" "x \<notin> set (fl c)" by (auto simp: live_def)
    have "aligned 12 c" "aligned 12 b" using c(1) bp D(9) by (auto simp: pages_def slab_ok_def)
    moreover obtain u v where "x = b + u" "x = c + v" "u < 4048" "v < 4048"
      using obj_addrs_area [OF D(2,3) _ A(2)] obj_addrs_area [OF D(2,3) _ c(2)] calculation by metis
    ultimately have "b = c" using off_eq [of b c u v] less_trans [of u 4048 4096] less_trans [of v 4048 4096] by simp
    then show False using c(3) A(1) by simp
  qed
  moreover have "live z L' (fl(b := ys)) = insert x (live z L fl)"
  proof -
    have "distinct (x # ys)" using bok A(1) by (simp add: slab_ok_def)
    then show ?thesis using A(1,2,5) bp by (auto simp: live_def split: if_splits)
  qed
  moreover have "cache_inv (s\<lparr>mem := m'\<rparr>) cp z L' (fl(b := ys)) xs"
    using A(4,5) i(2-5) kalloc_ready_words [OF C(1) A(7) i(2,5)] by (simp add: cache_inv_def)
  ultimately show ?thesis using A(3,6) by (intro exI [of _ x] exI [of _ "s\<lparr>mem := m'\<rparr>"] exI [of _ L'] exI [of _ "fl(b := ys)"]) simp
qed

lemma cache_grow:
  assumes inv: "cache_inv s cp z L fl (p # ps)" and e: "L PARTIAL = []" "L EMPTY = []" and f: "flags \<noteq> 1"
  shows "\<exists>s' L' fl'. kmem_cache_alloc call cp flags s = kmem_cache_alloc call cp flags s' \<and> cache_inv s' cp z L' fl' ps \<and>
    L' EMPTY \<noteq> [] \<and> live z L' fl' = live z L fl \<and> same_objects z L (mem s) (mem s') \<and> pages L \<subseteq> pages L'"
proof -
  have i: "cache_ok (mem s) cp z L fl" "kalloc_ready s (p # ps)" "CacheLock cp \<notin> set (held s)" "load64 (mem s) (cp + 88) = 0"
    "set (p # ps) \<inter> insert cp (pages L) = {}" using inv unfolding cache_inv_def by blast+
  note C = cache_okD [OF i(1)]
  note D = cache_listsD [OF C(1)]
  have p: "p \<notin> insert cp (pages L)" using i(5) by auto
  define L' where "L' = L(EMPTY := L EMPTY @ [p])"
  obtain m' where g: "kmem_cache_grow call cp s = Ok (4096, (kalloc_take p s)\<lparr>mem := m'\<rparr>)"
    "cache_ok m' cp z L' (fl(p := all_objs z p))" "same_but (cache_words cp L') (mem s) m'" "same_objects z L (mem s) m'"
    using kmem_cache_grow_effect [OF i(1-4) p, folded L'_def] by metis
  define s1 where "s1 = (kalloc_take p s)\<lparr>mem := m'\<rparr>"
  have pg': "pages L' = insert p (pages L)" by (auto simp: L'_def pages_def heads_def)
  have dp: "distinct (p # ps)" using i(2) kalloc_invD(3) [of s "p # ps"] by (simp add: kalloc_ready_def)
  have ka: "kalloc_ready (kalloc_take p s) ps"
    using kalloc_take_inv [of s p ps] i(2) by (simp add: kalloc_ready_def)
  have al: "aligned 12 p" using i(2) kalloc_invD(4) [of s "p # ps" p] by (simp add: kalloc_ready_def kpage_def)
  have sb: "same_but (cache_words cp L') (mem (kalloc_take p s)) m'"
    unfolding same_but_def
  proof (intro allI impI)
    fix a assume a: "aligned 3 a" "a \<notin> cache_words cp L'"
    have "node p \<in> list_nodes cp L'" "p \<in> pages L'" by (auto simp: list_nodes_def L'_def pages_def)
    then have "a \<notin> pg p" using page_words [OF al a(1)] a(2) by (auto simp: cache_words_def)
    then show "load64 m' a = load64 (mem (kalloc_take p s)) a"
      using same_butD [OF g(3) a] same_butD [OF same_but_memset [OF al] a(1)] by simp
  qed
  have dj: "set ps \<inter> insert cp (pages L') = {}" using i(5) dp pg' by auto
  note W = kalloc_ready_words [OF cache_okD(1) [OF g(2)] sb ka dj]
  have "cp + 88 \<notin> pg p" using pg_off [OF D(1) al, of 88] p by auto
  then have "load64 m' (cp + 88) = 0"
    using W(2) same_butD [OF same_but_memset [OF al], of "cp + 88"] aligned_off [OF D(1), of 88] i(4) by (simp add: aligned_def)
  then have "cache_inv s1 cp z L' (fl(p := all_objs z p)) ps"
    using g(2) W(1) i(3) dj unfolding cache_inv_def s1_def by simp
  moreover have "live z L' (fl(p := all_objs z p)) = live z L fl"
    using p all_objs(2) [of z p] D(4) by (auto simp: live_def pg')
  moreover have "kmem_cache_alloc call cp flags s = kmem_cache_alloc call cp flags s1"
  proof -
    have le: "list_is_empty (cp + PARTIAL) (mem s)" "list_is_empty (cp + EMPTY) (mem s)"
      "list_is_empty (cp + PARTIAL) m'" "\<not> list_is_empty (cp + EMPTY) m'"
      using first_slab(1) [OF C(1)] first_slab(1) [OF cache_okD(1) [OF g(2)]] e by (simp_all add: L'_def)
    let ?s = "s\<lparr>held := CacheLock cp # held s\<rparr>" and ?s1 = "s1\<lparr>held := CacheLock cp # held s1\<rparr>"
    have h: "CacheLock cp \<notin> set (held s1)" "mem s1 = m'" using i(3) by (simp_all add: s1_def)
    have "find_slab (Suc (Suc 0)) call cp flags ?s = find_slab (Suc 0) call cp flags ?s1"
      using le f g(1) h by (subst find_slab.simps(2)) (simp del: find_slab.simps add: flip: s1_def)
    moreover have "find_slab (Suc (Suc 0)) call cp flags ?s1 = find_slab (Suc 0) call cp flags ?s1"
      using le h by (simp only: find_slab.simps if_True if_False) simp
    ultimately have "find_slab 2 call cp flags ?s = find_slab 2 call cp flags ?s1" by (simp only: numeral_2_eq_2)
    then show ?thesis
      unfolding kmem_cache_alloc_def acquire_free [OF i(3)] acquire_free [OF h(1)] bnd.simps if_not_P [OF D(6)] by (simp only:)
  qed
  moreover have "mem s1 = m'" "L' EMPTY \<noteq> []" "pages L \<subseteq> pages L'" using pg' by (auto simp: s1_def L'_def)
  ultimately show ?thesis using g(4) by blast
qed

lemma cache_alloc:
  assumes inv: "cache_inv s cp z L fl xs" and f: "flags \<noteq> 1"
  shows "if L PARTIAL = [] \<and> L EMPTY = [] \<and> xs = [] then kmem_cache_alloc call cp flags s = Ok (0, s)
    else \<exists>r s' L' fl' xs'. kmem_cache_alloc call cp flags s = Ok (r, s') \<and> cache_inv s' cp z L' fl' xs' \<and> r \<noteq> 0 \<and>
      r \<notin> live z L fl \<and> live z L' fl' = insert r (live z L fl) \<and> (\<forall>x \<in> live z L fl. contents z s' x = contents z s x)"
proof -
  have i: "cache_ok (mem s) cp z L fl" "kalloc_ready s xs" "CacheLock cp \<notin> set (held s)" using inv by (simp_all add: cache_inv_def)
  note C = cache_okD [OF i(1)]
  consider "L PARTIAL = []" "L EMPTY = []" "xs = []" | "L PARTIAL \<noteq> [] \<or> L EMPTY \<noteq> []"
    | p ps where "L PARTIAL = []" "L EMPTY = []" "xs = p # ps" by (cases xs) auto
  then show ?thesis
  proof cases
    case 1
    let ?s = "s\<lparr>held := CacheLock cp # held s\<rparr>"
    have le: "list_is_empty (cp + PARTIAL) (mem s)" "list_is_empty (cp + EMPTY) (mem s)"
      using first_slab(1) [OF C(1)] 1 by simp_all
    have "kmem_cache_grow call cp s = Ok (0, s)"
      using kalloc_Nil [of s] i(2) 1(3) by (simp add: kmem_cache_grow_def kalloc_ready_def)
    then have "find_slab (Suc (Suc 0)) call cp flags ?s = Ok (None, s)"
      using le f by (subst find_slab.simps(2)) (simp del: find_slab.simps)
    then have "find_slab 2 call cp flags ?s = Ok (None, s)" by (simp only: numeral_2_eq_2)
    then show ?thesis using 1 i(3) cache_listsD(6) [OF C(1)] by (simp add: kmem_cache_alloc_def)
  next
    case 2
    from cache_alloc_some [OF inv 2] obtain r s' L' fl' where r: "kmem_cache_alloc call cp flags s = Ok (r, s')"
      "cache_inv s' cp z L' fl' xs" "r \<noteq> 0" "r \<notin> live z L fl" "live z L' fl' = insert r (live z L fl)" "same_objects z L (mem s) (mem s')"
      by blast
    then show ?thesis using 2 contents_same [OF C(1) _ r(6)] by auto
  next
    case 3
    from cache_grow [OF _ 3(1,2) f] inv 3(3) obtain s1 L1 fl1 where g:
      "kmem_cache_alloc call cp flags s = kmem_cache_alloc call cp flags s1" "cache_inv s1 cp z L1 fl1 ps"
      "L1 EMPTY \<noteq> []" "live z L1 fl1 = live z L fl" "same_objects z L (mem s) (mem s1)" "pages L \<subseteq> pages L1" by blast
    from cache_alloc_some [OF g(2)] g(3) obtain r s' L' fl' where r: "kmem_cache_alloc call cp flags s1 = Ok (r, s')"
      "cache_inv s' cp z L' fl' ps" "r \<noteq> 0" "r \<notin> live z L1 fl1" "live z L' fl' = insert r (live z L1 fl1)" "same_objects z L1 (mem s1) (mem s')"
      by blast
    have "same_objects z L (mem s) (mem s')" using g(5,6) r(6) unfolding same_objects_def by (metis subsetD)
    then have "\<forall>x \<in> live z L fl. contents z s' x = contents z s x" using contents_same [OF C(1)] by blast
    then show ?thesis using 3 g(1,4) r(1-5) by auto
  qed
qed

text \<open>Putting an object back.\<close>

lemma objects_apart:
  assumes c: "cache_lists m cp z L fl" and x: "b \<in> pages L" "x \<in> obj_addrs z b" and y: "c \<in> pages L" "y \<in> obj_addrs z c" "y \<noteq> x"
    and i: "i < z div 8"
  shows "y + of_nat (8 * i) \<noteq> x"
proof
  note D = cache_listsD [OF c]
  assume e: "y + of_nat (8 * i) = x"
  have al: "aligned 12 b" "aligned 12 c" using x(1) y(1) D(9) by (auto simp: pages_def slab_ok_def)
  have "0 < z div 8" using i by simp
  obtain j where j: "j < objects z" "y = c + of_nat (j * z)" "y + of_nat (8 * i) = c + of_nat (j * z + 8 * i)"
    "(of_nat (j * z + 8 * i) :: u64) < 4048" "unat (of_nat (j * z + 8 * i) :: u64) = j * z + 8 * i"
    using obj_word [OF y(2) D(3) i al(2)] by metis
  obtain k where k: "k < objects z" "x = b + of_nat (k * z)" "x + of_nat (8 * 0) = b + of_nat (k * z + 8 * 0)"
    "(of_nat (k * z + 8 * 0) :: u64) < 4048" "unat (of_nat (k * z + 8 * 0) :: u64) = k * z + 8 * 0"
    using obj_word [OF x(2) D(3) _ al(1), of 0] \<open>0 < z div 8\<close> by metis
  define u v :: u64 where "u = of_nat (j * z + 8 * i)" and "v = of_nat (k * z + 8 * 0)"
  have "c + u = b + v" using e unfolding u_def v_def j(3) [symmetric] k(3) [symmetric] by simp
  moreover have "u < 4096" "v < 4096" using less_trans [OF j(4), of 4096] less_trans [OF k(4), of 4096] by (simp_all only: u_def v_def) simp_all
  ultimately have "c = b" "u = v" using off_eq [OF al(2,1)] by blast+
  then have "j * z + 8 * i = k * z" using j(5) k(5) unfolding u_def v_def by (metis add_0_right mult_0_right)
  moreover have "8 * i < z" using i D(3) by (metis dvd_mult_div_cancel mult_less_mono2 zero_less_numeral)
  ultimately have "(j * z + 8 * i) mod z = 0" "8 * i < z" by simp_all
  then have "i = 0" by simp
  then show False using y(3) e by simp
qed

lemma cache_free:
  assumes inv: "cache_inv s cp z L fl xs" and x: "x \<in> live z L fl"
  shows "\<exists>s' L' fl'. kmem_cache_free cp x s = Ok s' \<and> cache_inv s' cp z L' fl' xs \<and> live z L' fl' = live z L fl - {x} \<and>
    (\<forall>y \<in> live z L fl - {x}. contents z s' y = contents z s y)"
proof -
  have i: "cache_ok (mem s) cp z L fl" "kalloc_ready s xs" "CacheLock cp \<notin> set (held s)" "load64 (mem s) (cp + 88) = 0"
    "set xs \<inter> insert cp (pages L) = {}" using inv by (simp_all add: cache_inv_def)
  note C = cache_okD [OF i(1)]
  note D = cache_listsD [OF C(1)]
  obtain b where b: "b \<in> pages L" "x \<in> obj_addrs z b" "x \<notin> set (fl b)" using x by (auto simp: live_def)
  obtain m' L' where F: "kmem_cache_free cp x s = Ok (s\<lparr>mem := m'\<rparr>)" "cache_ok m' cp z L' (fl(b := x # fl b))"
    "pages L' = pages L" "same_but (cache_words cp L) (mem s) m'"
    "\<forall>c \<in> pages L. \<forall>i. i < 4048 \<longrightarrow> aligned 3 i \<longrightarrow> c + i \<noteq> x \<longrightarrow> load64 m' (c + i) = load64 (mem s) (c + i)"
    using kmem_cache_free_step(2) [OF i(1,3) b] by metis
  have al: "aligned 12 c" if "c \<in> pages L" for c using that D(9) by (auto simp: pages_def slab_ok_def)
  have "b = c" if cc: "c \<in> pages L" "x \<in> obj_addrs z c" for c
  proof -
    obtain u v where uv: "x = b + u" "x = c + v" "u < 4048" "v < 4048"
      using obj_addrs_area [OF D(2,3) al [OF b(1)] b(2)] obj_addrs_area [OF D(2,3) al [OF cc(1)] cc(2)] by metis
    then show ?thesis
      using off_eq [OF al [OF b(1)] al [OF cc(1)], of u v] less_trans [of u 4048 4096] less_trans [of v 4048 4096] by simp
  qed
  then have lv: "live z L' (fl(b := x # fl b)) = live z L fl - {x}" unfolding live_def F(3) by auto metis
  have ci: "cache_inv (s\<lparr>mem := m'\<rparr>) cp z L' (fl(b := x # fl b)) xs"
    using F(2,3) i(2-5) kalloc_ready_words [OF C(1) F(4) i(2,5)] by (simp add: cache_inv_def)
  have "contents z (s\<lparr>mem := m'\<rparr>) y = contents z s y" if y: "y \<in> live z L fl - {x}" for y
  proof -
    obtain c where c: "c \<in> pages L" "y \<in> obj_addrs z c" "y \<noteq> x" using y by (auto simp: live_def)
    have "load64 m' (y + of_nat (8 * i)) = load64 (mem s) (y + of_nat (8 * i))" if i: "i < z div 8" for i
    proof -
      obtain j where j: "y + of_nat (8 * i) = c + of_nat (j * z + 8 * i)" "(of_nat (j * z + 8 * i) :: u64) < 4048" "aligned 3 (of_nat (j * z + 8 * i))"
        using obj_word [OF c(2) D(3) i al [OF c(1)]] .
      moreover have "y + of_nat (8 * i) \<noteq> x" by (rule objects_apart [OF C(1) b(1,2) c i])
      ultimately show ?thesis using F(5) c(1) unfolding j(1) by blast
    qed
    then show ?thesis by (simp add: contents_def)
  qed
  then show ?thesis using F(1) lv ci by blast
qed

section \<open>The contract of an object allocator\<close>

text \<open>
  What a client of the allocator relies on: \<open>rep s A\<close> states that \<open>A\<close> are the objects in use. A
  client that frees only what it holds never fails and never holds an object twice.
\<close>

datatype obj_op = GetObj | PutObj nat

fun run_ops ::
  "('s \<Rightarrow> (u64 \<times> 's) outcome) \<Rightarrow> (u64 \<Rightarrow> 's \<Rightarrow> 's outcome) \<Rightarrow> obj_op list \<Rightarrow> u64 list \<Rightarrow> 's \<Rightarrow> (u64 list \<times> 's) outcome" where
  "run_ops alloc free [] xs s = Ok (xs, s)"
| "run_ops alloc free (GetObj # ops) xs s =
     bnd (alloc s) (\<lambda>(r, s). run_ops alloc free ops (if r = 0 then xs else r # xs) s)"
| "run_ops alloc free (PutObj n # ops) xs s =
     (if n < length xs then bnd (free (xs ! n) s) (run_ops alloc free ops (take n xs @ drop (Suc n) xs))
      else run_ops alloc free ops xs s)"

lemma distinct_del: "xs = us @ y # vs \<Longrightarrow> distinct xs \<Longrightarrow> distinct (us @ vs) \<and> set (us @ vs) = set xs - {y}"
  by auto

locale object_allocator =
  fixes alloc :: "'s \<Rightarrow> (u64 \<times> 's) outcome"
    and free :: "u64 \<Rightarrow> 's \<Rightarrow> 's outcome"
    and rep :: "'s \<Rightarrow> u64 set \<Rightarrow> bool"
    and cont :: "'s \<Rightarrow> u64 \<Rightarrow> u64 list"
  assumes alloc_law: "rep s A \<Longrightarrow> \<exists>r s'. alloc s = Ok (r, s') \<and>
      (r = 0 \<and> s' = s \<or> r \<noteq> 0 \<and> r \<notin> A \<and> rep s' (insert r A) \<and> (\<forall>x \<in> A. cont s' x = cont s x))"
    and free_law: "rep s A \<Longrightarrow> x \<in> A \<Longrightarrow>
      \<exists>s'. free x s = Ok s' \<and> rep s' (A - {x}) \<and> (\<forall>y \<in> A - {x}. cont s' y = cont s y)"
begin

lemma run_ops_safe:
  "rep s (set xs) \<Longrightarrow> distinct xs \<Longrightarrow>
    \<exists>ys s'. run_ops alloc free ops xs s = Ok (ys, s') \<and> distinct ys \<and> rep s' (set ys)"
proof (induction ops arbitrary: xs s)
  case Nil
  then show ?case by simp
next
  case (Cons a ops)
  show ?case
  proof (cases a)
    case GetObj
    from alloc_law [OF Cons.prems(1)] obtain r s' where r: "alloc s = Ok (r, s')"
      "r = 0 \<and> s' = s \<or> r \<noteq> 0 \<and> r \<notin> set xs \<and> rep s' (set (r # xs))" by auto
    then have "rep s' (set (if r = 0 then xs else r # xs))" "distinct (if r = 0 then xs else r # xs)"
      using Cons.prems by auto
    from Cons.IH [OF this] show ?thesis using r(1) by (simp add: GetObj)
  next
    case (PutObj n)
    show ?thesis
    proof (cases "n < length xs")
      case True
      have e: "xs = take n xs @ xs ! n # drop (Suc n) xs" using True by (rule id_take_nth_drop)
      have dd: "distinct (take n xs @ drop (Suc n) xs)" "set (take n xs @ drop (Suc n) xs) = set xs - {xs ! n}"
        using distinct_del [OF e Cons.prems(2)] by simp_all
      from free_law [OF Cons.prems(1), of "xs ! n"] True obtain s' where
        s': "free (xs ! n) s = Ok s'" "rep s' (set (take n xs @ drop (Suc n) xs))" unfolding dd(2) by auto
      from Cons.IH [OF s'(2) dd(1)] show ?thesis using True s'(1) by (simp add: PutObj)
    qed (use Cons PutObj in simp)
  qed
qed

end

definition cache_rep :: "u64 \<Rightarrow> nat \<Rightarrow> 'a slab_state_scheme \<Rightarrow> u64 set \<Rightarrow> bool" where
  "cache_rep cp z s A \<longleftrightarrow> (\<exists>L fl xs. cache_inv s cp z L fl xs \<and> A = live z L fl)"

interpretation kc: object_allocator "kmem_cache_alloc call cp 0" "kmem_cache_free cp" "cache_rep cp z" "contents z"
proof
  fix s :: "'a slab_state_scheme" and A
  assume "cache_rep cp z s A"
  then obtain L fl xs where i: "cache_inv s cp z L fl xs" "A = live z L fl" by (auto simp: cache_rep_def)
  show "\<exists>r s'. kmem_cache_alloc call cp 0 s = Ok (r, s') \<and> (r = 0 \<and> s' = s \<or> r \<noteq> 0 \<and> r \<notin> A \<and>
      cache_rep cp z s' (insert r A) \<and> (\<forall>x \<in> A. contents z s' x = contents z s x))"
  proof (cases "L PARTIAL = [] \<and> L EMPTY = [] \<and> xs = []")
    case True
    then show ?thesis using cache_alloc [OF i(1) zero_neq_one, of call] by simp
  next
    case False
    then show ?thesis using cache_alloc [OF i(1) zero_neq_one, of call] unfolding i(2) cache_rep_def if_not_P [OF False] by metis
  qed
next
  fix s :: "'a slab_state_scheme" and A x
  assume "cache_rep cp z s A" "x \<in> A"
  then obtain L fl xs where i: "cache_inv s cp z L fl xs" "A = live z L fl" by (auto simp: cache_rep_def)
  show "\<exists>s'. kmem_cache_free cp x s = Ok s' \<and> cache_rep cp z s' (A - {x}) \<and> (\<forall>y \<in> A - {x}. contents z s' y = contents z s y)"
    using cache_free [OF i(1), of x] \<open>x \<in> A\<close> unfolding i(2) cache_rep_def by metis
qed

section \<open>Properties\<close>

text \<open>A cache of 64-byte objects without slabs, and one free page, for the witnesses.\<close>

definition cache_mem :: memory where
  "cache_mem = store64 (list_init (ex_p + EMPTY) (list_init (ex_p + PARTIAL) (list_init (ex_p + FULL)
     (store64 (\<lambda>_. 0) (ex_p + 32) 64)))) ex_x ex_head"

definition cache_ex :: slab_state where
  "cache_ex = kern.extend (ex\<lparr>mem := cache_mem\<rparr>) (slab_state.fields 0 True (\<lambda>_. ex_p) True 0)"

lemma cache_ex_inv: "cache_inv cache_ex ex_p 64 (\<lambda>_. []) (\<lambda>_. []) [ex_x]"
proof -
  have ld: "load64 cache_mem (ex_p + 32) = 64" "load64 cache_mem (ex_p + 88) = 0" "load64 cache_mem ex_x = ex_head"
    and lk: "\<And>k. k \<in> heads \<Longrightarrow> load64 cache_mem (ex_p + k) = ex_p + k \<and> load64 cache_mem (ex_p + k + 8) = ex_p + k"
    by (auto simp: cache_mem_def list_init_def load64_store64 load_zero aligned_def heads_def)
  have "dlist cache_mem (ex_p + k) []" if "k \<in> heads" for k
    using lk [OF that] that by (auto simp: dlist_def link_def nodes_ok_def aligned_def heads_def)
  then have "cache_ok cache_mem ex_p 64 (\<lambda>_. []) (\<lambda>_. [])"
    using ld(1) by (simp add: cache_ok_def cache_lists_def)
  moreover have "kalloc_ready cache_ex [ex_x]"
    using ld(3) by (simp add: kalloc_ready_def kalloc_inv_def kpage_def cache_ex_def kern.extend_def slab_state.fields_def ex_def aligned_def)
  ultimately show ?thesis
    using ld(2) by (simp add: cache_inv_def pages_def cache_ex_def kern.extend_def slab_state.fields_def ex_def)
qed



text \<open>
  C29. \<open>kmem_cache_free\<close> of an object in use succeeds; exactly this object is no longer in use, the
  cache is well formed again, the free pages are the same, and the contents of all other objects in
  use are unchanged.
\<close>

theorem kmem_cache_free_correct:
  assumes "cache_inv s cp z L fl xs" "x \<in> live z L fl"
  shows "\<exists>s' L' fl'. kmem_cache_free cp x s = Ok s' \<and> cache_inv s' cp z L' fl' xs \<and> live z L' fl' = live z L fl - {x} \<and>
    (\<forall>y \<in> live z L fl - {x}. contents z s' y = contents z s y)"
  using assms by (rule cache_free)

theorem kmem_cache_free_correct_witness:
  "\<exists>r s1 s2. kmem_cache_alloc (\<lambda>_ _ _. Ok) ex_p 0 cache_ex = Ok (r, s1) \<and> kmem_cache_free ex_p r s1 = Ok s2"
proof -
  obtain r s1 L fl xs where r: "kmem_cache_alloc (\<lambda>_ _ _. Ok) ex_p 0 cache_ex = Ok (r, s1)" "cache_inv s1 ex_p 64 L fl xs" "r \<in> live 64 L fl"
    using cache_alloc [OF cache_ex_inv zero_neq_one, of "\<lambda>_ _ _. Ok"] by auto
  from kmem_cache_free_correct [OF r(2,3)] r(1) show ?thesis by blast
qed

text \<open>Freeing an object that is already free leaves the whole state unchanged.\<close>

theorem kmem_cache_double_free:
  assumes "cache_inv s cp z L fl xs" "b \<in> pages L" "x \<in> set (fl b)"
  shows "kmem_cache_free cp x s = Ok s"
proof -
  have i: "cache_ok (mem s) cp z L fl" "CacheLock cp \<notin> set (held s)" using assms(1) by (simp_all add: cache_inv_def)
  obtain k where "k \<in> heads" "b \<in> set (L k)" using assms(2) by (auto simp: pages_def)
  then have "slab_ok (mem s) cp z b (fl b)" using cache_listsD(9) [OF cache_okD(1) [OF i(1)]] by blast
  then have "x \<in> obj_addrs z b" using assms(3) by (auto simp: slab_ok_def)
  then show ?thesis using kmem_cache_free_step(1) [OF i assms(2)] assms(3) by blast
qed

theorem kmem_cache_double_free_witness:
  "\<exists>x s. kmem_cache_free ex_p x (s :: slab_state) = Ok s \<and> x \<noteq> 0"
proof -
  obtain s L fl where g: "cache_inv (s :: slab_state) ex_p 64 L fl []" "L EMPTY \<noteq> []"
    using cache_grow [OF cache_ex_inv _ _ zero_neq_one] by blast
  have ok: "cache_ok (mem s) ex_p 64 L fl" using g(1) by (simp add: cache_inv_def)
  obtain b where b: "b \<in> set (L EMPTY)" using g(2) by (cases "L EMPTY") auto
  have sl: "slab_ok (mem s) ex_p 64 b (fl b)" using cache_listsD(9) [OF cache_okD(1) [OF ok] _ b] by simp
  have "length (fl b) = 63" using cache_okD(4) [OF ok b] by (simp add: objects_def)
  then obtain x where x: "x \<in> set (fl b)" by (cases "fl b") auto
  then have "x \<noteq> 0" using obj_page(3) [OF _ _ sl, of x] sl by (auto simp: slab_ok_def)
  moreover have "b \<in> pages L" unfolding pages_def using b heads_mem(3) by blast
  then have "kmem_cache_free ex_p x s = Ok s" by (rule kmem_cache_double_free [OF g(1) _ x])
  ultimately show ?thesis by blast
qed

text \<open>
  C30. Any sequence of allocations and releases by clients that free only what they hold runs to the
  end, and the clients never hold an object twice.
\<close>

theorem slab_clients_safe:
  assumes "cache_rep cp z s (set xs)" "distinct xs"
  shows "\<exists>ys s'. run_ops (kmem_cache_alloc call cp 0) (kmem_cache_free cp) ops xs s = Ok (ys, s') \<and> distinct ys \<and>
    cache_rep cp z s' (set ys)"
  using assms by (rule kc.run_ops_safe)

theorem slab_clients_safe_witness:
  "\<exists>ys s'. run_ops (kmem_cache_alloc (\<lambda>_ _ _. Ok) ex_p 0) (kmem_cache_free ex_p) [GetObj, GetObj, PutObj 1, GetObj] [] cache_ex = Ok (ys, s') \<and> distinct ys"
proof -
  have "cache_rep ex_p 64 cache_ex (set [])" using cache_ex_inv by (force simp: cache_rep_def live_def pages_def)
  from slab_clients_safe [OF this, of "\<lambda>_ _ _. Ok" "[GetObj, GetObj, PutObj 1, GetObj]"] show ?thesis by auto
qed

text \<open>
  A request of at most 2048 bytes is served from the smallest size class that holds it: the class
  exists, its objects are large enough, and the next smaller class, if any, is too small.
\<close>

theorem size_class_smallest:
  assumes "sz \<le> KMALLOC_MAX_SLAB_SIZE"
  shows "\<exists>idx < 9. size_class sz = Some idx \<and> sz \<le> push_bit idx 8 \<and> (\<forall>j < idx. push_bit j 8 < sz)"
proof (cases "size_class sz")
  case None
  then have "\<forall>x < 9. push_bit x 8 < sz" by (auto simp: size_class_def find_None_iff simp del: upt_rec_numeral)
  from spec [OF this, of 8] show ?thesis using assms by simp
next
  case (Some idx)
  then obtain i where "i < 9" "idx = [0..<9] ! i" "\<not> push_bit idx 8 < sz" "\<forall>j < i. push_bit ([0..<9] ! j) 8 < sz"
    unfolding size_class_def find_Some_iff by (auto simp del: upt_rec_numeral)
  then show ?thesis using Some by (intro exI [of _ idx]) (auto simp del: upt_rec_numeral simp: not_less)
qed

theorem size_class_smallest_witness: "size_class 100 = Some 4"
  using size_class_smallest [of 100] by (simp add: size_class_def upt_rec)

end
