(* ===== verification/Path.thy ===== *)
theory Path
  imports Process "HOL-Library.Sublist"
begin

text \<open>
  Path names: \<open>skipelem\<close> and \<open>namecmp\<close> of \<open>kernel/fs/fs.c\<close> and the path functions of
  \<open>kernel/fs/vfs.c\<close>. A NUL-terminated string is the list of its characters without the NUL; the
  output buffer of \<open>vfs_normalize_path\<close> is the list of its first \<open>out_len\<close> characters, whose length
  is the variable \<open>out_len\<close>.
\<close>

abbreviation PATH_MAX :: nat where "PATH_MAX \<equiv> 128"
abbreviation DIRSIZ :: nat where "DIRSIZ \<equiv> 24"
abbreviation slash :: char where "slash \<equiv> CHR ''/''"

section \<open>fs.c\<close>

text \<open>\<open>skipelem\<close>: the name of the next element and the rest of the path, \<open>None\<close> for null.\<close>

definition skipelem :: "string \<Rightarrow> (string \<times> string) option" where
  "skipelem path =
     (let path = dropWhile (\<lambda>c. c = slash) path in
      if path = [] then None
      else
        let s = path;
            path = dropWhile (\<lambda>c. c \<noteq> slash) path;
            len = length s - length path;
            len = (if len \<ge> PATH_MAX then PATH_MAX - 1 else len);
            name = take len s
        in Some (name, dropWhile (\<lambda>c. c = slash) path))"

fun string_strncmp :: "nat \<Rightarrow> string \<Rightarrow> string \<Rightarrow> int" where
  "string_strncmp 0 s t = 0"
| "string_strncmp (Suc n) [] [] = 0"
| "string_strncmp (Suc n) [] (d # t) = - int (of_char d)"
| "string_strncmp (Suc n) (c # s) [] = int (of_char c)"
| "string_strncmp (Suc n) (c # s) (d # t) =
     (if c = d then string_strncmp n s t else int (of_char c) - int (of_char d))"

definition namecmp :: "string \<Rightarrow> string \<Rightarrow> int" where
  "namecmp s t = string_strncmp DIRSIZ s t"

section \<open>vfs.c\<close>

fun path_elem_eq :: "string \<Rightarrow> string \<Rightarrow> bool" where
  "path_elem_eq [] t \<longleftrightarrow> t = []"
| "path_elem_eq (c # s) [] \<longleftrightarrow> False"
| "path_elem_eq (c # s) (d # t) \<longleftrightarrow> c = d \<and> path_elem_eq s t"

fun append_chars :: "string \<Rightarrow> string \<Rightarrow> string" where
  "append_chars out [] = out"
| "append_chars out (c # cs) = (if length out < PATH_MAX - 1 then append_chars (out @ [c]) cs else out)"

definition append_path_elem :: "string \<Rightarrow> string \<Rightarrow> string" where
  "append_path_elem out elem =
     (let out = (if length out > 1 \<and> length out < PATH_MAX - 1 then out @ [slash] else out)
      in append_chars out elem)"

function pop_chars :: "string \<Rightarrow> string" where
  "pop_chars out = (if length out > 1 \<and> last out \<noteq> slash then pop_chars (butlast out) else out)"
  by pat_completeness auto
termination
  by (relation "measure length") auto

definition pop_path_elem :: "string \<Rightarrow> string" where
  "pop_path_elem out =
     (if length out \<le> 1 then [slash]
      else
        let out = pop_chars out in
        if length out > 1 then butlast out else out)"

lemma rest_shorter:
  "dropWhile (\<lambda>c. c = slash) path \<noteq> [] \<Longrightarrow>
    length (dropWhile (\<lambda>c. c \<noteq> slash) (dropWhile (\<lambda>c. c = slash) path)) < length path"
proof (induction path)
  case (Cons c path)
  then show ?case using length_dropWhile_le [of "\<lambda>c. c \<noteq> slash" path] by (cases "c = slash") auto
qed simp

function normalize_loop :: "string \<Rightarrow> string \<Rightarrow> string" where
  "normalize_loop path out =
     (if path = [] then out
      else
        let path = dropWhile (\<lambda>c. c = slash) path in
        if path = [] then out
        else
          let elem = takeWhile (\<lambda>c. c \<noteq> slash) path;
              rest = dropWhile (\<lambda>c. c \<noteq> slash) path
          in if path_elem_eq elem ''.'' then normalize_loop rest out
             else if path_elem_eq elem ''..'' then normalize_loop rest (pop_path_elem out)
             else normalize_loop rest (append_path_elem out elem))"
  by pat_completeness auto
termination
  by (relation "measure (\<lambda>(path, out). length path)") (simp_all add: rest_shorter del: dropWhile_eq_Nil_conv)

definition vfs_normalize_path :: "string \<Rightarrow> string" where
  "vfs_normalize_path path = take (PATH_MAX - 1) (normalize_loop path [slash])"

text \<open>The two copy loops of \<open>vfs_make_absolute_path\<close> fill \<open>raw\<close> up to \<open>PATH_MAX - 1\<close> characters.\<close>

definition vfs_make_absolute_path :: "'a kern_scheme \<Rightarrow> string \<Rightarrow> string" where
  "vfs_make_absolute_path s path =
     (if path \<noteq> [] \<and> hd path = slash then vfs_normalize_path (take (PATH_MAX - 1) path)
      else
        let raw = append_chars [] (cwd (get_proc s));
            raw = (if length raw > 1 \<and> length raw < PATH_MAX - 1 then raw @ [slash] else raw);
            raw = append_chars raw path
        in vfs_normalize_path raw)"

section \<open>Reference definitions\<close>

text \<open>The elements of a path, their resolution against a stack of names, and the canonical path.\<close>

fun split_slash :: "string \<Rightarrow> string list" where
  "split_slash [] = [[]]"
| "split_slash (c # cs) =
     (if c = slash then [] # split_slash cs else (c # hd (split_slash cs)) # tl (split_slash cs))"

definition components :: "string \<Rightarrow> string list" where
  "components path = filter (\<lambda>e. e \<noteq> []) (split_slash path)"

definition enter :: "string list \<Rightarrow> string \<Rightarrow> string list" where
  "enter st e = (if e = ''.'' then st else if e = ''..'' then butlast st else st @ [e])"

definition resolve :: "string list \<Rightarrow> string list" where
  "resolve es = foldl enter [] es"

definition join :: "string list \<Rightarrow> string" where
  "join es = concat (map (\<lambda>e. slash # e) es)"

definition render :: "string list \<Rightarrow> string" where
  "render es = (if es = [] then [slash] else join es)"

text \<open>Names that can stand in a canonical path.\<close>

definition plain :: "string \<Rightarrow> bool" where
  "plain e \<longleftrightarrow> e \<noteq> [] \<and> slash \<notin> set e"

section \<open>Normalization\<close>

lemma path_elem_eq_iff [simp]: "path_elem_eq s t \<longleftrightarrow> s = t"
  by (induction s t rule: path_elem_eq.induct) auto

lemma append_chars_eq: "length out \<le> PATH_MAX - 1 \<Longrightarrow> append_chars out cs = out @ take (PATH_MAX - 1 - length out) cs"
proof (induction cs arbitrary: out)
  case (Cons c cs)
  show ?case
  proof (cases "length out < PATH_MAX - 1")
    case True
    then have "append_chars out (c # cs) = (out @ [c]) @ take (PATH_MAX - 1 - Suc (length out)) cs" using Cons.IH [of "out @ [c]"] by simp
    also have "\<dots> = out @ take (PATH_MAX - 1 - length out) (c # cs)" using True by (simp add: take_Cons')
    finally show ?thesis .
  qed (use Cons in simp)
qed simp

lemma split_slash_eq:
  "split_slash p = takeWhile (\<lambda>c. c \<noteq> slash) p #
     (case dropWhile (\<lambda>c. c \<noteq> slash) p of [] \<Rightarrow> [] | _ # r \<Rightarrow> split_slash r)"
  by (induction p) auto

lemma components_Nil [simp]: "components [] = []"
  by (simp add: components_def)

lemma components_slash [simp]: "components (slash # p) = components p"
  by (simp add: components_def)

lemma components_drop: "components (dropWhile (\<lambda>c. c = slash) p) = components p"
  by (induction p) auto

lemma components_step:
  assumes "p \<noteq> []" "hd p \<noteq> slash"
  shows "components p = takeWhile (\<lambda>c. c \<noteq> slash) p # components (dropWhile (\<lambda>c. c \<noteq> slash) p)"
proof -
  have "takeWhile (\<lambda>c. c \<noteq> slash) p \<noteq> []" using assms by (cases p) auto
  moreover have "components (dropWhile (\<lambda>c. c \<noteq> slash) p) =
      filter (\<lambda>e. e \<noteq> []) (case dropWhile (\<lambda>c. c \<noteq> slash) p of [] \<Rightarrow> [] | _ # r \<Rightarrow> split_slash r)"
  proof (cases "dropWhile (\<lambda>c. c \<noteq> slash) p")
    case (Cons c r)
    then have "c = slash" using hd_dropWhile [of "\<lambda>c. c \<noteq> slash" p] by auto
    then show ?thesis using Cons by (simp add: components_def)
  next
    case Nil
    show ?thesis unfolding Nil by simp
  qed
  ultimately show ?thesis by (subst components_def, subst split_slash_eq) simp
qed

lemma components_plain: "e \<in> set (components p) \<Longrightarrow> plain e"
proof -
  have "\<forall>e \<in> set (split_slash p). slash \<notin> set e"
  proof (induction p)
    case (Cons c p)
    then show ?case using split_slash_eq [of p] by auto
  qed simp
  then show "e \<in> set (components p) \<Longrightarrow> plain e" by (auto simp: components_def plain_def)
qed

lemma components_append: "components (p @ slash # q) = components p @ components q"
proof -
  have "split_slash (p @ slash # q) = split_slash p @ split_slash q"
  proof (induction p)
    case (Cons c p)
    then show ?case using split_slash_eq [of p] by auto
  qed simp
  then show ?thesis by (simp add: components_def)
qed

lemma join_snoc [simp]: "join (es @ [e]) = join es @ slash # e"
  by (simp add: join_def)

lemma join_Nil [simp]: "join [] = []"
  by (simp add: join_def)

lemma pop_chars_join:
  assumes "plain e"
  shows "pop_chars (join es @ slash # e) = join es @ [slash]"
proof -
  have "pop_chars (us @ slash # vs) = us @ [slash]" if "slash \<notin> set vs" for us vs
    using that
  proof (induction vs rule: rev_induct)
    case (snoc c vs)
    then show ?case by (subst pop_chars.simps) (auto simp del: pop_chars.simps simp: butlast_append)
  qed (subst pop_chars.simps, simp)
  then show ?thesis using assms by (simp add: plain_def del: pop_chars.simps)
qed

lemma pop_path_elem_render:
  assumes "\<forall>e \<in> set es. plain e"
  shows "pop_path_elem (render es) = render (butlast es)"
proof (cases es rule: rev_cases)
  case Nil
  then show ?thesis by (simp add: render_def pop_path_elem_def)
next
  case (snoc ds d)
  have d: "plain d" "d \<noteq> []" using assms snoc by (auto simp: plain_def)
  show ?thesis
    using pop_chars_join [OF d(1), of ds] d(2)
    by (cases ds) (auto simp: render_def pop_path_elem_def snoc join_def butlast_append simp del: pop_chars.simps)
qed

lemma append_path_elem_render:
  assumes "length (join es) + Suc (length e) \<le> PATH_MAX - 1" "\<forall>e \<in> set es. plain e"
  shows "append_path_elem (render es) e = render (es @ [e])"
proof (cases es)
  case Nil
  then show ?thesis using assms by (simp add: append_path_elem_def render_def append_chars_eq join_def)
next
  case (Cons d ds)
  then have "length (join es) > 1" using assms(2) by (auto simp: join_def plain_def)
  then show ?thesis using assms(1) Cons by (simp add: append_path_elem_def render_def append_chars_eq join_def)
qed

lemma enter_plain: "\<forall>e \<in> set st. plain e \<Longrightarrow> plain e \<Longrightarrow> \<forall>e \<in> set (enter st e). plain e"
  by (auto simp: enter_def dest: in_set_butlastD)

lemma join_butlast: "length (join (butlast es)) \<le> length (join es)"
  by (cases es rule: rev_cases) auto

lemma normalize_loop_render:
  "\<forall>e \<in> set st. plain e \<Longrightarrow> path = [] \<or> hd path = slash \<Longrightarrow> length (join st) + length path \<le> PATH_MAX - 1 \<Longrightarrow>
    normalize_loop path (render st) = render (foldl enter st (components path)) \<and>
    (\<forall>e \<in> set (foldl enter st (components path)). plain e) \<and>
    length (join (foldl enter st (components path))) \<le> PATH_MAX - 1"
proof (induction "length path" arbitrary: path st rule: less_induct)
  case less
  let ?p = "dropWhile (\<lambda>c. c = slash) path"
  show ?case
  proof (cases "?p = []")
    case True
    then have "components path = []" using components_drop [of path] unfolding True by simp
    then show ?thesis using True less.prems by (subst normalize_loop.simps) (simp add: Let_def)
  next
    case False
    define elem rest where "elem = takeWhile (\<lambda>c. c \<noteq> slash) ?p" and "rest = dropWhile (\<lambda>c. c \<noteq> slash) ?p"
    have hd: "hd ?p \<noteq> slash" using hd_dropWhile [OF False] by simp
    have comp: "components path = elem # components rest"
      using components_step [OF False hd] components_drop [of path] by (simp add: elem_def rest_def)
    have el: "plain elem" using components_plain [of elem path] comp by simp
    have rs: "rest = [] \<or> hd rest = slash" using hd_dropWhile [of "\<lambda>c. c \<noteq> slash" ?p] by (auto simp: rest_def)
    have "path \<noteq> []" using False by auto
    then have "hd path = slash" using less.prems(2) by simp
    then have "length ?p < length path"
      using \<open>path \<noteq> []\<close> length_dropWhile_le [of "\<lambda>c. c = slash" "tl path"] by (cases path) (auto simp: less_Suc_eq_le)
    moreover have "length ?p = length elem + length rest"
      unfolding elem_def rest_def by (metis length_append takeWhile_dropWhile_id)
    ultimately have len: "Suc (length elem) + length rest \<le> length path" by simp
    define st' where "st' = enter st elem"
    have st': "\<forall>e \<in> set st'. plain e" using enter_plain [OF less.prems(1) el] by (simp add: st'_def)
    have jl: "length (join st') + length rest \<le> PATH_MAX - 1"
      using less.prems(3) len join_butlast [of st] by (auto simp: st'_def enter_def)
    have ae: "elem \<noteq> ''.'' \<Longrightarrow> elem \<noteq> ''..'' \<Longrightarrow> append_path_elem (render st) elem = render st'"
      using append_path_elem_render [of st elem] less.prems(1,3) len by (simp add: st'_def enter_def)
    have "normalize_loop path (render st) = normalize_loop rest (render st')"
      using False \<open>path \<noteq> []\<close> ae pop_path_elem_render [OF less.prems(1)]
      by (subst normalize_loop.simps) (simp add: Let_def st'_def enter_def del: normalize_loop.simps dropWhile_eq_Nil_conv flip: elem_def rest_def)
    moreover have "length rest < length path" using len by simp
    ultimately show ?thesis using less.hyps [OF _ st' rs jl] comp by (simp add: st'_def del: normalize_loop.simps)
  qed
qed

lemma components_join:
  assumes "\<forall>e \<in> set es. plain e"
  shows "components (join es) = es"
  using assms
proof (induction es rule: rev_induct)
  case (snoc e es)
  have "components e = [e]"
  proof -
    have "takeWhile (\<lambda>c. c \<noteq> slash) e = e" "dropWhile (\<lambda>c. c \<noteq> slash) e = []"
      using snoc.prems by (auto simp: plain_def takeWhile_eq_all_conv)
    moreover have "e \<noteq> []" "hd e \<noteq> slash" using snoc.prems hd_in_set [of e] by (force simp: plain_def)+
    ultimately show ?thesis using components_step [of e] by (simp only: components_Nil not_False_eq_True)
  qed
  then show ?case using snoc components_append [of "join es" e] by simp
qed simp

lemma components_render: "\<forall>e \<in> set es. plain e \<Longrightarrow> components (render es) = es"
  using components_join [of es] components_slash [of "[]"] by (cases "es = []") (simp_all only: render_def components_Nil if_True if_False refl)

lemma enter_set:
  assumes "\<forall>x \<in> set st. P x" "e \<noteq> ''.'' \<longrightarrow> e \<noteq> ''..'' \<longrightarrow> P e"
  shows "\<forall>x \<in> set (enter st e). P x"
proof -
  consider "enter st e = st" | "enter st e = butlast st" | "enter st e = st @ [e]" "P e"
    using assms(2) unfolding enter_def by presburger
  then show ?thesis
  proof cases
    case 2
    then show ?thesis using assms(1) in_set_butlastD [of _ st] by simp
  qed (use assms(1) in simp_all)
qed

lemma foldl_enter_set:
  "\<forall>x \<in> set st. P x \<Longrightarrow> \<forall>e \<in> set es. e \<noteq> ''.'' \<longrightarrow> e \<noteq> ''..'' \<longrightarrow> P e \<Longrightarrow> \<forall>x \<in> set (foldl enter st es). P x"
proof (induction es arbitrary: st)
  case (Cons e es)
  have "\<forall>x \<in> set (enter st e). P x" using Cons.prems by (intro enter_set) simp_all
  from Cons.IH [OF this] Cons.prems(2) show ?case by simp
qed simp

lemma resolve_plain:
  assumes "\<forall>e \<in> set es. plain e" "e \<in> set (resolve es)"
  shows "plain e \<and> e \<noteq> ''.'' \<and> e \<noteq> ''..''"
proof -
  have "\<forall>x \<in> set (foldl enter [] es). plain x \<and> x \<noteq> ''.'' \<and> x \<noteq> ''..''"
    by (rule foldl_enter_set) (use assms(1) in auto)
  then show ?thesis using assms(2) by (simp add: resolve_def)
qed

lemma resolve_id: "\<forall>e \<in> set es. e \<noteq> ''.'' \<and> e \<noteq> ''..'' \<Longrightarrow> resolve es = es"
proof -
  have "\<forall>e \<in> set es. e \<noteq> ''.'' \<and> e \<noteq> ''..'' \<Longrightarrow> foldl enter st es = st @ es" for st
    by (induction es arbitrary: st) (auto simp: enter_def)
  from this [of "[]"] show "\<forall>e \<in> set es. e \<noteq> ''.'' \<and> e \<noteq> ''..'' \<Longrightarrow> resolve es = es" by (simp add: resolve_def)
qed

lemma normalize_eq:
  assumes "path = [] \<or> hd path = slash" "length path \<le> PATH_MAX - 1"
  shows "vfs_normalize_path path = render (resolve (components path))" "length (vfs_normalize_path path) \<le> PATH_MAX - 1"
proof -
  have r: "[slash] = render []" by (simp add: render_def)
  note N = normalize_loop_render [of "[]" path, unfolded resolve_def [symmetric]]
  have n: "normalize_loop path [slash] = render (resolve (components path))" "length (join (resolve (components path))) \<le> PATH_MAX - 1"
    using N assms by (simp_all add: r del: normalize_loop.simps)
  then show "vfs_normalize_path path = render (resolve (components path))" by (auto simp: vfs_normalize_path_def render_def)
  then show "length (vfs_normalize_path path) \<le> PATH_MAX - 1" using n(2) by (auto simp: render_def)
qed

lemma normalize_raw:
  assumes "raw \<noteq> []" "hd raw = slash" "length raw \<le> PATH_MAX - 1"
  shows "length (vfs_normalize_path raw) < PATH_MAX \<and> vfs_normalize_path (vfs_normalize_path raw) = vfs_normalize_path raw \<and>
    (\<exists>es. vfs_normalize_path raw = render es \<and> (\<forall>e \<in> set es. plain e \<and> e \<noteq> ''.'' \<and> e \<noteq> ''..''))"
proof -
  define es where "es = resolve (components raw)"
  have n: "vfs_normalize_path raw = render es" "length (vfs_normalize_path raw) \<le> PATH_MAX - 1"
    using normalize_eq [of raw] assms by (simp_all add: es_def)
  have pl: "\<forall>e \<in> set es. plain e \<and> e \<noteq> ''.'' \<and> e \<noteq> ''..''"
    using resolve_plain [of "components raw"] components_plain by (auto simp: es_def)
  have "hd (render es) = slash" by (cases es) (auto simp: render_def join_def)
  then have "vfs_normalize_path (render es) = render (resolve (components (render es)))"
    using n by (intro normalize_eq(1)) simp_all
  also have "\<dots> = render es" using components_render [of es] resolve_id [of es] pl by simp
  finally show ?thesis using n pl by auto
qed

lemma absolute_raw:
  fixes path :: string
  assumes "c \<noteq> []" "hd c = slash"
  defines "raw1 \<equiv> append_chars [] c"
  defines "raw2 \<equiv> if length raw1 > 1 \<and> length raw1 < PATH_MAX - 1 then raw1 @ [slash] else raw1"
  defines "raw \<equiv> append_chars raw2 path"
  shows "raw \<noteq> []" "hd raw = slash" "length raw \<le> PATH_MAX - 1"
    "length c + length path < PATH_MAX - 1 \<Longrightarrow> components raw = components c @ components path"
proof -
  have 1: "raw1 = take (PATH_MAX - 1) c" unfolding raw1_def by (subst append_chars_eq) simp_all
  have l2: "length raw2 \<le> PATH_MAX - 1" using 1 by (auto simp: raw2_def)
  have 3: "raw = raw2 @ take (PATH_MAX - 1 - length raw2) path" unfolding raw_def by (rule append_chars_eq [OF l2])
  have "raw1 \<noteq> []" "hd raw1 = slash" using assms(1,2) 1 by (cases c; simp)+
  then have "raw2 \<noteq> []" "hd raw2 = slash" by (auto simp: raw2_def)
  then show "raw \<noteq> []" "hd raw = slash" by (auto simp: 3)
  show "length raw \<le> PATH_MAX - 1" using l2 by (simp add: 3)
  assume f: "length c + length path < PATH_MAX - 1"
  then have c: "raw1 = c" by (simp add: 1)
  show "components raw = components c @ components path"
  proof (cases "length c > 1")
    case True
    then have "raw = c @ slash # path" using f c by (simp add: 3 raw2_def)
    then show ?thesis by (simp add: components_append)
  next
    case False
    then have "c = [slash]" using assms(1,2) by (cases c) auto
    then have "raw = slash # path" using f c by (simp add: 3 raw2_def)
    then show ?thesis by (simp add: \<open>c = [slash]\<close>)
  qed
qed

lemma skipelem_walk:
  "case skipelem path of
     None \<Rightarrow> components path = []
   | Some (name, rest) \<Rightarrow> \<exists>e. components path = e # components rest \<and> name = take (PATH_MAX - 1) e \<and>
       length rest < length path"
proof (cases "dropWhile (\<lambda>c. c = slash) path = []")
  case True
  then show ?thesis using components_drop [of path] by (simp add: skipelem_def Let_def) (metis components_Nil True)
next
  case False
  define p where "p = dropWhile (\<lambda>c. c = slash) path"
  define e r where "e = takeWhile (\<lambda>c. c \<noteq> slash) p" and "r = dropWhile (\<lambda>c. c \<noteq> slash) p"
  have er: "p = e @ r" by (simp add: e_def r_def)
  have "hd p \<noteq> slash" "p \<noteq> []" using hd_dropWhile [OF False] False by (simp_all add: p_def)
  then have c: "components path = e # components (dropWhile (\<lambda>c. c = slash) r)"
    using components_step [of p] components_drop [of path] components_drop [of r] by (simp add: p_def e_def r_def)
  have "length (dropWhile (\<lambda>c. c = slash) r) < length path"
    using le_less_trans [OF length_dropWhile_le rest_shorter [OF False]] by (simp add: r_def p_def)
  moreover have "take (if length p - length r \<ge> PATH_MAX then PATH_MAX - 1 else length p - length r) p = take (PATH_MAX - 1) e"
    by (simp add: er)
  ultimately show ?thesis
    using c False by (simp add: skipelem_def Let_def del: dropWhile_eq_Nil_conv flip: p_def r_def)
qed

section \<open>Properties\<close>

text \<open>
  C33. \<open>vfs_normalize_path\<close> of an absolute path that fits the buffer is the canonical path of its
  elements, with \<open>.\<close> and empty elements left out and \<open>..\<close> resolved against the elements before it.
\<close>

theorem vfs_normalize_path_canonical:
  assumes "path \<noteq> []" "hd path = slash" "length path < PATH_MAX"
  shows "vfs_normalize_path path = render (resolve (components path))"
  using assms by (intro normalize_eq(1)) auto

theorem vfs_normalize_path_canonical_witness: "vfs_normalize_path ''/a//b/./../c'' = ''/a/c''"
  using vfs_normalize_path_canonical [of "''/a//b/./../c''"]
  by (simp add: render_def resolve_def components_def enter_def join_def)



text \<open>
  C36. Walking a path with \<open>skipelem\<close> visits its elements in order, each cut to 127 characters: the
  first call returns the first element and a rest with the remaining elements, and the walk ends
  exactly when no element is left.
\<close>

theorem skipelem_components:
  "case skipelem path of
     None \<Rightarrow> components path = []
   | Some (name, rest) \<Rightarrow> \<exists>e. components path = e # components rest \<and> name = take (PATH_MAX - 1) e \<and>
       length rest < length path"
  by (rule skipelem_walk)

lemma of_char_pos: "c \<noteq> CHR 0x00 \<Longrightarrow> 0 < (of_char c :: nat)"
proof (rule ccontr)
  assume c: "c \<noteq> CHR 0x00" "\<not> 0 < (of_char c :: nat)"
  then have "(of_char c :: nat) = of_char (CHR 0x00)" by simp
  then show False using c(1) by (simp only: of_char_eq_iff)
qed

lemma string_strncmp_zero:
  "CHR 0x00 \<notin> set s \<Longrightarrow> CHR 0x00 \<notin> set t \<Longrightarrow> string_strncmp n s t = 0 \<longleftrightarrow> take n s = take n t"
proof (induction n s t rule: string_strncmp.induct)
  case (5 n c s d t)
  then show ?case by auto
qed (auto simp: of_char_pos)

text \<open>\<open>namecmp\<close> is 0 exactly when the names agree on their first 24 characters.\<close>

theorem namecmp_zero:
  assumes "CHR 0x00 \<notin> set s" "CHR 0x00 \<notin> set t"
  shows "namecmp s t = 0 \<longleftrightarrow> take DIRSIZ s = take DIRSIZ t"
  using string_strncmp_zero [OF assms] by (simp add: namecmp_def)

theorem namecmp_zero_witness: "namecmp ''abc'' ''abd'' \<noteq> 0"
  using namecmp_zero [of "''abc''" "''abd''"] by simp

end
