(* ===== verification/Sleep.thy ===== *)
theory Sleep
  imports Process
begin

text \<open>
  Sleep locks under concurrency: \<open>acquiresleep\<close> and \<open>releasesleep\<close> of \<open>kernel/core/sleeplock.c\<close>
  with \<open>sleep\<close> and \<open>wakeup\<close> of \<open>kernel/core/wait.c\<close> and the switch to and from the scheduler of
  \<open>kernel/core/proc.c\<close>, as steps of any number of processes on one sleep lock. Each step is one
  access under the locks the code holds there; a step that takes a spinlock is enabled only when the
  lock is free, by the contract of theory \<open>Spinlock\<close>.
\<close>

section \<open>State\<close>

text \<open>
  The program counter of a process. In \<open>Wake j\<close> the loop of \<open>wakeup\<close> is about to take the lock of
  process \<open>j\<close>, in \<open>WakeTest j\<close> it holds it and is about to look at the process, in \<open>WakeDone j\<close> it
  is about to release it. In \<open>Switched\<close> the process has called \<open>sched\<close> and its lock is still held;
  the scheduler releases it.
\<close>

datatype sleep_pc =
    Outside
  | AcqLock
  | Test
  | SleepAcq
  | SleepRel
  | SleepSet
  | Switched
  | Asleep
  | Resumed
  | ResumeRel
  | Taken
  | Inside
  | RelLock
  | RelSet
  | Wake nat
  | WakeTest nat
  | WakeDone nat
  | RelEnd

text \<open>
  \<open>sl_spin\<close> is the owner of the spinlock in the sleep lock, \<open>plock j\<close> the owner of the lock of
  process \<open>j\<close>, \<open>pstate\<close> and \<open>pchan\<close> the fields \<open>state\<close> and \<open>chan\<close> of the processes, with
  \<open>True\<close> for the address of this lock.
\<close>

record sleep_sys =
  pc :: "nat \<Rightarrow> sleep_pc"
  sl_spin :: "nat option"
  sl_locked :: bool
  sl_pid :: nat
  plock :: "nat \<Rightarrow> nat option"
  pstate :: "nat \<Rightarrow> proc_state"
  pchan :: "nat \<Rightarrow> bool"

definition sleep_init :: "sleep_sys" where
  "sleep_init = \<lparr>pc = \<lambda>_. Outside, sl_spin = None, sl_locked = False, sl_pid = 0, plock = \<lambda>_. None,
     pstate = \<lambda>_. RUNNING, pchan = \<lambda>_. False\<rparr>"

abbreviation goto :: "nat \<Rightarrow> sleep_pc \<Rightarrow> sleep_sys \<Rightarrow> sleep_sys" where
  "goto i p s \<equiv> s\<lparr>pc := (pc s)(i := p)\<rparr>"

section \<open>Steps\<close>

text \<open>\<open>acquiresleep\<close>.\<close>

inductive acquiresleep_step :: "nat \<Rightarrow> sleep_sys \<Rightarrow> sleep_sys \<Rightarrow> bool" for i where
  acq_call: "pc s i = Outside \<Longrightarrow> acquiresleep_step i s (goto i AcqLock s)"
| acq_lock: "pc s i = AcqLock \<Longrightarrow> sl_spin s = None \<Longrightarrow> acquiresleep_step i s (goto i Test (s\<lparr>sl_spin := Some i\<rparr>))"
| acq_busy: "pc s i = Test \<Longrightarrow> sl_locked s \<Longrightarrow> acquiresleep_step i s (goto i SleepAcq s)"
| acq_take: "pc s i = Test \<Longrightarrow> \<not> sl_locked s \<Longrightarrow>
    acquiresleep_step i s (goto i Taken (s\<lparr>sl_locked := True, sl_pid := i\<rparr>))"
| acq_done: "pc s i = Taken \<Longrightarrow> acquiresleep_step i s (goto i Inside (s\<lparr>sl_spin := None\<rparr>))"

text \<open>\<open>sleep(lk, &lk->lock)\<close>: the process takes its own lock before it gives up the caller's.\<close>

inductive sleep_step :: "nat \<Rightarrow> sleep_sys \<Rightarrow> sleep_sys \<Rightarrow> bool" for i where
  sleep_acq: "pc s i = SleepAcq \<Longrightarrow> plock s i = None \<Longrightarrow>
    sleep_step i s (goto i SleepRel (s\<lparr>plock := (plock s)(i := Some i)\<rparr>))"
| sleep_rel: "pc s i = SleepRel \<Longrightarrow> sleep_step i s (goto i SleepSet (s\<lparr>sl_spin := None\<rparr>))"
| sleep_set: "pc s i = SleepSet \<Longrightarrow>
    sleep_step i s (goto i Switched (s\<lparr>pchan := (pchan s)(i := True), pstate := (pstate s)(i := SLEEPING)\<rparr>))"
| sleep_resume: "pc s i = Resumed \<Longrightarrow> sleep_step i s (goto i ResumeRel (s\<lparr>pchan := (pchan s)(i := False)\<rparr>))"
| sleep_unlock: "pc s i = ResumeRel \<Longrightarrow> sleep_step i s (goto i AcqLock (s\<lparr>plock := (plock s)(i := None)\<rparr>))"

text \<open>\<open>releasesleep\<close>, with the loop of \<open>wakeup\<close>.\<close>

inductive releasesleep_step :: "nat \<Rightarrow> sleep_sys \<Rightarrow> sleep_sys \<Rightarrow> bool" for i where
  rel_call: "pc s i = Inside \<Longrightarrow> releasesleep_step i s (goto i RelLock s)"
| rel_lock: "pc s i = RelLock \<Longrightarrow> sl_spin s = None \<Longrightarrow> releasesleep_step i s (goto i RelSet (s\<lparr>sl_spin := Some i\<rparr>))"
| rel_set: "pc s i = RelSet \<Longrightarrow> releasesleep_step i s (goto i (Wake 0) (s\<lparr>sl_locked := False, sl_pid := 0\<rparr>))"
| rel_done: "pc s i = RelEnd \<Longrightarrow> releasesleep_step i s (goto i Outside (s\<lparr>sl_spin := None\<rparr>))"

inductive wakeup_step :: "nat \<Rightarrow> sleep_sys \<Rightarrow> sleep_sys \<Rightarrow> bool" for i where
  wake_end: "pc s i = Wake j \<Longrightarrow> j \<ge> NPROC \<Longrightarrow> wakeup_step i s (goto i RelEnd s)"
| wake_acq: "pc s i = Wake j \<Longrightarrow> j < NPROC \<Longrightarrow> plock s j = None \<Longrightarrow>
    wakeup_step i s (goto i (WakeTest j) (s\<lparr>plock := (plock s)(j := Some i)\<rparr>))"
| wake_set: "pc s i = WakeTest j \<Longrightarrow> j \<noteq> i \<Longrightarrow> pchan s j \<Longrightarrow> pstate s j = SLEEPING \<Longrightarrow>
    wakeup_step i s (goto i (WakeDone j) (s\<lparr>pstate := (pstate s)(j := RUNNABLE)\<rparr>))"
| wake_skip: "pc s i = WakeTest j \<Longrightarrow> \<not> (j \<noteq> i \<and> pchan s j \<and> pstate s j = SLEEPING) \<Longrightarrow>
    wakeup_step i s (goto i (WakeDone j) s)"
| wake_rel: "pc s i = WakeDone j \<Longrightarrow> wakeup_step i s (goto i (Wake (Suc j)) (s\<lparr>plock := (plock s)(j := None)\<rparr>))"

text \<open>
  \<open>scheduler\<close>: the release of the lock of the process that switched away, and the choice of a
  runnable process, which resumes with its own lock held.
\<close>

inductive scheduler_step :: "nat \<Rightarrow> sleep_sys \<Rightarrow> sleep_sys \<Rightarrow> bool" for i where
  sched_rel: "pc s i = Switched \<Longrightarrow> scheduler_step i s (goto i Asleep (s\<lparr>plock := (plock s)(i := None)\<rparr>))"
| sched_run: "pc s i = Asleep \<Longrightarrow> plock s i = None \<Longrightarrow> pstate s i = RUNNABLE \<Longrightarrow>
    scheduler_step i s (goto i Resumed (s\<lparr>plock := (plock s)(i := Some i), pstate := (pstate s)(i := RUNNING)\<rparr>))"

inductive sleep_reachable :: "sleep_sys \<Rightarrow> bool" where
  start: "sleep_reachable sleep_init"
| acquiresleep: "sleep_reachable s \<Longrightarrow> i < NPROC \<Longrightarrow> acquiresleep_step i s t \<Longrightarrow> sleep_reachable t"
| sleep: "sleep_reachable s \<Longrightarrow> i < NPROC \<Longrightarrow> sleep_step i s t \<Longrightarrow> sleep_reachable t"
| releasesleep: "sleep_reachable s \<Longrightarrow> i < NPROC \<Longrightarrow> releasesleep_step i s t \<Longrightarrow> sleep_reachable t"
| wakeup: "sleep_reachable s \<Longrightarrow> i < NPROC \<Longrightarrow> wakeup_step i s t \<Longrightarrow> sleep_reachable t"
| scheduler: "sleep_reachable s \<Longrightarrow> i < NPROC \<Longrightarrow> scheduler_step i s t \<Longrightarrow> sleep_reachable t"

section \<open>The invariant\<close>

definition spins :: "sleep_pc \<Rightarrow> bool" where
  "spins p \<longleftrightarrow> (case p of Test \<Rightarrow> True | SleepAcq \<Rightarrow> True | SleepRel \<Rightarrow> True | Taken \<Rightarrow> True | RelSet \<Rightarrow> True
     | Wake j \<Rightarrow> True | WakeTest j \<Rightarrow> True | WakeDone j \<Rightarrow> True | RelEnd \<Rightarrow> True | _ \<Rightarrow> False)"

definition own_lock :: "sleep_pc \<Rightarrow> bool" where
  "own_lock p \<longleftrightarrow> p \<in> {SleepRel, SleepSet, Switched, Resumed, ResumeRel}"

definition owner :: "sleep_pc \<Rightarrow> bool" where
  "owner p \<longleftrightarrow> p \<in> {Taken, Inside, RelLock, RelSet}"

text \<open>Processes that have decided to sleep and have not been woken.\<close>

definition waiting :: "sleep_sys \<Rightarrow> nat \<Rightarrow> bool" where
  "waiting s i \<longleftrightarrow> pc s i \<in> {SleepAcq, SleepRel, SleepSet} \<or> pc s i \<in> {Switched, Asleep} \<and> pstate s i = SLEEPING"

text \<open>A process whose \<open>wakeup\<close> has still to look at process \<open>i\<close>.\<close>

fun covers :: "sleep_pc \<Rightarrow> nat \<Rightarrow> bool" where
  "covers (Wake j) i \<longleftrightarrow> j \<le> i"
| "covers (WakeTest j) i \<longleftrightarrow> j \<le> i"
| "covers (WakeDone j) i \<longleftrightarrow> j < i"
| "covers _ i \<longleftrightarrow> False"

definition waker :: "sleep_sys \<Rightarrow> nat \<Rightarrow> bool" where
  "waker s i \<longleftrightarrow> (\<exists>k. covers (pc s k) i)"

definition spin_inv :: "sleep_sys \<Rightarrow> bool" where
  "spin_inv s \<longleftrightarrow> (\<forall>i. spins (pc s i) \<longleftrightarrow> sl_spin s = Some i)"

definition holds :: "sleep_pc \<Rightarrow> nat \<Rightarrow> nat \<Rightarrow> bool" where
  "holds p i j \<longleftrightarrow> i = j \<and> own_lock p \<or> p = WakeTest j \<or> p = WakeDone j"

definition plock_inv :: "sleep_sys \<Rightarrow> bool" where
  "plock_inv s \<longleftrightarrow> (\<forall>i j. plock s j = Some i \<longleftrightarrow> holds (pc s i) i j)"

definition owner_inv :: "sleep_sys \<Rightarrow> bool" where
  "owner_inv s \<longleftrightarrow> (\<exists>ow. (\<forall>i. owner (pc s i) \<longleftrightarrow> ow = Some i) \<and> (sl_locked s \<longleftrightarrow> ow \<noteq> None))"

definition state_inv :: "sleep_sys \<Rightarrow> bool" where
  "state_inv s \<longleftrightarrow> (\<forall>i. if pc s i = Switched \<or> pc s i = Asleep then pchan s i \<and> pstate s i \<in> {SLEEPING, RUNNABLE}
     else pstate s i = RUNNING) \<and> (\<forall>i. NPROC \<le> i \<longrightarrow> pc s i = Outside)"

definition wait_inv :: "sleep_sys \<Rightarrow> bool" where
  "wait_inv s \<longleftrightarrow> (\<forall>i. waiting s i \<longrightarrow> sl_locked s \<or> waker s i)"

definition sleep_inv :: "sleep_sys \<Rightarrow> bool" where
  "sleep_inv s \<longleftrightarrow> spin_inv s \<and> plock_inv s \<and> owner_inv s \<and> state_inv s \<and> wait_inv s"

definition sys_step :: "nat \<Rightarrow> sleep_sys \<Rightarrow> sleep_sys \<Rightarrow> bool" where
  "sys_step i s t \<longleftrightarrow> acquiresleep_step i s t \<or> sleep_step i s t \<or> releasesleep_step i s t \<or> wakeup_step i s t \<or> scheduler_step i s t"

lemmas step_elims = acquiresleep_step.cases sleep_step.cases releasesleep_step.cases wakeup_step.cases scheduler_step.cases

lemma spin_inv_step: "spin_inv s \<Longrightarrow> sys_step i s t \<Longrightarrow> spin_inv t"
  unfolding sys_step_def
  by (elim disjE step_elims) (auto simp: spin_inv_def spins_def fun_upd_def split: sleep_pc.splits if_splits)

lemma plock_keep:
  "plock_inv s \<Longrightarrow> (\<And>k. k \<noteq> i \<Longrightarrow> pc t k = pc s k) \<Longrightarrow> (\<And>j. holds (pc t i) i j \<longleftrightarrow> holds (pc s i) i j) \<Longrightarrow>
    plock t = plock s \<Longrightarrow> plock_inv t"
  unfolding plock_inv_def by metis

lemma plock_take:
  assumes "plock_inv s" "plock s k = None" "\<And>j. holds p i j \<longleftrightarrow> j = k \<or> holds (pc s i) i j"
    "pc t = (pc s)(i := p)" "plock t = (plock s)(k := Some i)"
  shows "plock_inv t"
  using assms by (auto simp: plock_inv_def) (metis option.distinct(1))+

lemma plock_drop:
  assumes "plock_inv s" "plock s k = Some i" "\<And>j. holds p i j \<longleftrightarrow> j \<noteq> k \<and> holds (pc s i) i j"
    "pc t = (pc s)(i := p)" "plock t = (plock s)(k := None)"
  shows "plock_inv t"
  using assms by (auto simp: plock_inv_def) (metis option.inject)+

lemma plock_inv_step: "plock_inv s \<Longrightarrow> sys_step i s t \<Longrightarrow> plock_inv t"
  unfolding sys_step_def
proof (elim disjE)
  assume p: "plock_inv s"
  have h: "plock s j = Some k \<longleftrightarrow> holds (pc s k) k j" for j k using p by (simp add: plock_inv_def)
  show "plock_inv t" if "acquiresleep_step i s t"
    using that by cases (auto intro!: plock_keep [OF p, of i] simp: holds_def own_lock_def)
  show "plock_inv t" if "releasesleep_step i s t"
    using that by cases (auto intro!: plock_keep [OF p, of i] simp: holds_def own_lock_def)
  show "plock_inv t" if "sleep_step i s t"
    using that
  proof cases
    case sleep_acq
    then show ?thesis by (intro plock_take [OF p, of i SleepRel i]) (auto simp: holds_def own_lock_def)
  next
    case sleep_unlock
    then show ?thesis using h by (intro plock_drop [OF p, of i i AcqLock]) (auto simp: holds_def own_lock_def)
  qed (auto intro!: plock_keep [OF p, of i] simp: holds_def own_lock_def)
  show "plock_inv t" if "wakeup_step i s t"
    using that
  proof cases
    case (wake_acq j)
    then show ?thesis by (intro plock_take [OF p, of j "WakeTest j" i]) (auto simp: holds_def own_lock_def)
  next
    case (wake_rel j)
    then show ?thesis using h by (intro plock_drop [OF p, of j i "Wake (Suc j)"]) (auto simp: holds_def own_lock_def)
  qed (auto intro!: plock_keep [OF p, of i] simp: holds_def own_lock_def)
  show "plock_inv t" if "scheduler_step i s t"
    using that
  proof cases
    case sched_rel
    then show ?thesis using h by (intro plock_drop [OF p, of i i Asleep]) (auto simp: holds_def own_lock_def)
  next
    case sched_run
    then show ?thesis by (intro plock_take [OF p, of i Resumed i]) (auto simp: holds_def own_lock_def)
  qed
qed

lemma owner_keep:
  "owner_inv s \<Longrightarrow> (\<And>k. k \<noteq> i \<Longrightarrow> pc t k = pc s k) \<Longrightarrow> owner (pc t i) = owner (pc s i) \<Longrightarrow> sl_locked t = sl_locked s \<Longrightarrow>
    owner_inv t"
  unfolding owner_inv_def by metis

lemma owner_inv_step: "owner_inv s \<Longrightarrow> sys_step i s t \<Longrightarrow> owner_inv t"
  unfolding sys_step_def
proof (elim disjE)
  assume p: "owner_inv s"
  show "owner_inv t" if "acquiresleep_step i s t"
    using that
  proof cases
    case acq_take
    then show ?thesis using p by (auto simp: owner_inv_def owner_def)
  qed (auto intro!: owner_keep [OF p, of i] simp: owner_def)
  show "owner_inv t" if "releasesleep_step i s t"
    using that
  proof cases
    case rel_set
    then show ?thesis using p unfolding owner_inv_def owner_def by auto (metis option.inject)+
  qed (auto intro!: owner_keep [OF p, of i] simp: owner_def)
  show "owner_inv t" if "sleep_step i s t"
    using that by cases (auto intro!: owner_keep [OF p, of i] simp: owner_def)
  show "owner_inv t" if "wakeup_step i s t"
    using that by cases (auto intro!: owner_keep [OF p, of i] simp: owner_def)
  show "owner_inv t" if "scheduler_step i s t"
    using that by cases (auto intro!: owner_keep [OF p, of i] simp: owner_def)
qed

lemma sleeping_pc: "state_inv s \<Longrightarrow> pstate s j = SLEEPING \<Longrightarrow> pc s j = Switched \<or> pc s j = Asleep"
  unfolding state_inv_def by (metis proc_state.distinct(25))

lemma state_inv_step: "state_inv s \<Longrightarrow> i < NPROC \<Longrightarrow> sys_step i s t \<Longrightarrow> state_inv t"
  unfolding sys_step_def
proof (elim disjE)
  assume p: "state_inv s" and i: "i < NPROC"
  show "state_inv t" if "wakeup_step i s t"
    using that
  proof cases
    case (wake_set j)
    then show ?thesis using p i sleeping_pc [OF p, of j] by (auto simp: state_inv_def split: if_splits)
  qed (use p i in \<open>auto simp: state_inv_def split: if_splits\<close>)
qed (auto simp: state_inv_def elim!: step_elims split: if_splits)

text \<open>No lost wakeup: the steps that can end the reason why a waiting process is waiting.\<close>

lemma waiting_keep:
  assumes w: "wait_inv s" and pc: "\<And>k. k \<noteq> i \<Longrightarrow> pc t k = pc s k" and l: "sl_locked s \<Longrightarrow> sl_locked t"
    and wt: "\<And>k. waiting t k \<Longrightarrow> waiting s k" and wk: "\<And>k. covers (pc s i) k \<Longrightarrow> waiting t k \<Longrightarrow> covers (pc t i) k"
  shows "wait_inv t"
  unfolding wait_inv_def
proof (intro allI impI)
  fix k assume k: "waiting t k"
  then have "sl_locked s \<or> waker s k" using w wt by (simp add: wait_inv_def)
  then show "sl_locked t \<or> waker t k"
  proof
    assume "waker s k"
    then obtain m where m: "covers (pc s m) k" by (auto simp: waker_def)
    then have "covers (pc t m) k" using wk [OF _ k] pc by (cases "m = i") auto
    then show ?thesis by (auto simp: waker_def)
  qed (use l in blast)
qed

lemma wait_inv_step:
  assumes inv: "sleep_inv s" and st: "sys_step i s t"
  shows "wait_inv t"
  using st unfolding sys_step_def
proof (elim disjE)
  have w: "wait_inv s" and sp: "\<And>k. spins (pc s k) \<longleftrightarrow> sl_spin s = Some k" and h: "\<And>j k. plock s j = Some k \<longleftrightarrow> holds (pc s k) k j"
    and si: "state_inv s"
    using inv by (auto simp: sleep_inv_def spin_inv_def plock_inv_def)
  note K = waiting_keep [OF w, of i]
  show "wait_inv t" if "acquiresleep_step i s t"
    using that
  proof cases
    case acq_busy
    then show ?thesis using w by (auto simp: wait_inv_def)
  qed (auto intro!: K simp: waiting_def split: if_splits)
  show "wait_inv t" if "releasesleep_step i s t"
    using that
  proof cases
    case rel_set
    then have "waker t k" for k unfolding waker_def by (intro exI [of _ i]) simp
    then show ?thesis by (simp add: wait_inv_def)
  qed (auto intro!: K simp: waiting_def split: if_splits)
  show "wait_inv t" if "sleep_step i s t"
    using that by cases (auto intro!: K simp: waiting_def split: if_splits)
  show "wait_inv t" if "scheduler_step i s t"
    using that by cases (auto intro!: K simp: waiting_def split: if_splits)
  show "wait_inv t" if "wakeup_step i s t"
    using that
  proof cases
    case (wake_end j)
    have "pc s k = Outside" if "j \<le> k" for k using si that wake_end(3) by (simp add: state_inv_def)
    then have nw: "\<not> waiting t k" if "j \<le> k" for k using that wake_end(1) by (simp add: waiting_def)
    show ?thesis
    proof (rule K)
      show "covers (pc t i) k" if "covers (pc s i) k" "waiting t k" for k using nw that wake_end(2) by simp
    qed (use wake_end in \<open>auto simp: waiting_def split: if_splits\<close>)
  next
    case (wake_set j)
    have "\<not> waiting t j" using wake_set sleeping_pc [OF si wake_set(5)] by (auto simp: waiting_def)
    then have "covers (pc t i) k" if "covers (pc s i) k" "waiting t k" for k
      using that wake_set by (cases "k = j") auto
    then show ?thesis using wake_set by (intro K) (auto simp: waiting_def split: if_splits)
  next
    case (wake_skip j)
    have "\<not> waiting t j"
    proof (cases "j = i")
      case False
      have "plock s j = Some i" "spins (pc s i)" using h wake_skip(2) by (simp_all add: holds_def spins_def)
      then have "\<not> holds (pc s j) j j" "\<not> spins (pc s j)" using h [of j j] sp False by (metis option.inject)+
      moreover have "pchan s j" if "pc s j = Asleep" using si that by (auto simp: state_inv_def)
      ultimately show ?thesis using wake_skip False by (auto simp: waiting_def holds_def own_lock_def spins_def)
    qed (use wake_skip in \<open>simp add: waiting_def\<close>)
    then have "covers (pc t i) k" if "covers (pc s i) k" "waiting t k" for k
      using that wake_skip by (cases "k = j") auto
    then show ?thesis using wake_skip by (intro K) (auto simp: waiting_def split: if_splits)
  qed (auto intro!: K simp: waiting_def split: if_splits)
qed

lemma sleep_inv_init: "sleep_inv sleep_init"
  by (auto simp: sleep_inv_def sleep_init_def spin_inv_def plock_inv_def owner_inv_def state_inv_def wait_inv_def
      spins_def holds_def own_lock_def owner_def waiting_def)

lemma sleep_inv_step: "sleep_inv s \<Longrightarrow> i < NPROC \<Longrightarrow> sys_step i s t \<Longrightarrow> sleep_inv t"
  using spin_inv_step plock_inv_step owner_inv_step state_inv_step wait_inv_step by (auto simp: sleep_inv_def)

lemma sleep_reachable_inv: "sleep_reachable s \<Longrightarrow> sleep_inv s"
  by (induction rule: sleep_reachable.induct) (auto intro: sleep_inv_init sleep_inv_step simp: sys_step_def)

section \<open>Properties\<close>

text \<open>A run of two processes for the witnesses: process 0 holds the lock, process 1 falls asleep on it.\<close>

definition demo1 :: sleep_sys where
  "demo1 = goto 0 AcqLock sleep_init"

definition demo2 :: sleep_sys where
  "demo2 = goto 0 Test (demo1\<lparr>sl_spin := Some 0\<rparr>)"

definition demo3 :: sleep_sys where
  "demo3 = goto 0 Taken (demo2\<lparr>sl_locked := True, sl_pid := 0\<rparr>)"

definition demo4 :: sleep_sys where
  "demo4 = goto 0 Inside (demo3\<lparr>sl_spin := None\<rparr>)"

definition demo5 :: sleep_sys where
  "demo5 = goto 1 AcqLock demo4"

definition demo6 :: sleep_sys where
  "demo6 = goto 1 Test (demo5\<lparr>sl_spin := Some 1\<rparr>)"

definition demo7 :: sleep_sys where
  "demo7 = goto 1 SleepAcq demo6"

definition demo8 :: sleep_sys where
  "demo8 = goto 1 SleepRel (demo7\<lparr>plock := (plock demo7)(1 := Some 1)\<rparr>)"

definition demo9 :: sleep_sys where
  "demo9 = goto 1 SleepSet (demo8\<lparr>sl_spin := None\<rparr>)"

definition demo10 :: sleep_sys where
  "demo10 = goto 1 Switched (demo9\<lparr>pchan := (pchan demo9)(1 := True), pstate := (pstate demo9)(1 := SLEEPING)\<rparr>)"

lemmas demo_defs = sleep_init_def demo1_def demo2_def demo3_def demo4_def demo5_def demo6_def demo7_def demo8_def demo9_def demo10_def

lemma demo_reachable: "sleep_reachable demo4" "sleep_reachable demo10"
proof -
  note R = sleep_reachable.intros
  have r0: "sleep_reachable sleep_init" by (rule R(1))
  have r1: "sleep_reachable demo1"
    by (rule R(2) [OF r0, of 0], simp, subst demo1_def, rule acquiresleep_step.acq_call) (simp_all add: demo_defs)
  have r2: "sleep_reachable demo2"
    by (rule R(2) [OF r1, of 0], simp, subst demo2_def, rule acquiresleep_step.acq_lock) (simp_all add: demo_defs)
  have r3: "sleep_reachable demo3"
    by (rule R(2) [OF r2, of 0], simp, subst demo3_def, rule acquiresleep_step.acq_take) (simp_all add: demo_defs)
  have r4: "sleep_reachable demo4"
    by (rule R(2) [OF r3, of 0], simp, subst demo4_def, rule acquiresleep_step.acq_done) (simp_all add: demo_defs)
  have r5: "sleep_reachable demo5"
    by (rule R(2) [OF r4, of 1], simp, subst demo5_def, rule acquiresleep_step.acq_call) (simp_all add: demo_defs)
  have r6: "sleep_reachable demo6"
    by (rule R(2) [OF r5, of 1], simp, subst demo6_def, rule acquiresleep_step.acq_lock) (simp_all add: demo_defs)
  have r7: "sleep_reachable demo7"
    by (rule R(2) [OF r6, of 1], simp, subst demo7_def, rule acquiresleep_step.acq_busy) (simp_all add: demo_defs)
  have r8: "sleep_reachable demo8"
    by (rule R(3) [OF r7, of 1], simp, subst demo8_def, rule sleep_step.sleep_acq) (simp_all add: demo_defs)
  have r9: "sleep_reachable demo9"
    by (rule R(3) [OF r8, of 1], simp, subst demo9_def, rule sleep_step.sleep_rel) (simp_all add: demo_defs)
  have r10: "sleep_reachable demo10"
    by (rule R(3) [OF r9, of 1], simp, subst demo10_def, rule sleep_step.sleep_set) (simp_all add: demo_defs)
  show "sleep_reachable demo4" "sleep_reachable demo10" by (fact r4 r10)+
qed

text \<open>C26. At most one process is between \<open>acquiresleep\<close> and \<open>releasesleep\<close> of a sleep lock.\<close>

theorem sleeplock_mutual_exclusion:
  assumes "sleep_reachable s" "pc s i = Inside" "pc s j = Inside"
  shows "i = j"
proof -
  have "owner (pc s i)" "owner (pc s j)" using assms(2,3) by (simp_all add: owner_def)
  then show ?thesis using sleep_reachable_inv [OF assms(1)] by (auto simp: sleep_inv_def owner_inv_def)
qed

theorem sleeplock_mutual_exclusion_witness: "pc demo4 0 = Inside \<and> pc demo4 1 \<noteq> Inside"
proof -
  have "pc demo4 0 = Inside" by (simp add: demo_defs)
  then show ?thesis using sleeplock_mutual_exclusion [OF demo_reachable(1), of 0 1] by auto
qed

text \<open>
  C25. No wakeup is lost: whenever a process sleeps on a sleep lock, the lock is held, or a process
  that released it is still in \<open>wakeup\<close> and has not yet passed the sleeping one. So a process never
  sleeps on a free lock that nobody is going to wake it for.
\<close>

theorem sleeplock_no_lost_wakeup:
  assumes "sleep_reachable s" "pstate s i = SLEEPING"
  shows "sl_locked s \<and> (\<exists>k. k \<noteq> i \<and> pc s k \<in> {Taken, Inside, RelLock, RelSet}) \<or> (\<exists>k. k \<noteq> i \<and> covers (pc s k) i)"
proof -
  have inv: "sleep_inv s" by (rule sleep_reachable_inv [OF assms(1)])
  then have pc: "pc s i = Switched \<or> pc s i = Asleep" using sleeping_pc assms(2) by (auto simp: sleep_inv_def)
  then have "sl_locked s \<or> waker s i" using inv assms(2) by (auto simp: sleep_inv_def wait_inv_def waiting_def)
  then show ?thesis
  proof
    assume "sl_locked s"
    moreover then obtain k where "owner (pc s k)" using inv by (auto simp: sleep_inv_def owner_inv_def)
    moreover then have "k \<noteq> i" using pc by (auto simp: owner_def)
    ultimately show ?thesis by (auto simp: owner_def)
  next
    assume "waker s i"
    then obtain k where "covers (pc s k) i" by (auto simp: waker_def)
    moreover then have "k \<noteq> i" using pc by auto
    ultimately show ?thesis by blast
  qed
qed

theorem sleeplock_no_lost_wakeup_witness: "pstate demo10 1 = SLEEPING \<and> (\<exists>k. k \<noteq> 1 \<and> pc demo10 k \<in> {Taken, Inside, RelLock, RelSet})"
proof -
  have p: "pstate demo10 1 = SLEEPING" by (simp add: demo_defs)
  moreover have "\<not> covers (pc demo10 k) 1" for k by (simp add: demo_defs)
  ultimately show ?thesis using sleeplock_no_lost_wakeup [OF demo_reachable(2) p] by blast
qed

end
