(* ===== verification/Sched.thy ===== *)
theory Sched
  imports Slab Vm
begin

text \<open>
  Processes as one CPU runs them: \<open>kernel/core/proc_base.c\<close>, \<open>kernel/core/wait.c\<close> and
  \<open>kernel/core/sleeplock.c\<close> over the kernel state. A function that gives up the CPU in the middle is
  modelled by the part up to \<open>sched\<close> and the part from there: \<open>sleep_begin\<close> and \<open>sleep_end\<close>. The
  interleaving of several processes is the subject of theory \<open>Sleep\<close>.
\<close>

section \<open>State\<close>

record sleeplock =
  slk_locked :: bool
  slk_pid :: int

record sched_state = slab_state +
  next_pid :: int
  sleeplocks :: "nat \<Rightarrow> sleeplock"

definition upd_proc :: "nat \<Rightarrow> (Process \<Rightarrow> Process) \<Rightarrow> 'a kern_scheme \<Rightarrow> 'a kern_scheme" where
  "upd_proc i f s = s\<lparr>proc := (proc s)(i := f (proc s i))\<rparr>"

text \<open>The result of a function that may sleep: it is done, or its process is asleep.\<close>

datatype 'r blocking = Done 'r | Sleeping

section \<open>proc\_base.c\<close>

definition procinit :: "'a sched_state_scheme \<Rightarrow> 'a sched_state_scheme outcome" where
  "procinit s =
     bnd (for_each (\<lambda>i s. Ok (None :: unit option, initlock_held (ProcLock i) (upd_proc i (\<lambda>p. p\<lparr>state := UNUSED\<rparr>) s)))
       [0..<NPROC] s)
     (\<lambda>(_, s). Ok s)"

definition get_pid :: "'a sched_state_scheme \<Rightarrow> (int \<times> 'a sched_state_scheme) outcome" where
  "get_pid s =
     bnd (acquire PidLock s) (\<lambda>s.
     let pid = next_pid s;
         s = s\<lparr>next_pid := to_c_int (next_pid s + 1)\<rparr>
     in bnd (release PidLock s) (\<lambda>s. Ok (pid, s)))"

text \<open>
  \<open>sched\<close> up to the switch. \<open>noff\<close> is the number of spinlocks that the CPU holds; interrupts are off
  while there is one, by theory \<open>Spinlock\<close>.
\<close>

definition sched :: "'a sched_state_scheme \<Rightarrow> 'a sched_state_scheme outcome" where
  "sched s =
     (if ProcLock (cur_proc s) \<notin> set (held s) then Panic ''sched p->lock''
      else if length (held s) \<noteq> 1 then Panic ''sched locks''
      else if state (get_proc s) = RUNNING then Panic ''sched running''
      else Ok s)"

text \<open>
  The scheduler takes over with the lock of the old process held and releases it; it looks at one
  process after the other and runs the ones that are runnable, with their lock held.
\<close>

definition switch_away :: "'a sched_state_scheme \<Rightarrow> 'a sched_state_scheme outcome" where
  "switch_away s = bnd (sched s) (release (ProcLock (cur_proc s)))"

definition scheduler_try :: "nat \<Rightarrow> 'a sched_state_scheme \<Rightarrow> (bool \<times> 'a sched_state_scheme) outcome" where
  "scheduler_try i s =
     bnd (acquire (ProcLock i) s) (\<lambda>s.
     if state (proc s i) = RUNNABLE then
       let s = upd_proc i (\<lambda>p. p\<lparr>state := RUNNING\<rparr>) s;
           s = s\<lparr>cur_proc := i\<rparr>
       in Ok (True, switch_to_process (pagetable (proc s i)) s)
     else bnd (release (ProcLock i) s) (\<lambda>s. Ok (False, s)))"

definition yield :: "'a sched_state_scheme \<Rightarrow> 'a sched_state_scheme outcome" where
  "yield s =
     (if state (get_proc s) = RUNNING then
        bnd (acquire (ProcLock (cur_proc s)) s) (\<lambda>s.
        switch_away (upd_proc (cur_proc s) (\<lambda>p. p\<lparr>state := RUNNABLE\<rparr>) s))
      else Ok s)"

section \<open>wait.c\<close>

definition sleep_begin :: "channel \<Rightarrow> lockid \<Rightarrow> 'a sched_state_scheme \<Rightarrow> 'a sched_state_scheme outcome" where
  "sleep_begin ch lk s =
     (let p = cur_proc s in
      bnd (if lk \<noteq> ProcLock p then bnd (acquire (ProcLock p) s) (release lk) else Ok s) (\<lambda>s.
      let s = upd_proc p (\<lambda>q. q\<lparr>chan := Some ch\<rparr>) s;
          s = upd_proc p (\<lambda>q. q\<lparr>state := SLEEPING\<rparr>) s
      in switch_away s))"

text \<open>The part of \<open>sleep\<close> after the scheduler has chosen the process again.\<close>

definition sleep_end :: "lockid \<Rightarrow> 'a sched_state_scheme \<Rightarrow> 'a sched_state_scheme outcome" where
  "sleep_end lk s =
     (let p = cur_proc s; s = upd_proc p (\<lambda>q. q\<lparr>chan := None\<rparr>) s in
      if lk \<noteq> ProcLock p then bnd (release (ProcLock p) s) (acquire lk) else Ok s)"

definition wakeup_one :: "channel \<Rightarrow> nat \<Rightarrow> 'a sched_state_scheme \<Rightarrow> 'a sched_state_scheme outcome" where
  "wakeup_one ch i s =
     bnd (acquire (ProcLock i) s) (\<lambda>s.
     let s = (if i \<noteq> cur_proc s \<and> chan (proc s i) = Some ch \<and> state (proc s i) = SLEEPING
              then upd_proc i (\<lambda>p. p\<lparr>state := RUNNABLE\<rparr>) s else s)
     in release (ProcLock i) s)"

definition wakeup :: "channel \<Rightarrow> 'a sched_state_scheme \<Rightarrow> 'a sched_state_scheme outcome" where
  "wakeup ch s =
     bnd (for_each (\<lambda>i s. bnd (wakeup_one ch i s) (\<lambda>s. Ok (None :: unit option, s))) [0..<NPROC] s) (\<lambda>(_, s). Ok s)"

section \<open>sleeplock.c\<close>

definition upd_sleeplock :: "nat \<Rightarrow> (sleeplock \<Rightarrow> sleeplock) \<Rightarrow> 'a sched_state_scheme \<Rightarrow> 'a sched_state_scheme" where
  "upd_sleeplock l f s = s\<lparr>sleeplocks := (sleeplocks s)(l := f (sleeplocks s l))\<rparr>"

definition initsleeplock :: "nat \<Rightarrow> 'a sched_state_scheme \<Rightarrow> 'a sched_state_scheme" where
  "initsleeplock l s = upd_sleeplock l (\<lambda>k. k\<lparr>slk_pid := 0, slk_locked := False\<rparr>) (initlock_held (SleepSpin l) s)"

text \<open>The loop of \<open>acquiresleep\<close> with the inner spinlock held, until the lock is taken or the process sleeps.\<close>

definition acquiresleep_loop :: "nat \<Rightarrow> 'a sched_state_scheme \<Rightarrow> (unit blocking \<times> 'a sched_state_scheme) outcome" where
  "acquiresleep_loop l s =
     (if slk_locked (sleeplocks s l) then
        bnd (sleep_begin (LockChan l) (SleepSpin l) s) (\<lambda>s. Ok (Sleeping, s))
      else
        let s = upd_sleeplock l (\<lambda>k. k\<lparr>slk_locked := True\<rparr>) s;
            s = upd_sleeplock l (\<lambda>k. k\<lparr>slk_pid := pid (get_proc s)\<rparr>) s
        in bnd (release (SleepSpin l) s) (\<lambda>s. Ok (Done (), s)))"

definition acquiresleep :: "nat \<Rightarrow> 'a sched_state_scheme \<Rightarrow> (unit blocking \<times> 'a sched_state_scheme) outcome" where
  "acquiresleep l s = bnd (acquire (SleepSpin l) s) (acquiresleep_loop l)"

definition acquiresleep_resume :: "nat \<Rightarrow> 'a sched_state_scheme \<Rightarrow> (unit blocking \<times> 'a sched_state_scheme) outcome" where
  "acquiresleep_resume l s = bnd (sleep_end (SleepSpin l) s) (acquiresleep_loop l)"

definition releasesleep :: "nat \<Rightarrow> 'a sched_state_scheme \<Rightarrow> 'a sched_state_scheme outcome" where
  "releasesleep l s =
     bnd (acquire (SleepSpin l) s) (\<lambda>s.
     let s = upd_sleeplock l (\<lambda>k. k\<lparr>slk_locked := False\<rparr>) s;
         s = upd_sleeplock l (\<lambda>k. k\<lparr>slk_pid := 0\<rparr>) s
     in bnd (wakeup (LockChan l) s) (release (SleepSpin l)))"

definition holdingsleep :: "nat \<Rightarrow> 'a sched_state_scheme \<Rightarrow> (bool \<times> 'a sched_state_scheme) outcome" where
  "holdingsleep l s =
     bnd (acquire (SleepSpin l) s) (\<lambda>s.
     let r = (slk_locked (sleeplocks s l) \<and> slk_pid (sleeplocks s l) = pid (get_proc s)) in
     bnd (release (SleepSpin l) s) (\<lambda>s. Ok (r, s)))"

section \<open>Facts\<close>

text \<open>What \<open>wakeup\<close> does to a process.\<close>

definition woken :: "channel \<Rightarrow> 'a kern_scheme \<Rightarrow> nat \<Rightarrow> Process" where
  "woken ch s i = (if i < NPROC \<and> i \<noteq> cur_proc s \<and> chan (proc s i) = Some ch \<and> state (proc s i) = SLEEPING
     then (proc s i)\<lparr>state := RUNNABLE\<rparr> else proc s i)"

lemma wakeup_one_eq:
  assumes "ProcLock i \<notin> set (held s)" "i < NPROC"
  shows "wakeup_one ch i s = Ok (upd_proc i (\<lambda>_. woken ch s i) s)"
  using assms by (simp add: wakeup_one_def woken_def upd_proc_def Let_def)

lemma wakeup_loop:
  assumes "\<forall>i \<in> set js. i < NPROC \<and> ProcLock i \<notin> set (held s)" "distinct js"
  shows "for_each (\<lambda>i s. bnd (wakeup_one ch i s) (\<lambda>s. Ok (None :: unit option, s))) js s =
    Ok (None, s\<lparr>proc := \<lambda>i. if i \<in> set js then woken ch s i else proc s i\<rparr>)"
  using assms
proof (induction js arbitrary: s)
  case (Cons i js)
  let ?s = "upd_proc i (\<lambda>_. woken ch s i) s"
  have "woken ch ?s j = woken ch s j" if "j \<in> set js" for j
    using that Cons.prems(2) by (auto simp: woken_def upd_proc_def)
  then have "?s\<lparr>proc := \<lambda>j. if j \<in> set js then woken ch ?s j else proc ?s j\<rparr> =
      s\<lparr>proc := \<lambda>j. if j \<in> set (i # js) then woken ch s j else proc s j\<rparr>"
    using Cons.prems(2) by (auto simp: upd_proc_def fun_eq_iff)
  moreover have "held ?s = held s" by (simp add: upd_proc_def)
  ultimately show ?case using Cons.IH [of ?s] Cons.prems by (simp add: wakeup_one_eq)
qed simp

lemma wakeup_eq:
  assumes "\<forall>i < NPROC. ProcLock i \<notin> set (held s)"
  shows "wakeup ch s = Ok (s\<lparr>proc := woken ch s\<rparr>)"
proof -
  have "(\<lambda>i. if i \<in> set [0..<NPROC] then woken ch s i else proc s i) = woken ch s" by (auto simp: woken_def simp del: upt_rec_numeral)
  then show ?thesis unfolding wakeup_def using wakeup_loop [of "[0..<NPROC]" s ch] assms by (simp del: upt_rec_numeral)
qed

end
