(* ===== verification/Vfs.thy ===== *)
theory Vfs
  imports Sched Path
begin

text \<open>
  The virtual file system, \<open>kernel/fs/vfs.c\<close>, with the structures of \<open>include/kernel/fs.h\<close>. File
  systems are reached through tables of function pointers; the tables are a parameter \<open>ops\<close> of the
  functions that call through them, and a null pointer in a table is \<open>None\<close>.
\<close>

unbundle bit_operations_syntax

section \<open>State\<close>

abbreviation VFS_DIR :: int where "VFS_DIR \<equiv> 0x01"
abbreviation VFS_FILE :: int where "VFS_FILE \<equiv> 0x10"
abbreviation VFS_DEV :: int where "VFS_DEV \<equiv> 0x11"
abbreviation VFS_MAX_MOUNTS :: nat where "VFS_MAX_MOUNTS \<equiv> 8"

text \<open>
  Where a \<open>struct vfs_inode\<close> lives: in a slot of the inode cache, in the static \<open>early_root\<close>, in the
  static \<open>dev_root\<close> or \<open>dev_nodes[]\<close> of devtmpfs, in the static \<open>tmp_root\<close> of tmpfs, or in a page of its own.
\<close>

datatype vnode = Cached nat | EarlyRoot | DevRoot | DevNode nat | TmpRoot | HeapNode u64

text \<open>
  \<open>struct vfs_inode\<close>. \<open>vi_sb\<close>, \<open>vi_ops\<close> and \<open>vi_f_ops\<close> are indices into the tables of operations;
  \<open>vi_lock\<close> names the sleep lock. The list pointers are part of the inode cache.
\<close>

record vfs_inode =
  vi_name :: string
  vi_dev :: u32
  vi_ino :: u32
  vi_count :: u32
  vi_nlinks :: u32
  vi_sb :: "nat option"
  vi_lock :: nat
  vi_ops :: "nat option"
  vi_f_ops :: "nat option"
  vi_type :: int
  vi_size :: u64
  vi_private :: u64
  vi_pd_owned :: bool

record vfs_dirent =
  de_name :: string
  de_ino :: u32
  de_type :: int

record vfs_mount =
  mnt_name :: string
  mnt_root :: "vnode option"
  mnt_parent :: "vnode option"

datatype file_type = FILE_NONE | FILE_VFS_NODE | FILE_PIPE

record kfile =
  f_type :: file_type
  ref_count :: int
  f_offset :: u64
  f_readable :: bool
  f_writable :: bool
  f_append :: bool
  f_ops :: "nat option"
  f_node :: "vnode option"
  f_pipe :: u64

text \<open>
  \<open>struct stat\<close> as far as file systems fill it. \<open>icache_order\<close> is the list of the inode cache from
  \<open>head.next\<close> to \<open>head.prev\<close>, \<open>dev_node_count\<close> the number of device nodes.
\<close>

record kstat =
  st_addr :: int
  st_type :: int
  st_nlink :: int
  st_size :: u64

record vfs_state = sched_state +
  vnodes :: "vnode \<Rightarrow> vfs_inode"
  vfs_root :: "vnode option"
  mounts :: "nat \<Rightarrow> vfs_mount"
  icache_order :: "nat list"
  dev_node_count :: nat

text \<open>The tables of operations, over the state \<open>'s\<close>.\<close>

record 's vfs_inode_ops =
  op_lookup :: "(vnode \<Rightarrow> string \<Rightarrow> 's \<Rightarrow> (vnode option \<times> 's) outcome) option"
  op_create :: "(vnode \<Rightarrow> string \<Rightarrow> int \<Rightarrow> 's \<Rightarrow> (int \<times> 's) outcome) option"
  op_unlink :: "(vnode \<Rightarrow> string \<Rightarrow> 's \<Rightarrow> (int \<times> 's) outcome) option"
  op_mkdir :: "(vnode \<Rightarrow> string \<Rightarrow> int \<Rightarrow> 's \<Rightarrow> (int \<times> 's) outcome) option"
  op_stat :: "(vnode \<Rightarrow> 's \<Rightarrow> (int \<times> kstat \<times> 's) outcome) option"
  op_truncate :: "(vnode \<Rightarrow> u64 \<Rightarrow> 's \<Rightarrow> (int \<times> 's) outcome) option"

record 's vfs_file_ops =
  op_read :: "(kfile \<Rightarrow> u64 \<Rightarrow> u32 \<Rightarrow> 's \<Rightarrow> (int \<times> kfile \<times> 's) outcome) option"
  op_write :: "(kfile \<Rightarrow> u64 \<Rightarrow> u32 \<Rightarrow> 's \<Rightarrow> (int \<times> kfile \<times> 's) outcome) option"
  op_readdir :: "(kfile \<Rightarrow> 's \<Rightarrow> (int \<times> vfs_dirent \<times> kfile \<times> 's) outcome) option"

record 's vfs_tables =
  inode_tab :: "nat \<Rightarrow> 's vfs_inode_ops"
  file_tab :: "nat \<Rightarrow> 's vfs_file_ops"
  destroy_tab :: "nat \<Rightarrow> (vnode \<Rightarrow> 's \<Rightarrow> 's outcome) option"

definition upd_vnode :: "vnode \<Rightarrow> (vfs_inode \<Rightarrow> vfs_inode) \<Rightarrow> 'a vfs_state_scheme \<Rightarrow> 'a vfs_state_scheme" where
  "upd_vnode n f s = s\<lparr>vnodes := (vnodes s)(n := f (vnodes s n))\<rparr>"

text \<open>\<open>node->ops->f\<close>, with both null checks.\<close>

definition node_op ::
  "('a vfs_state_scheme vfs_inode_ops \<Rightarrow> 'f option) \<Rightarrow> 'a vfs_state_scheme vfs_tables \<Rightarrow> vnode \<Rightarrow> 'a vfs_state_scheme \<Rightarrow> 'f option" where
  "node_op f ops n s = (case vi_ops (vnodes s n) of None \<Rightarrow> None | Some t \<Rightarrow> f (inode_tab ops t))"

section \<open>Lookup\<close>

definition vfs_lookup_mount :: "vnode \<Rightarrow> string \<Rightarrow> 'a vfs_state_scheme \<Rightarrow> vnode option" where
  "vfs_lookup_mount par name s =
     (case find (\<lambda>i. mnt_parent (mounts s i) = Some par \<and> namecmp (mnt_name (mounts s i)) name = 0) [0..<VFS_MAX_MOUNTS] of
        Some i \<Rightarrow> mnt_root (mounts s i)
      | None \<Rightarrow> None)"

lemma skipelem_shorter: "skipelem path = Some (name, rest) \<Longrightarrow> length rest < length path"
proof -
  assume a: "skipelem path = Some (name, rest)"
  then have ne: "dropWhile (\<lambda>c. c = slash) path \<noteq> []" by (auto simp: skipelem_def Let_def split: if_splits)
  have "rest = dropWhile (\<lambda>c. c = slash) (dropWhile (\<lambda>c. c \<noteq> slash) (dropWhile (\<lambda>c. c = slash) path))"
    using a by (auto simp: skipelem_def Let_def split: if_splits)
  then show ?thesis using le_less_trans [OF length_dropWhile_le rest_shorter [OF ne]] by simp
qed

text \<open>The loop of \<open>vfs_lookup_at\<close>: \<open>None\<close> for a null result.\<close>

function vfs_walk ::
  "'a vfs_state_scheme vfs_tables \<Rightarrow> string \<Rightarrow> bool \<Rightarrow> vnode \<Rightarrow> 'a vfs_state_scheme \<Rightarrow>
    (vnode option \<times> 'a vfs_state_scheme) outcome" where
  "vfs_walk ops path walked current s =
     (case skipelem path of
        None \<Rightarrow>
          let s = (if \<not> walked \<and> Some current = vfs_root s then upd_vnode current (\<lambda>n. n\<lparr>vi_count := vi_count n + 1\<rparr>) s else s)
          in Ok (Some current, s)
      | Some (name, rest) \<Rightarrow>
          if vi_type (vnodes s current) AND VFS_DIR = 0 then Ok (None, s)
          else case vfs_lookup_mount current name s of
            Some nxt \<Rightarrow> vfs_walk ops rest True nxt s
          | None \<Rightarrow>
              (case node_op op_lookup ops current s of
                 None \<Rightarrow> Ok (None, s)
               | Some lookup \<Rightarrow>
                   bnd (lookup current name s) (\<lambda>(nxt, s).
                   case nxt of None \<Rightarrow> Ok (None, s) | Some n \<Rightarrow> vfs_walk ops rest True n s)))"
  by pat_completeness auto
termination
  by (relation "measure (\<lambda>(ops, path, walked, current, s). length path)") (auto dest: skipelem_shorter)

definition vfs_lookup_at ::
  "'a vfs_state_scheme vfs_tables \<Rightarrow> vnode \<Rightarrow> string \<Rightarrow> 'a vfs_state_scheme \<Rightarrow> (vnode option \<times> 'a vfs_state_scheme) outcome" where
  "vfs_lookup_at ops node path s = vfs_walk ops path False node s"

definition vfs_namei ::
  "'a vfs_state_scheme vfs_tables \<Rightarrow> string \<Rightarrow> 'a vfs_state_scheme \<Rightarrow> (vnode option \<times> 'a vfs_state_scheme) outcome" where
  "vfs_namei ops path s =
     (if path = [] then Ok (None, s)
      else case vfs_root s of
        None \<Rightarrow> Fault ''vfs_namei: null root''
      | Some root \<Rightarrow> vfs_lookup_at ops root (vfs_make_absolute_path s path) s)"

section \<open>References\<close>

text \<open>
  \<open>kfree(node)\<close>: the inodes of the cache and \<open>early_root\<close> are static objects of the kernel image,
  below \<open>kernel_end\<close>, so \<open>kfree\<close> refuses their address.
\<close>

definition kfree_node :: "vnode \<Rightarrow> 'a vfs_state_scheme \<Rightarrow> 'a vfs_state_scheme outcome" where
  "kfree_node n s = (case n of HeapNode a \<Rightarrow> kfree a s | _ \<Rightarrow> Panic ''kfree encounter an error'')"

definition vfs_iput ::
  "'a vfs_state_scheme vfs_tables \<Rightarrow> vnode option \<Rightarrow> 'a vfs_state_scheme \<Rightarrow> 'a vfs_state_scheme outcome" where
  "vfs_iput ops node s =
     (case node of
        None \<Rightarrow> Ok s
      | Some n \<Rightarrow>
          (case (case vi_sb (vnodes s n) of None \<Rightarrow> None | Some sb \<Rightarrow> destroy_tab ops sb) of
             Some destroy \<Rightarrow> destroy n s
           | None \<Rightarrow>
               if Some n \<noteq> vfs_root s then
                 bnd (if vi_private (vnodes s n) \<noteq> 0 then kfree (vi_private (vnodes s n)) s else Ok s) (kfree_node n)
               else Ok s))"

definition vfs_ilock :: "vnode option \<Rightarrow> 'a vfs_state_scheme \<Rightarrow> (unit blocking \<times> 'a vfs_state_scheme) outcome" where
  "vfs_ilock ip s =
     (case ip of
        None \<Rightarrow> Panic ''vfs ilock''
      | Some n \<Rightarrow>
          if vi_count (vnodes s n) < 1 then Panic ''vfs ilock''
          else acquiresleep (vi_lock (vnodes s n)) s)"

definition vfs_iunlock :: "vnode option \<Rightarrow> 'a vfs_state_scheme \<Rightarrow> 'a vfs_state_scheme outcome" where
  "vfs_iunlock ip s =
     (case ip of
        None \<Rightarrow> Panic ''vfs iunlock''
      | Some n \<Rightarrow>
          bnd (holdingsleep (vi_lock (vnodes s n)) s) (\<lambda>(h, s).
          if \<not> h \<or> vi_count (vnodes s n) < 1 then Panic ''vfs iunlock''
          else releasesleep (vi_lock (vnodes s n)) s))"

section \<open>Creating and removing names\<close>

definition vfs_leaf_name_valid :: "string \<Rightarrow> bool" where
  "vfs_leaf_name_valid name \<longleftrightarrow> name \<noteq> [] \<and> length name < DIRSIZ"

text \<open>The start of a walk: the root for an absolute path, else the given directory.\<close>

definition walk_start :: "vnode \<Rightarrow> string \<Rightarrow> 'a vfs_state_scheme \<Rightarrow> vnode outcome" where
  "walk_start start path s =
     (if hd path = slash then case vfs_root s of None \<Rightarrow> Fault ''vfs: null root'' | Some r \<Rightarrow> Ok r else Ok start)"

text \<open>The child of a directory: a mounted root, or what the file system finds; \<open>None\<close> where it has no lookup.\<close>

definition vfs_child ::
  "'a vfs_state_scheme vfs_tables \<Rightarrow> vnode \<Rightarrow> string \<Rightarrow> 'a vfs_state_scheme \<Rightarrow>
    ((vnode option \<times> bool) option \<times> 'a vfs_state_scheme) outcome" where
  "vfs_child ops current name s =
     (case vfs_lookup_mount current name s of
        Some n \<Rightarrow> Ok (Some (Some n, False), s)
      | None \<Rightarrow>
          (case node_op op_lookup ops current s of
             None \<Rightarrow> Ok (None, s)
           | Some lookup \<Rightarrow> bnd (lookup current name s) (\<lambda>(c, s). Ok (Some (c, c \<noteq> None), s))))"

text \<open>The last element of \<open>vfs_create_at\<close>.\<close>

definition create_leaf ::
  "'a vfs_state_scheme vfs_tables \<Rightarrow> int \<Rightarrow> vnode \<Rightarrow> string \<Rightarrow> 'a vfs_state_scheme \<Rightarrow>
    (vnode option \<times> 'a vfs_state_scheme) outcome" where
  "create_leaf ops type current name s =
     (if \<not> vfs_leaf_name_valid name then Ok (None, s)
      else bnd (vfs_child ops current name s) (\<lambda>(r, s).
        case r of
          None \<Rightarrow> Ok (None, s)
        | Some (Some existing, _) \<Rightarrow> Ok (Some existing, s)
        | Some (None, _) \<Rightarrow>
            (case node_op op_create ops current s of
               None \<Rightarrow> Ok (None, s)
             | Some create \<Rightarrow>
                 bnd (create current name type s) (\<lambda>(ret, s).
                 if ret < 0 then Ok (None, s)
                 else case node_op op_lookup ops current s of
                   None \<Rightarrow> Ok (None, s)
                 | Some lookup \<Rightarrow> lookup current name s))))"

function create_walk ::
  "'a vfs_state_scheme vfs_tables \<Rightarrow> int \<Rightarrow> string \<Rightarrow> vnode \<Rightarrow> 'a vfs_state_scheme \<Rightarrow>
    (vnode option \<times> 'a vfs_state_scheme) outcome" where
  "create_walk ops type path current s =
     (case skipelem path of
        None \<Rightarrow> Ok (None, s)
      | Some (name, rest) \<Rightarrow>
          if vi_type (vnodes s current) AND VFS_DIR = 0 then Ok (None, s)
          else if rest = [] then create_leaf ops type current name s
          else bnd (vfs_child ops current name s) (\<lambda>(r, s).
            case r of
              Some (Some child, _) \<Rightarrow>
                if vi_type (vnodes s child) AND VFS_DIR = 0 then Ok (None, s)
                else create_walk ops type rest child s
            | _ \<Rightarrow> Ok (None, s)))"
  by pat_completeness auto
termination
  by (relation "measure (\<lambda>(ops, type, path, current, s). length path)") (auto dest: skipelem_shorter)

definition vfs_create_at ::
  "'a vfs_state_scheme vfs_tables \<Rightarrow> vnode \<Rightarrow> string \<Rightarrow> int \<Rightarrow> 'a vfs_state_scheme \<Rightarrow>
    (vnode option \<times> 'a vfs_state_scheme) outcome" where
  "vfs_create_at ops start path type s =
     (if path = [] then Ok (None, s)
      else bnd (walk_start start path s) (\<lambda>current. create_walk ops type path current s))"

text \<open>
  The loop that \<open>vfs_mkdir_at\<close> and \<open>vfs_unlink_at\<close> share: \<open>owned\<close> is the inode that the walk holds a
  reference to, \<open>leaf\<close> the code for the last element, \<open>none\<close> the result for a path without elements.
\<close>

function parent_walk ::
  "'a vfs_state_scheme vfs_tables \<Rightarrow> (vnode \<Rightarrow> string \<Rightarrow> 'a vfs_state_scheme \<Rightarrow> (int \<times> 'a vfs_state_scheme) outcome) \<Rightarrow>
    int \<Rightarrow> string \<Rightarrow> vnode \<Rightarrow> vnode option \<Rightarrow> 'a vfs_state_scheme \<Rightarrow> (int \<times> 'a vfs_state_scheme) outcome" where
  "parent_walk ops leaf none path current owned s =
     (case skipelem path of
        None \<Rightarrow> bnd (vfs_iput ops owned s) (\<lambda>s. Ok (none, s))
      | Some (name, rest) \<Rightarrow>
          if vi_type (vnodes s current) \<noteq> VFS_DIR then bnd (vfs_iput ops owned s) (\<lambda>s. Ok (- ENOTDIR, s))
          else if rest = [] then
            bnd (leaf current name s) (\<lambda>(ret, s). bnd (vfs_iput ops owned s) (\<lambda>s. Ok (ret, s)))
          else bnd (vfs_child ops current name s) (\<lambda>(r, s).
            case r of
              None \<Rightarrow> bnd (vfs_iput ops owned s) (\<lambda>s. Ok (- ENOTDIR, s))
            | Some (None, child_owned) \<Rightarrow> bnd (vfs_iput ops owned s) (\<lambda>s. Ok (- ENOENT, s))
            | Some (Some child, child_owned) \<Rightarrow>
                if vi_type (vnodes s child) \<noteq> VFS_DIR then
                  bnd (if child_owned then vfs_iput ops (Some child) s else Ok s) (\<lambda>s.
                  bnd (vfs_iput ops owned s) (\<lambda>s. Ok (- ENOTDIR, s)))
                else
                  bnd (vfs_iput ops owned s) (\<lambda>s.
                  parent_walk ops leaf none rest child (if child_owned then Some child else None) s)))"
  by pat_completeness auto
termination
  by (relation "measure (\<lambda>(ops, leaf, none, path, current, owned, s). length path)") (auto dest: skipelem_shorter)

definition mkdir_leaf ::
  "'a vfs_state_scheme vfs_tables \<Rightarrow> vnode \<Rightarrow> string \<Rightarrow> 'a vfs_state_scheme \<Rightarrow> (int \<times> 'a vfs_state_scheme) outcome" where
  "mkdir_leaf ops current name s =
     (case node_op op_mkdir ops current s of
        None \<Rightarrow> Ok (- EOPNOTSUPP, s)
      | Some mkdir \<Rightarrow>
          bnd (vfs_lookup_at ops current name s) (\<lambda>(existing, s).
          if existing \<noteq> None then bnd (vfs_iput ops existing s) (\<lambda>s. Ok (- EEXIST, s))
          else mkdir current name 0 s))"

definition vfs_mkdir_at ::
  "'a vfs_state_scheme vfs_tables \<Rightarrow> vnode \<Rightarrow> string \<Rightarrow> int \<Rightarrow> 'a vfs_state_scheme \<Rightarrow> (int \<times> 'a vfs_state_scheme) outcome" where
  "vfs_mkdir_at ops dir path flags s =
     (if path = [] then Ok (- EINVAL, s)
      else bnd (walk_start dir path s) (\<lambda>current. parent_walk ops (mkdir_leaf ops) (- EEXIST) path current None s))"

definition unlink_leaf ::
  "'a vfs_state_scheme vfs_tables \<Rightarrow> vnode \<Rightarrow> string \<Rightarrow> 'a vfs_state_scheme \<Rightarrow> (int \<times> 'a vfs_state_scheme) outcome" where
  "unlink_leaf ops current name s =
     (case node_op op_unlink ops current s of
        None \<Rightarrow> Ok (- EOPNOTSUPP, s)
      | Some unlink \<Rightarrow>
          bnd (vfs_lookup_at ops current name s) (\<lambda>(existing, s).
          case existing of
            None \<Rightarrow> Ok (- ENOENT, s)
          | Some n \<Rightarrow>
              if vi_type (vnodes s n) = VFS_DIR then bnd (vfs_iput ops existing s) (\<lambda>s. Ok (- EISDIR, s))
              else bnd (vfs_iput ops existing s) (unlink current name)))"

definition vfs_unlink_at ::
  "'a vfs_state_scheme vfs_tables \<Rightarrow> vnode \<Rightarrow> string \<Rightarrow> int \<Rightarrow> 'a vfs_state_scheme \<Rightarrow> (int \<times> 'a vfs_state_scheme) outcome" where
  "vfs_unlink_at ops dir path flags s =
     (if path = [] then Ok (- EINVAL, s)
      else bnd (walk_start dir path s) (\<lambda>current. parent_walk ops (unlink_leaf ops) (- EBUSY) path current None s))"

section \<open>Mounting\<close>

definition vfs_mount_at ::
  "vnode option \<Rightarrow> string \<Rightarrow> vnode option \<Rightarrow> 'a vfs_state_scheme \<Rightarrow> int \<times> 'a vfs_state_scheme" where
  "vfs_mount_at par name root s =
     (if root = None \<or> par = None then (- 1, s)
      else if name = [] \<or> hd name = slash then (- 1, s)
      else if slash \<in> set name then (- 1, s)
      else if length name \<ge> DIRSIZ then (- 1, s)
      else if \<exists>i \<in> set [0..<VFS_MAX_MOUNTS]. mnt_parent (mounts s i) = par \<and> namecmp (mnt_name (mounts s i)) name = 0
      then (- 1, s)
      else case find (\<lambda>i. mnt_root (mounts s i) = None) [0..<VFS_MAX_MOUNTS] of
        None \<Rightarrow> (- 1, s)
      | Some i \<Rightarrow>
          (0, s\<lparr>mounts := (mounts s)(i := \<lparr>mnt_name = take (DIRSIZ - 1) name, mnt_root = root, mnt_parent = par\<rparr>)\<rparr>))"

text \<open>
  \<open>vfs_mount_fs\<close>: trailing slashes are cut, \<open>name\<close> is what follows the last slash, and the path
  before it is looked up unless it is the root.
\<close>

function cut_slashes :: "string \<Rightarrow> string" where
  "cut_slashes p = (if length p > 1 \<and> last p = slash then cut_slashes (butlast p) else p)"
  by pat_completeness auto
termination
  by (relation "measure length") auto

definition vfs_mount_fs ::
  "'a vfs_state_scheme vfs_tables \<Rightarrow> string \<Rightarrow> vnode option \<Rightarrow> 'a vfs_state_scheme \<Rightarrow> (int \<times> 'a vfs_state_scheme) outcome" where
  "vfs_mount_fs ops path root s =
     (if root = None \<or> path = [] \<or> hd path \<noteq> slash then Ok (- 1, s)
      else if length path \<ge> PATH_MAX then Ok (- 1, s)
      else
        let fullpath = cut_slashes path in
        if length fullpath \<le> 1 then Ok (- 1, s)
        else
          let name = rev (takeWhile (\<lambda>c. c \<noteq> slash) (rev fullpath));
              before = take (length fullpath - length name) fullpath
          in bnd (if length before = 1 then Ok (vfs_root s, s) else vfs_namei ops (butlast before) s) (\<lambda>(par, s).
             Ok (vfs_mount_at par name root s)))"

section \<open>Reading\<close>

definition vfs_read_at ::
  "'a vfs_state_scheme vfs_tables \<Rightarrow> vnode option \<Rightarrow> u64 \<Rightarrow> u64 \<Rightarrow> u32 \<Rightarrow> 'a vfs_state_scheme \<Rightarrow>
    (int \<times> 'a vfs_state_scheme) outcome" where
  "vfs_read_at ops node off dst n s =
     (case node of
        None \<Rightarrow> Ok (- 1, s)
      | Some v \<Rightarrow>
          (case (case vi_f_ops (vnodes s v) of None \<Rightarrow> None | Some t \<Rightarrow> op_read (file_tab ops t)) of
             None \<Rightarrow> Ok (- 1, s)
           | Some read \<Rightarrow>
               let f = \<lparr>f_type = FILE_NONE, ref_count = 1, f_offset = off, f_readable = True, f_writable = False,
                 f_append = False, f_ops = None, f_node = node, f_pipe = 0\<rparr>
               in bnd (read f dst n s) (\<lambda>(r, f, s). Ok (r, s))))"

section \<open>The walk as a walk over the path elements\<close>

declare vfs_walk.simps [simp del] create_walk.simps [simp del] parent_walk.simps [simp del] cut_slashes.simps [simp del]

text \<open>One step of a lookup, and the lookup of a list of elements.\<close>

definition lookup_elem ::
  "'a vfs_state_scheme vfs_tables \<Rightarrow> vnode \<Rightarrow> string \<Rightarrow> 'a vfs_state_scheme \<Rightarrow>
    (vnode option \<times> 'a vfs_state_scheme) outcome" where
  "lookup_elem ops current name s =
     (if vi_type (vnodes s current) AND VFS_DIR = 0 then Ok (None, s)
      else case vfs_lookup_mount current name s of
        Some nxt \<Rightarrow> Ok (Some nxt, s)
      | None \<Rightarrow> (case node_op op_lookup ops current s of None \<Rightarrow> Ok (None, s) | Some lookup \<Rightarrow> lookup current name s))"

fun lookup_elems ::
  "'a vfs_state_scheme vfs_tables \<Rightarrow> string list \<Rightarrow> vnode \<Rightarrow> 'a vfs_state_scheme \<Rightarrow>
    (vnode option \<times> 'a vfs_state_scheme) outcome" where
  "lookup_elems ops [] current s = Ok (Some current, s)"
| "lookup_elems ops (e # es) current s =
     bnd (lookup_elem ops current e s) (\<lambda>(n, s). case n of None \<Rightarrow> Ok (None, s) | Some n \<Rightarrow> lookup_elems ops es n s)"

definition elements :: "string \<Rightarrow> string list" where
  "elements path = map (take (PATH_MAX - 1)) (components path)"

lemma skipelem_elements:
  "case skipelem path of None \<Rightarrow> elements path = [] | Some (name, rest) \<Rightarrow> elements path = name # elements rest"
  using skipelem_walk [of path] by (auto simp: elements_def split: option.splits)

lemma vfs_walk_elements: "vfs_walk ops path True current s = lookup_elems ops (elements path) current s"
proof (induction "length path" arbitrary: path current s rule: less_induct)
  case less
  show ?case
  proof (cases "skipelem path")
    case None
    then show ?thesis using skipelem_elements [of path] by (subst vfs_walk.simps) simp
  next
    case (Some r)
    obtain name rest where r: "r = (name, rest)" by force
    have e: "elements path = name # elements rest" using skipelem_elements [of path] Some r by simp
    have w: "vfs_walk ops rest True = lookup_elems ops (elements rest)"
      by (intro ext less.hyps skipelem_shorter [of path name]) (simp add: Some r)
    have "vfs_walk ops path True current s = bnd (lookup_elem ops current name s)
        (\<lambda>(n, s). case n of None \<Rightarrow> Ok (None, s) | Some n \<Rightarrow> vfs_walk ops rest True n s)"
      using Some r by (subst vfs_walk.simps) (simp add: lookup_elem_def split: option.splits)
    then show ?thesis unfolding w e by simp
  qed
qed

lemma vfs_walk_start:
  assumes "elements path \<noteq> []"
  shows "vfs_walk ops path False current s = vfs_walk ops path True current s"
  using assms skipelem_elements [of path] by (subst (1 2) vfs_walk.simps) (auto split: option.splits)

section \<open>Properties\<close>

text \<open>
  C37. \<open>vfs_lookup_at\<close> of a path with at least one element is the walk over the elements of the path:
  each element is looked up in the directory reached so far, a mounted file system first, and the
  walk stops with null at the first element that cannot be resolved. A path without elements gives
  the start node, with a new reference if it is the root.
\<close>

theorem vfs_lookup_at_walks_elements:
  "vfs_lookup_at ops node path s =
     (if elements path = [] then
        Ok (Some node, if Some node = vfs_root s then upd_vnode node (\<lambda>n. n\<lparr>vi_count := vi_count n + 1\<rparr>) s else s)
      else lookup_elems ops (elements path) node s)"
proof (cases "elements path = []")
  case True
  then have "skipelem path = None" using skipelem_elements [of path] by (auto split: option.splits)
  then show ?thesis using True by (simp add: vfs_lookup_at_def vfs_walk.simps [of ops path])
next
  case False
  then show ?thesis by (simp add: vfs_lookup_at_def vfs_walk_start vfs_walk_elements)
qed

definition mounts_ok :: "'a vfs_state_scheme \<Rightarrow> bool" where
  "mounts_ok s \<longleftrightarrow> (\<forall>i. mnt_root (mounts s i) = None \<longleftrightarrow> mnt_parent (mounts s i) = None)"

lemma find_upd_new:
  assumes "find P xs = None" "i \<in> set xs" "Q i" "\<And>j. j \<noteq> i \<Longrightarrow> Q j = P j"
  shows "find Q xs = Some i"
  using assms by (induction xs) (auto split: if_splits)

lemma find_upd_old:
  assumes "\<not> P i" "\<not> Q i" "\<And>j. j \<noteq> i \<Longrightarrow> Q j = P j"
  shows "find Q xs = find P xs"
proof -
  have "Q j = P j" for j using assms by (cases "j = i") auto
  then have "Q = P" by (rule ext)
  then show ?thesis by simp
qed

lemma vfs_mount_at_cases:
  assumes "vfs_mount_at (Some par) name (Some root) s = (0, s')" "mounts_ok s" "CHR 0x00 \<notin> set name"
  obtains i where "i < VFS_MAX_MOUNTS" "mnt_root (mounts s i) = None" "mnt_parent (mounts s i) = None" "length name < DIRSIZ"
    "s' = s\<lparr>mounts := (mounts s)(i := \<lparr>mnt_name = name, mnt_root = Some root, mnt_parent = Some par\<rparr>)\<rparr>"
    "vfs_lookup_mount par name s = None"
    "find (\<lambda>i. mnt_parent (mounts s i) = Some par \<and> namecmp (mnt_name (mounts s i)) name = 0) [0..<VFS_MAX_MOUNTS] = None"
proof -
  let ?P = "\<lambda>i. mnt_parent (mounts s i) = Some par \<and> namecmp (mnt_name (mounts s i)) name = 0"
  have len: "length name < DIRSIZ" and no: "\<not> (\<exists>i \<in> set [0..<VFS_MAX_MOUNTS]. ?P i)"
    using assms(1) unfolding vfs_mount_at_def by (auto split: if_splits simp del: upt_rec_numeral)
  have f: "find ?P [0..<VFS_MAX_MOUNTS] = None" using no by (simp only: find_None_iff) blast
  obtain i where i: "find (\<lambda>i. mnt_root (mounts s i) = None) [0..<VFS_MAX_MOUNTS] = Some i"
    "s' = s\<lparr>mounts := (mounts s)(i := \<lparr>mnt_name = take (DIRSIZ - 1) name, mnt_root = Some root, mnt_parent = Some par\<rparr>)\<rparr>"
    using assms(1) unfolding vfs_mount_at_def by (auto split: if_splits option.splits simp del: upt_rec_numeral)
  have "mnt_root (mounts s i) = None" "i < VFS_MAX_MOUNTS" using i(1) by (auto simp: find_Some_iff simp del: upt_rec_numeral)
  moreover have "take (DIRSIZ - 1) name = name" using len by simp
  ultimately show ?thesis
    using that [of i] i(2) f len assms(2) by (simp add: mounts_ok_def vfs_lookup_mount_def del: upt_rec_numeral)
qed

text \<open>
  A mounted file system is found under its parent and name: after a successful \<open>vfs_mount_at\<close>
  the lookup of that pair gives the mounted root, the lookup of any pair with another parent or name
  gives what it gave before, and nothing but the mount table has changed. A second mount at the same
  place is refused.
\<close>

theorem vfs_mount_lookup:
  assumes "vfs_mount_at (Some par) name (Some root) s = (0, s')" "mounts_ok s" "CHR 0x00 \<notin> set name"
  shows "vfs_lookup_mount par name s' = Some root \<and> mounts_ok s' \<and>
    (\<forall>p n. p \<noteq> par \<or> namecmp name n \<noteq> 0 \<longrightarrow> vfs_lookup_mount p n s' = vfs_lookup_mount p n s) \<and>
    s'\<lparr>mounts := mounts s\<rparr> = s \<and> fst (vfs_mount_at (Some par) name (Some other) s') = - 1"
proof -
  obtain i where i: "i < VFS_MAX_MOUNTS" "mnt_root (mounts s i) = None" "mnt_parent (mounts s i) = None" "length name < DIRSIZ"
    "s' = s\<lparr>mounts := (mounts s)(i := \<lparr>mnt_name = name, mnt_root = Some root, mnt_parent = Some par\<rparr>)\<rparr>"
    "vfs_lookup_mount par name s = None"
    "find (\<lambda>i. mnt_parent (mounts s i) = Some par \<and> namecmp (mnt_name (mounts s i)) name = 0) [0..<VFS_MAX_MOUNTS] = None"
    by (rule vfs_mount_at_cases [OF assms])
  have self: "namecmp name name = 0" using string_strncmp_zero [OF assms(3,3)] by (simp add: namecmp_def)
  have "find (\<lambda>j. mnt_parent (mounts s' j) = Some par \<and> namecmp (mnt_name (mounts s' j)) name = 0) [0..<VFS_MAX_MOUNTS] = Some i"
    by (rule find_upd_new [OF i(7)]) (use i(1,5) self in \<open>auto simp del: upt_rec_numeral\<close>)
  then have l: "vfs_lookup_mount par name s' = Some root" using i(5) by (simp add: vfs_lookup_mount_def del: upt_rec_numeral)
  have "vfs_lookup_mount p n s' = vfs_lookup_mount p n s" if "p \<noteq> par \<or> namecmp name n \<noteq> 0" for p n
  proof -
    have f: "find (\<lambda>j. mnt_parent (mounts s' j) = Some p \<and> namecmp (mnt_name (mounts s' j)) n = 0) [0..<VFS_MAX_MOUNTS] =
        find (\<lambda>j. mnt_parent (mounts s j) = Some p \<and> namecmp (mnt_name (mounts s j)) n = 0) [0..<VFS_MAX_MOUNTS]"
      by (rule find_upd_old [of _ i]) (use i(3,5) that in auto)
    show ?thesis
    proof (cases "find (\<lambda>j. mnt_parent (mounts s j) = Some p \<and> namecmp (mnt_name (mounts s j)) n = 0) [0..<VFS_MAX_MOUNTS]")
      case (Some j)
      then have "j \<noteq> i" using i(3) by (auto simp: find_Some_iff simp del: upt_rec_numeral)
      then show ?thesis using Some f i(5) by (simp add: vfs_lookup_mount_def del: upt_rec_numeral)
    qed (use f in \<open>simp add: vfs_lookup_mount_def del: upt_rec_numeral\<close>)
  qed
  moreover have "fst (vfs_mount_at (Some par) name (Some other) s') = - 1"
  proof -
    have "\<exists>j \<in> set [0..<VFS_MAX_MOUNTS]. mnt_parent (mounts s' j) = Some par \<and> namecmp (mnt_name (mounts s' j)) name = 0"
      using i(1,5) self by (intro bexI [of _ i]) auto
    then show ?thesis by (simp add: vfs_mount_at_def del: upt_rec_numeral)
  qed
  moreover have "mounts_ok s'" using assms(2) i(5) by (simp add: mounts_ok_def)
  moreover have "s'\<lparr>mounts := mounts s\<rparr> = s" using i(5) by simp
  ultimately show ?thesis using l by blast
qed

theorem vfs_mount_lookup_witness:
  "\<exists>s'. vfs_mount_at (Some EarlyRoot) ''dev'' (Some (Cached 0)) (undefined\<lparr>mounts := \<lambda>_. \<lparr>mnt_name = '''', mnt_root = None, mnt_parent = None\<rparr>\<rparr> :: vfs_state) = (0, s') \<and>
    vfs_lookup_mount EarlyRoot ''dev'' s' = Some (Cached 0)"
proof -
  let ?s = "undefined\<lparr>mounts := \<lambda>_. \<lparr>mnt_name = '''', mnt_root = None, mnt_parent = None\<rparr>\<rparr> :: vfs_state"
  obtain s' where s': "vfs_mount_at (Some EarlyRoot) ''dev'' (Some (Cached 0)) ?s = (0, s')"
    by (simp add: vfs_mount_at_def upt_rec)
  moreover have "mounts_ok ?s" by (simp add: mounts_ok_def)
  ultimately show ?thesis using vfs_mount_lookup [OF s'] by auto
qed

lemma lookup_mount_upd: "vfs_lookup_mount p n (upd_vnode v f s) = vfs_lookup_mount p n s"
  by (simp add: vfs_lookup_mount_def upd_vnode_def cong: option.case_cong)

text \<open>A file system whose lookup finds the children of a tree and takes a reference, as \<open>get_inode\<close> does.\<close>

definition counting_lookup :: "(vnode \<Rightarrow> string \<Rightarrow> vnode option) \<Rightarrow> vnode \<Rightarrow> string \<Rightarrow> 'a vfs_state_scheme \<Rightarrow>
    (vnode option \<times> 'a vfs_state_scheme) outcome" where
  "counting_lookup tree d name s =
     (case tree d name of
        None \<Rightarrow> Ok (None, s)
      | Some n \<Rightarrow> Ok (Some n, upd_vnode n (\<lambda>v. v\<lparr>vi_count := vi_count v + 1\<rparr>) s))"

text \<open>
  C38. \<open>vfs_lookup_at\<close> keeps the references that it takes on the way: when the lookups of the file
  system return a reference, the lookup of a path with two elements leaves the count of the directory
  in between one higher, although only the last node is returned to the caller.
\<close>

theorem vfs_lookup_leaks_reference:
  assumes "elements path = [e1, e2]" "tree d e1 = Some n1" "tree n1 e2 = Some n2" "n1 \<noteq> d" "n1 \<noteq> n2"
    "vi_type (vnodes s d) = VFS_DIR" "vi_type (vnodes s n1) = VFS_DIR"
    "vi_ops (vnodes s d) = Some t" "vi_ops (vnodes s n1) = Some t"
    "op_lookup (inode_tab ops t) = Some (counting_lookup tree)"
    "\<And>p n. vfs_lookup_mount p n s = None"
  shows "\<exists>s'. vfs_lookup_at ops d path s = Ok (Some n2, s') \<and> vi_count (vnodes s' n1) = vi_count (vnodes s n1) + 1"
proof -
  have "vfs_lookup_mount p n (upd_vnode v f s) = None" for p n v f
    using assms(11) [of p n] by (simp add: lookup_mount_upd)
  then have "lookup_elems ops [e1, e2] d s = Ok (Some n2, upd_vnode n2 (\<lambda>v. v\<lparr>vi_count := vi_count v + 1\<rparr>)
      (upd_vnode n1 (\<lambda>v. v\<lparr>vi_count := vi_count v + 1\<rparr>) s))"
    using assms(2-11) by (simp add: lookup_elem_def counting_lookup_def node_op_def) (simp add: upd_vnode_def counting_lookup_def)
  then show ?thesis
    using assms(1,5) vfs_walk_elements [of ops path d s] vfs_walk_start [of path ops d s]
    by (simp add: vfs_lookup_at_def upd_vnode_def)
qed

definition demo_tree :: "vnode \<Rightarrow> string \<Rightarrow> vnode option" where
  "demo_tree d name = (if d = EarlyRoot \<and> name = ''a'' then Some (Cached 0) else if d = Cached 0 \<and> name = ''b'' then Some (Cached 1) else None)"

definition demo_vfs :: vfs_state where
  "demo_vfs = undefined\<lparr>mounts := \<lambda>_. \<lparr>mnt_name = '''', mnt_root = None, mnt_parent = None\<rparr>,
     vnodes := \<lambda>_. undefined\<lparr>vi_type := VFS_DIR, vi_ops := Some 0, vi_count := 1\<rparr>\<rparr>"

definition demo_ops :: "vfs_state vfs_tables" where
  "demo_ops = undefined\<lparr>inode_tab := \<lambda>_. undefined\<lparr>op_lookup := Some (counting_lookup demo_tree)\<rparr>\<rparr>"

theorem vfs_lookup_leaks_reference_witness:
  "\<exists>s'. vfs_lookup_at demo_ops EarlyRoot ''a/b'' demo_vfs = Ok (Some (Cached 1), s') \<and> vi_count (vnodes s' (Cached 0)) = 2"
proof -
  have e: "elements ''a/b'' = [''a'', ''b'']" by (simp add: elements_def components_def)
  have m: "vfs_lookup_mount p n demo_vfs = None" for p n
    by (simp add: vfs_lookup_mount_def demo_vfs_def split: option.splits)
  have c: "vi_count (vnodes demo_vfs (Cached 0)) + 1 = 2" by (simp add: demo_vfs_def)
  show ?thesis
    using vfs_lookup_leaks_reference [OF e, of demo_tree EarlyRoot "Cached 0" "Cached 1" demo_vfs 0 demo_ops] m unfolding c
    by (simp add: demo_tree_def demo_vfs_def demo_ops_def)
qed

end
