(* ===== verification/Icache.thy ===== *)
theory Icache
  imports Vfs
begin

text \<open>
  The inode cache, \<open>kernel/fs/inode_cache.c\<close>: 50 slots that file systems share. The doubly linked list
  of slots is the list \<open>icache_order\<close> of their indices.
\<close>

abbreviation NINODES :: nat where "NINODES \<equiv> 50"

section \<open>Operations\<close>

text \<open>The sleep lock of slot \<open>i\<close> is lock \<open>i\<close>.\<close>

definition icache_init :: "'a vfs_state_scheme \<Rightarrow> 'a vfs_state_scheme" where
  "icache_init s =
     foldl (\<lambda>s i. initsleeplock i (upd_vnode (Cached i) (\<lambda>v. v\<lparr>vi_count := 0, vi_pd_owned := False, vi_lock := i\<rparr>)
         (s\<lparr>icache_order := i # icache_order s\<rparr>)))
       (initlock_held IcacheLock s\<lparr>icache_order := []\<rparr>) [0..<NINODES]"

text \<open>\<open>if (ip->private_data == 0 && alloc)\<close>.\<close>

definition attach_page :: "nat \<Rightarrow> bool \<Rightarrow> 'a vfs_state_scheme \<Rightarrow> 'a vfs_state_scheme outcome" where
  "attach_page i alloc s =
     (if vi_private (vnodes s (Cached i)) = 0 \<and> alloc then
        bnd (kalloc s) (\<lambda>(p, s). Ok (upd_vnode (Cached i) (\<lambda>v. v\<lparr>vi_private := p, vi_pd_owned := True\<rparr>) s))
      else Ok s)"

definition icache_hit :: "nat \<Rightarrow> bool \<Rightarrow> 'a vfs_state_scheme \<Rightarrow> 'a vfs_state_scheme outcome" where
  "icache_hit i alloc s =
     (if vi_count (vnodes s (Cached i)) > 0 then Ok (upd_vnode (Cached i) (\<lambda>v. v\<lparr>vi_count := vi_count v + 1\<rparr>) s)
      else attach_page i alloc (upd_vnode (Cached i) (\<lambda>v. v\<lparr>vi_count := 1\<rparr>) s))"

definition icache_recycle :: "nat \<Rightarrow> u32 \<Rightarrow> u32 \<Rightarrow> bool \<Rightarrow> 'a vfs_state_scheme \<Rightarrow> 'a vfs_state_scheme outcome" where
  "icache_recycle i dev ino alloc s =
     bnd (if vi_dev (vnodes s (Cached i)) \<noteq> dev then
            bnd (if vi_pd_owned (vnodes s (Cached i)) \<and> vi_private (vnodes s (Cached i)) \<noteq> 0
                 then kfree (vi_private (vnodes s (Cached i))) s else Ok s) (\<lambda>s.
            Ok (upd_vnode (Cached i) (\<lambda>v. v\<lparr>vi_private := 0, vi_pd_owned := False\<rparr>) s))
          else Ok s) (\<lambda>s.
     attach_page i alloc (upd_vnode (Cached i) (\<lambda>v. v\<lparr>vi_ino := ino, vi_count := 1, vi_dev := dev\<rparr>) s))"

definition get_inode :: "u32 \<Rightarrow> u32 \<Rightarrow> bool \<Rightarrow> 'a vfs_state_scheme \<Rightarrow> (vnode option \<times> 'a vfs_state_scheme) outcome" where
  "get_inode dev ino alloc s =
     bnd (acquire IcacheLock s) (\<lambda>s.
     case find (\<lambda>i. vi_ino (vnodes s (Cached i)) = ino \<and> vi_dev (vnodes s (Cached i)) = dev) [0..<NINODES] of
       Some i \<Rightarrow> bnd (icache_hit i alloc s) (\<lambda>s. bnd (release IcacheLock s) (\<lambda>s. Ok (Some (Cached i), s)))
     | None \<Rightarrow>
         (case find (\<lambda>i. vi_count (vnodes s (Cached i)) = 0) (rev (icache_order s)) of
            Some i \<Rightarrow> bnd (icache_recycle i dev ino alloc s) (\<lambda>s. bnd (release IcacheLock s) (\<lambda>s. Ok (Some (Cached i), s)))
          | None \<Rightarrow> bnd (release IcacheLock s) (\<lambda>s. Ok (None, s))))"

definition put_inode :: "nat \<Rightarrow> bool \<Rightarrow> 'a vfs_state_scheme \<Rightarrow> 'a vfs_state_scheme outcome" where
  "put_inode i free s =
     bnd (acquire IcacheLock s) (\<lambda>s.
     if vi_count (vnodes s (Cached i)) = 1 \<and> vi_nlinks (vnodes s (Cached i)) = 0 then
       let s = upd_vnode (Cached i) (\<lambda>v. v\<lparr>vi_count := 0\<rparr>) s in
       bnd (if free then kfree (vi_private (vnodes s (Cached i))) s else Ok s) (\<lambda>s.
       let s = upd_vnode (Cached i) (\<lambda>v. v\<lparr>vi_private := 0, vi_pd_owned := False\<rparr>) s;
           s = s\<lparr>icache_order := i # removeAll i (icache_order s)\<rparr>
       in release IcacheLock s)
     else if vi_count (vnodes s (Cached i)) = 0 then release IcacheLock s
     else release IcacheLock (upd_vnode (Cached i) (\<lambda>v. v\<lparr>vi_count := vi_count v - 1\<rparr>) s))"

section \<open>Invariant\<close>

definition ikey :: "'a vfs_state_scheme \<Rightarrow> nat \<Rightarrow> u32 \<times> u32" where
  "ikey s i = (vi_dev (vnodes s (Cached i)), vi_ino (vnodes s (Cached i)))"

definition icount :: "'a vfs_state_scheme \<Rightarrow> nat \<Rightarrow> u32" where
  "icount s i = vi_count (vnodes s (Cached i))"

text \<open>The page that the cache has allocated for a slot and has to release, if there is one.\<close>

definition ipage :: "vfs_inode \<Rightarrow> u64 option" where
  "ipage v = (if vi_pd_owned v \<and> vi_private v \<noteq> 0 then Some (vi_private v) else None)"

text \<open>The pages of the slots are allocated, each of them to one slot.\<close>

definition ipages_ok :: "'a vfs_state_scheme \<Rightarrow> u64 list \<Rightarrow> bool" where
  "ipages_ok s xs \<longleftrightarrow>
     (\<forall>i < NINODES. \<forall>p. ipage (vnodes s (Cached i)) = Some p \<longrightarrow> kpage s p \<and> p \<notin> set xs \<and> page_ref s p = 1) \<and>
     (\<forall>i < NINODES. \<forall>j < NINODES. \<forall>p. ipage (vnodes s (Cached i)) = Some p \<longrightarrow> ipage (vnodes s (Cached j)) = Some p \<longrightarrow> i = j)"

text \<open>
  The list holds every slot once; of the slots with one key only the first can be in use; the pages
  are in order and the cache is unlocked.
\<close>

definition icache_inv :: "'a vfs_state_scheme \<Rightarrow> u64 list \<Rightarrow> bool" where
  "icache_inv s xs \<longleftrightarrow> kalloc_ready s xs \<and> ipages_ok s xs \<and> IcacheLock \<notin> set (held s) \<and>
     distinct (icache_order s) \<and> set (icache_order s) = {..<NINODES} \<and>
     (\<forall>i j. i < j \<longrightarrow> j < NINODES \<longrightarrow> ikey s i = ikey s j \<longrightarrow> icount s j = 0)"

lemma kalloc_state_vnode [simp]:
  "kalloc_ready (s\<lparr>vnodes := v\<rparr>) = kalloc_ready s" "kpage (s\<lparr>vnodes := v\<rparr>) = kpage s"
  "page_ref (s\<lparr>vnodes := v\<rparr>) = page_ref s"
  "kalloc_ready (s\<lparr>icache_order := q\<rparr>) = kalloc_ready s" "kpage (s\<lparr>icache_order := q\<rparr>) = kpage s"
  "page_ref (s\<lparr>icache_order := q\<rparr>) = page_ref s"
  "kpage (s\<lparr>held := h\<rparr>) = kpage s" "page_ref (s\<lparr>held := h\<rparr>) = page_ref s"
  by (auto simp: kalloc_ready_def kalloc_inv_def kpage_def page_ref_def fun_eq_iff)

lemma kalloc_ready_held: "MemLock \<notin> set h \<Longrightarrow> kalloc_ready s xs \<Longrightarrow> kalloc_ready (s\<lparr>held := h\<rparr>) xs"
  by (auto simp: kalloc_ready_def kalloc_inv_def kpage_def)

lemma ipages_ok_held [simp]: "ipages_ok (s\<lparr>held := h\<rparr>) = ipages_ok s"
  by (simp add: ipages_ok_def fun_eq_iff)

lemma find_SomeD: "find P xs = Some x \<Longrightarrow> x \<in> set xs \<and> P x"
  by (induction xs) (auto split: if_splits)

lemma kalloc_take_vfs [simp]:
  "vnodes (kalloc_take x s) = vnodes s" "icache_order (kalloc_take x s) = icache_order s"
  "vnodes (kfree_put x s) = vnodes s" "icache_order (kfree_put x s) = icache_order s"
  by (simp_all add: kalloc_take_def kfree_put_def)

lemma ipages_okD:
  assumes "ipages_ok s xs" "i < NINODES" "ipage (vnodes s (Cached i)) = Some p"
  shows "kpage s p" "p \<notin> set xs" "page_ref s p = 1"
    and "j < NINODES \<Longrightarrow> ipage (vnodes s (Cached j)) = Some p \<Longrightarrow> j = i"
  using assms unfolding ipages_ok_def by blast+

text \<open>Giving a slot the page at the head of the free list, and taking its page away.\<close>

lemma ipages_ok_take:
  assumes "kalloc_ready s (x # xs)" "ipages_ok s (x # xs)" "i < NINODES"
    "\<And>j. j < NINODES \<Longrightarrow> ipage (v (Cached j)) = (if j = i then Some x else ipage (vnodes s (Cached j)))"
  shows "ipages_ok (kalloc_take x s\<lparr>vnodes := v\<rparr>) xs"
proof -
  have k: "KERNEL_BASE_HIGH \<le> kernel_end s" "kpage s x" "x \<notin> set xs"
    using assms(1) ka.inv_distinct [OF assms(1)] ka.inv_page [OF assms(1)] by (auto simp: kalloc_ready_def dest: kalloc_invD(1))
  note D = ipages_okD [OF assms(2)]
  have f: "p = x \<or> kpage s p \<and> p \<noteq> x \<and> p \<notin> set xs \<and> page_ref s p = 1"
    if "j < NINODES" "ipage (v (Cached j)) = Some p" for j p
    using that assms(4) [of j] D(1-3) [of j p] by (auto split: if_splits)
  have "j = l" if "j < NINODES" "l < NINODES" "ipage (v (Cached j)) = Some p" "ipage (v (Cached l)) = Some p" for j l p
    using that assms(4) [of j] assms(4) [of l] D(2) [of j p] D(2) [of l p] D(4) [of l p j] by (auto split: if_splits)
  moreover have "kpage s p \<and> p \<notin> set xs \<and> page_ref (kalloc_take x s) p = 1" if "j < NINODES" "ipage (v (Cached j)) = Some p" for j p
    using f [OF that] k page_ref_take [OF k(1,2), of p] by auto
  ultimately show ?thesis unfolding ipages_ok_def by auto
qed

lemma ipages_ok_keep:
  assumes "ipages_ok s xs" "kpage s' = kpage s" "page_ref s' = page_ref s"
    "\<And>j p. j < NINODES \<Longrightarrow> ipage (vnodes s' (Cached j)) = Some p \<Longrightarrow> ipage (vnodes s (Cached j)) = Some p \<and> p \<notin> set ys - set xs"
  shows "ipages_ok s' ys"
  using assms(1,4) unfolding ipages_ok_def assms(2,3) by blast

lemma attach_page_ok:
  assumes "kalloc_ready s xs" "ipages_ok s xs" "i < NINODES"
  obtains s' ys pv ow where "attach_page i alloc s = Ok s'" "kalloc_ready s' ys" "ipages_ok s' ys"
    "held s' = held s" "icache_order s' = icache_order s"
    "vnodes s' = (vnodes s)(Cached i := (vnodes s (Cached i))\<lparr>vi_private := pv, vi_pd_owned := ow\<rparr>)"
proof (cases "vi_private (vnodes s (Cached i)) = 0 \<and> alloc")
  case False
  then show thesis
    by (intro that [where s' = s and ys = xs and pv = "vi_private (vnodes s (Cached i))" and ow = "vi_pd_owned (vnodes s (Cached i))"])
      (auto simp: attach_page_def assms)
next
  case True
  define v where "v p = (vnodes s)(Cached i := (vnodes s (Cached i))\<lparr>vi_private := p, vi_pd_owned := True\<rparr>)" for p
  show thesis
  proof (cases xs)
    case Nil
    have "ipages_ok (s\<lparr>vnodes := v 0\<rparr>) xs"
      by (rule ipages_ok_keep [OF assms(2)]) (auto simp: v_def ipage_def split: if_splits)
    then show thesis using True ka.alloc_empty [of s] assms(1) Nil
      by (intro that [of "s\<lparr>vnodes := v 0\<rparr>" xs True 0]) (auto simp: attach_page_def upd_vnode_def v_def)
  next
    case (Cons x ys)
    have i: "kalloc_inv s (x # ys)" "kpage s x" "MemLock \<notin> set (held s)"
      using assms(1) ka.inv_page [of s xs x] Cons by (auto simp: kalloc_ready_def)
    have "x \<noteq> 0" using i(2) kalloc_invD(1) [OF i(1)] by (auto simp: kpage_def)
    have "ipages_ok (kalloc_take x s\<lparr>vnodes := v x\<rparr>) ys"
      using assms(1,2) Cons \<open>x \<noteq> 0\<close> True by (intro ipages_ok_take [OF _ _ assms(3)]) (auto simp: v_def ipage_def)
    moreover have "kalloc_ready (kalloc_take x s) ys" using kalloc_take_inv [OF i(1)] i(3) by (simp add: kalloc_ready_def)
    ultimately show thesis using True kalloc_Cons [OF i(1,3)]
      by (intro that [of "kalloc_take x s\<lparr>vnodes := v x\<rparr>" ys True x]) (auto simp: attach_page_def upd_vnode_def v_def)
  qed
qed

lemma drop_page_ok:
  assumes "kalloc_ready s xs" "ipages_ok s xs" "i < NINODES"
  obtains s' ys where
    "(if vi_pd_owned (vnodes s (Cached i)) \<and> vi_private (vnodes s (Cached i)) \<noteq> 0 then kfree (vi_private (vnodes s (Cached i))) s else Ok s) = Ok s'"
    "kalloc_ready s' ys"
    "ipages_ok (upd_vnode (Cached i) (\<lambda>v. v\<lparr>vi_private := 0, vi_pd_owned := False\<rparr>) s') ys"
    "held s' = held s" "icache_order s' = icache_order s" "vnodes s' = vnodes s"
proof (cases "ipage (vnodes s (Cached i))")
  case None
  have "ipages_ok (upd_vnode (Cached i) (\<lambda>v. v\<lparr>vi_private := 0, vi_pd_owned := False\<rparr>) s) xs"
    by (rule ipages_ok_keep [OF assms(2)]) (auto simp: upd_vnode_def ipage_def split: if_splits)
  then show thesis using None assms(1) by (intro that [of s xs]) (auto simp: ipage_def split: if_splits)
next
  case (Some p)
  note D = ipages_okD [OF assms(2,3) Some]
  have i: "kalloc_inv s xs" "MemLock \<notin> set (held s)" using assms(1) by (auto simp: kalloc_ready_def)
  have "kfree p s = Ok (kfree_put p s)" using kfree_eq [OF kalloc_invD(1) [OF i(1)] D(1) i(2)] D(3) by simp
  moreover have "ipages_ok (upd_vnode (Cached i) (\<lambda>v. v\<lparr>vi_private := 0, vi_pd_owned := False\<rparr>) (kfree_put p s)) (p # xs)"
  proof (rule ipages_ok_keep [OF assms(2)], goal_cases)
    case (3 j q)
    then have "j \<noteq> i" "ipage (vnodes s (Cached j)) = Some q" by (auto simp: upd_vnode_def ipage_def split: if_splits)
    then show ?case using D(4) [of j] 3(1) by auto
  qed (simp_all add: upd_vnode_def page_ref_def fun_eq_iff)
  moreover have "kalloc_ready (kfree_put p s) (p # xs)" using kfree_put_inv [OF i(1) D(1,2)] i(2) by (simp add: kalloc_ready_def)
  ultimately show thesis using Some by (intro that [of "kfree_put p s" "p # xs"]) (auto simp: ipage_def split: if_splits)
qed

text \<open>What the two ways of finding a slot do with it.\<close>

definition slot_updated :: "nat \<Rightarrow> vfs_inode \<Rightarrow> 'a vfs_state_scheme \<Rightarrow> 'a vfs_state_scheme \<Rightarrow> u64 list \<Rightarrow> bool" where
  "slot_updated i v s s' ys \<longleftrightarrow> kalloc_ready s' ys \<and> ipages_ok s' ys \<and> held s' = held s \<and>
     icache_order s' = icache_order s \<and> vnodes s' = (vnodes s)(Cached i := v)"

lemma ipages_ok_upd:
  assumes "ipages_ok s xs" "ipage v = ipage (vnodes s (Cached i))"
  shows "ipages_ok (s\<lparr>vnodes := (vnodes s)(Cached i := v)\<rparr>) xs"
  using assms(2) by (intro ipages_ok_keep [OF assms(1)]) (auto split: if_splits)

lemma icache_hit_ok:
  assumes "kalloc_ready s xs" "ipages_ok s xs" "i < NINODES"
  shows "\<exists>s' ys v. icache_hit i alloc s = Ok s' \<and> slot_updated i v s s' ys \<and>
    vi_dev v = vi_dev (vnodes s (Cached i)) \<and> vi_ino v = vi_ino (vnodes s (Cached i)) \<and> vi_count v = icount s i + 1"
proof (cases "vi_count (vnodes s (Cached i)) > 0")
  case True
  then show ?thesis using assms(1) ipages_ok_upd [OF assms(2), of _ i]
    by (intro exI [of _ "upd_vnode (Cached i) (\<lambda>v. v\<lparr>vi_count := vi_count v + 1\<rparr>) s"] exI [of _ xs]
        exI [of _ "(vnodes s (Cached i))\<lparr>vi_count := icount s i + 1\<rparr>"])
      (simp add: icache_hit_def slot_updated_def upd_vnode_def icount_def ipage_def)
next
  case False
  define s1 where "s1 = upd_vnode (Cached i) (\<lambda>v. v\<lparr>vi_count := 1\<rparr>) s"
  have "kalloc_ready s1 xs" "ipages_ok s1 xs"
    using assms(1) ipages_ok_upd [OF assms(2), of _ i] by (simp_all add: s1_def upd_vnode_def ipage_def)
  from attach_page_ok [OF this assms(3), of alloc] obtain s' ys pv ow where
    a: "attach_page i alloc s1 = Ok s'" "kalloc_ready s' ys" "ipages_ok s' ys" "held s' = held s1" "icache_order s' = icache_order s1"
    "vnodes s' = (vnodes s1)(Cached i := (vnodes s1 (Cached i))\<lparr>vi_private := pv, vi_pd_owned := ow\<rparr>)" .
  have "icount s i = 0" using False by (simp add: icount_def word_gt_0)
  then show ?thesis using a False
    by (intro exI [of _ s'] exI [of _ ys] exI [of _ "(vnodes s (Cached i))\<lparr>vi_count := 1, vi_private := pv, vi_pd_owned := ow\<rparr>"])
      (simp add: icache_hit_def slot_updated_def s1_def upd_vnode_def)
qed

lemma icache_recycle_ok:
  assumes "kalloc_ready s xs" "ipages_ok s xs" "i < NINODES"
  shows "\<exists>s' ys v. icache_recycle i dev ino alloc s = Ok s' \<and> slot_updated i v s s' ys \<and>
    vi_dev v = dev \<and> vi_ino v = ino \<and> vi_count v = 1"
proof -
  have "\<exists>s1 zs pv ow. (if vi_dev (vnodes s (Cached i)) \<noteq> dev then
            bnd (if vi_pd_owned (vnodes s (Cached i)) \<and> vi_private (vnodes s (Cached i)) \<noteq> 0
                 then kfree (vi_private (vnodes s (Cached i))) s else Ok s) (\<lambda>s.
            Ok (upd_vnode (Cached i) (\<lambda>v. v\<lparr>vi_private := 0, vi_pd_owned := False\<rparr>) s))
          else Ok s) = Ok s1 \<and> slot_updated i ((vnodes s (Cached i))\<lparr>vi_private := pv, vi_pd_owned := ow\<rparr>) s s1 zs"
  proof (cases "vi_dev (vnodes s (Cached i)) = dev")
    case True
    then show ?thesis using assms
      by (intro exI [of _ s] exI [of _ xs] exI [of _ "vi_private (vnodes s (Cached i))"] exI [of _ "vi_pd_owned (vnodes s (Cached i))"])
        (simp add: slot_updated_def)
  next
    case False
    from drop_page_ok [OF assms] obtain s' ys where d:
      "(if vi_pd_owned (vnodes s (Cached i)) \<and> vi_private (vnodes s (Cached i)) \<noteq> 0 then kfree (vi_private (vnodes s (Cached i))) s else Ok s) = Ok s'"
      "kalloc_ready s' ys" "ipages_ok (upd_vnode (Cached i) (\<lambda>v. v\<lparr>vi_private := 0, vi_pd_owned := False\<rparr>) s') ys"
      "held s' = held s" "icache_order s' = icache_order s" "vnodes s' = vnodes s" .
    show ?thesis unfolding d(1) using False d(2-)
      by (intro exI [of _ "upd_vnode (Cached i) (\<lambda>v. v\<lparr>vi_private := 0, vi_pd_owned := False\<rparr>) s'"] exI [of _ ys] exI [of _ 0] exI [of _ False])
        (simp add: slot_updated_def upd_vnode_def)
  qed
  then obtain s1 zs pv ow where s1: "icache_recycle i dev ino alloc s =
      attach_page i alloc (upd_vnode (Cached i) (\<lambda>v. v\<lparr>vi_ino := ino, vi_count := 1, vi_dev := dev\<rparr>) s1)"
    "slot_updated i ((vnodes s (Cached i))\<lparr>vi_private := pv, vi_pd_owned := ow\<rparr>) s s1 zs"
    unfolding icache_recycle_def by auto
  define s2 where "s2 = upd_vnode (Cached i) (\<lambda>v. v\<lparr>vi_ino := ino, vi_count := 1, vi_dev := dev\<rparr>) s1"
  have "kalloc_ready s2 zs" "ipages_ok s2 zs"
    using s1(2) ipages_ok_upd [of s1 zs _ i] by (simp_all add: s2_def upd_vnode_def ipage_def slot_updated_def)
  from attach_page_ok [OF this assms(3), of alloc] obtain s' ys pv' ow' where
    a: "attach_page i alloc s2 = Ok s'" "kalloc_ready s' ys" "ipages_ok s' ys" "held s' = held s2" "icache_order s' = icache_order s2"
    "vnodes s' = (vnodes s2)(Cached i := (vnodes s2 (Cached i))\<lparr>vi_private := pv', vi_pd_owned := ow'\<rparr>)" .
  show ?thesis using a s1
    by (intro exI [of _ s'] exI [of _ ys] exI [of _ "(vnodes s2 (Cached i))\<lparr>vi_private := pv', vi_pd_owned := ow'\<rparr>"])
      (simp add: s2_def slot_updated_def upd_vnode_def)
qed

lemma icache_inv_locked:
  assumes "icache_inv s xs"
  shows "kalloc_ready (s\<lparr>held := IcacheLock # held s\<rparr>) xs" "ipages_ok (s\<lparr>held := IcacheLock # held s\<rparr>) xs"
  using assms kalloc_ready_held [of "IcacheLock # held s" s xs] by (simp_all add: icache_inv_def kalloc_ready_def)

text \<open>
  Leaving the critical section after the update of one slot: the invariant holds again if no other
  slot in use and no earlier slot has the key of the updated one.
\<close>

lemma icache_unlock:
  assumes "icache_inv s xs" "slot_updated i v (s\<lparr>held := IcacheLock # held s\<rparr>) t ys"
    "\<And>j. j < NINODES \<Longrightarrow> j \<noteq> i \<Longrightarrow> ikey s j = (vi_dev v, vi_ino v) \<Longrightarrow> i < j \<and> icount s j = 0"
  shows "\<exists>s'. release IcacheLock t = Ok s' \<and> icache_inv s' ys \<and> vnodes s' = (vnodes s)(Cached i := v) \<and> held s' = held s"
proof -
  note I = assms(1) [unfolded icache_inv_def] and U = assms(2) [unfolded slot_updated_def]
  define s' where "s' = t\<lparr>held := held s\<rparr>"
  have h: "held t = IcacheLock # held s" and v: "vnodes s' = (vnodes s)(Cached i := v)" and q: "icache_order s' = icache_order s"
    using U by (simp_all add: s'_def)
  have key: "ikey s' j = (if j = i then (vi_dev v, vi_ino v) else ikey s j)" "icount s' j = (if j = i then vi_count v else icount s j)" for j
    by (simp_all add: ikey_def icount_def v)
  have "icount s' b = 0" if "a < b" "b < NINODES" "ikey s' a = ikey s' b" for a b
    using that I assms(3) [of a] assms(3) [of b] unfolding key by (auto split: if_splits)
  moreover have "kalloc_ready s' ys" "ipages_ok s' ys"
    using U I kalloc_ready_held [of "held s" t ys] by (simp_all add: s'_def kalloc_ready_def)
  ultimately have "icache_inv s' ys" using I unfolding icache_inv_def q by (simp add: s'_def)
  moreover have "release IcacheLock t = Ok s'" using h by (simp add: release_def s'_def)
  ultimately show ?thesis using v by (auto simp: s'_def)
qed

text \<open>
  C10. \<open>get_inode\<close> always returns. It returns the slot of the inode, if there is one, with one more
  reference; otherwise a slot that nobody references, now holding the inode with one reference; and
  null only if the inode is in no slot and every slot is in use. No other slot changes, the cache stays
  consistent, and so the same inode is never held by two slots in use.
\<close>

theorem get_inode_correct:
  assumes "icache_inv s xs"
  shows "\<exists>r s' ys. get_inode dev ino alloc s = Ok (r, s') \<and> icache_inv s' ys \<and> held s' = held s \<and>
    (case r of
       None \<Rightarrow> s' = s \<and> (\<forall>i < NINODES. ikey s i \<noteq> (dev, ino) \<and> icount s i \<noteq> 0)
     | Some n \<Rightarrow> \<exists>i < NINODES. n = Cached i \<and> ikey s' i = (dev, ino) \<and>
         (if ikey s i = (dev, ino) then icount s' i = icount s i + 1
          else icount s i = 0 \<and> icount s' i = 1 \<and> (\<forall>j < NINODES. ikey s j \<noteq> (dev, ino))) \<and>
         (\<forall>m. m \<noteq> n \<longrightarrow> vnodes s' m = vnodes s m))"
proof -
  note I = assms [unfolded icache_inv_def]
  define t where "t = s\<lparr>held := IcacheLock # held s\<rparr>"
  note T = icache_inv_locked [OF assms, folded t_def]
  have acq: "acquire IcacheLock s = Ok t" using I by (simp add: t_def)
  have tv: "vnodes t = vnodes s" "icache_order t = icache_order s" by (simp_all add: t_def)
  define F where "F = find (\<lambda>i. vi_ino (vnodes s (Cached i)) = ino \<and> vi_dev (vnodes s (Cached i)) = dev) [0..<NINODES]"
  define G where "G = find (\<lambda>i. vi_count (vnodes s (Cached i)) = 0) (rev (icache_order s))"
  note eq = get_inode_def [of dev ino alloc s, unfolded acq bnd.simps tv, folded F_def G_def]
  consider (hit) i where "F = Some i" | (recycle) i where "F = None" "G = Some i" | (full) "F = None" "G = None"
    by (cases F; cases G) auto
  then show ?thesis
  proof cases
    case hit
    have i: "i < NINODES" "ikey s i = (dev, ino)" and first: "\<And>j. j < i \<Longrightarrow> ikey s j \<noteq> (dev, ino)"
      using hit unfolding F_def find_Some_iff by (auto simp: ikey_def simp del: upt_rec_numeral)
    from icache_hit_ok [OF T i(1), of alloc] obtain t' ys v where h:
      "icache_hit i alloc t = Ok t'" "slot_updated i v t t' ys"
      "vi_dev v = dev" "vi_ino v = ino" "vi_count v = icount s i + 1"
      using i(2) by (auto simp: tv ikey_def icount_def)
    have k: "i < j \<and> icount s j = 0" if "j < NINODES" "j \<noteq> i" "ikey s j = (vi_dev v, vi_ino v)" for j
      using that first [of j] I i unfolding h(3,4) by (metis linorder_neqE_nat)
    from icache_unlock [OF assms h(2) [unfolded t_def] k] obtain s' where
      s': "release IcacheLock t' = Ok s'" "icache_inv s' ys" "vnodes s' = (vnodes s)(Cached i := v)" "held s' = held s" by blast
    have "get_inode dev ino alloc s = Ok (Some (Cached i), s')" unfolding eq hit using h(1) s'(1) by simp
    then show ?thesis using s' h(3-5) i
      by (intro exI [of _ "Some (Cached i)"] exI [of _ s'] exI [of _ ys]) (simp add: ikey_def icount_def)
  next
    case recycle
    have i: "i < NINODES" "icount s i = 0"
      using find_SomeD [OF recycle(2) [unfolded G_def]] I by (auto simp: icount_def)
    have miss: "\<And>j. j < NINODES \<Longrightarrow> ikey s j \<noteq> (dev, ino)"
      using recycle(1) unfolding F_def find_None_iff by (auto simp: ikey_def simp del: upt_rec_numeral)
    from icache_recycle_ok [OF T i(1), of dev ino alloc] obtain t' ys v where h:
      "icache_recycle i dev ino alloc t = Ok t'" "slot_updated i v t t' ys" "vi_dev v = dev" "vi_ino v = ino" "vi_count v = 1" by blast
    have k: "i < j \<and> icount s j = 0" if "j < NINODES" "j \<noteq> i" "ikey s j = (vi_dev v, vi_ino v)" for j
      using that miss h(3,4) by auto
    from icache_unlock [OF assms h(2) [unfolded t_def] k] obtain s' where
      s': "release IcacheLock t' = Ok s'" "icache_inv s' ys" "vnodes s' = (vnodes s)(Cached i := v)" "held s' = held s" by blast
    have "get_inode dev ino alloc s = Ok (Some (Cached i), s')" unfolding eq recycle using h(1) s'(1) by simp
    then show ?thesis using s' h(3-5) i miss
      by (intro exI [of _ "Some (Cached i)"] exI [of _ s'] exI [of _ ys]) (simp add: ikey_def icount_def)
  next
    case full
    have "release IcacheLock t = Ok s" by (simp add: t_def release_def)
    then have "get_inode dev ino alloc s = Ok (None, s)" unfolding eq full by simp
    moreover have "\<forall>i < NINODES. ikey s i \<noteq> (dev, ino) \<and> icount s i \<noteq> 0"
      using full I unfolding F_def G_def find_None_iff by (auto simp: ikey_def icount_def simp del: upt_rec_numeral)
    ultimately show ?thesis using assms by (intro exI [of _ None] exI [of _ s] exI [of _ xs]) simp
  qed
qed

section \<open>Initialisation and release\<close>

lemma icache_init_inv:
  assumes "kalloc_ready s xs"
  shows "icache_inv (icache_init s) xs"
proof -
  define step where "step s i = initsleeplock i (upd_vnode (Cached i) (\<lambda>v. v\<lparr>vi_count := 0, vi_pd_owned := False, vi_lock := i\<rparr>)
         (s\<lparr>icache_order := i # icache_order s\<rparr>))" for s :: "'a vfs_state_scheme" and i
  define s0 where "s0 = initlock_held IcacheLock s\<lparr>icache_order := []\<rparr>"
  have "icache_order t = rev [0..<n] \<and> (\<forall>i < n. icount t i = 0 \<and> ipage (vnodes t (Cached i)) = None) \<and>
      kalloc_ready t xs \<and> IcacheLock \<notin> set (held t)" if "t = foldl step s0 [0..<n]" for n t
    using that
  proof (induction n arbitrary: t)
    case 0
    then show ?case using assms by (simp add: s0_def initlock_held_def kalloc_ready_def kalloc_inv_def kpage_def)
  next
    case (Suc n)
    define u where "u = foldl step s0 [0..<n]"
    note IH = Suc.IH [OF u_def]
    have "t = step u n" using Suc.prems by (simp add: u_def)
    moreover have "ipage (v\<lparr>vi_count := 0, vi_pd_owned := False, vi_lock := n\<rparr>) = None" for v by (simp add: ipage_def)
    ultimately show ?case using IH
      by (auto simp: step_def initsleeplock_def upd_sleeplock_def upd_vnode_def initlock_held_def icount_def
          kalloc_ready_def kalloc_inv_def kpage_def less_Suc_eq)
  qed
  from this [OF refl, of NINODES] show ?thesis
    unfolding icache_init_def icache_inv_def ipages_ok_def step_def [symmetric] s0_def [symmetric]
    by (auto simp del: upt_rec_numeral)
qed

lemma icache_inv_reorder:
  "icache_inv s xs \<Longrightarrow> distinct q \<Longrightarrow> set q = {..<NINODES} \<Longrightarrow> icache_inv (s\<lparr>icache_order := q\<rparr>) xs"
  by (simp add: icache_inv_def ipages_ok_def ikey_def icount_def)

text \<open>
  C11. \<open>put_inode\<close> of a slot in use drops exactly one reference of that slot, which keeps its inode, and
  keeps the cache consistent; the last reference of an inode without links moves the slot to the front
  of the list, and takes its page away. A slot that is not in use stays as it is.
\<close>

theorem put_inode_correct:
  assumes "icache_inv s xs" "i < NINODES"
    "free \<Longrightarrow> ipage (vnodes s (Cached i)) \<noteq> None"
  shows "if icount s i = 0 then put_inode i free s = Ok s else
    \<exists>s' ys. put_inode i free s = Ok s' \<and> icache_inv s' ys \<and> held s' = held s \<and> ikey s' i = ikey s i \<and>
      icount s' i = icount s i - 1 \<and> (\<forall>m. m \<noteq> Cached i \<longrightarrow> vnodes s' m = vnodes s m) \<and>
      (if icount s i = 1 \<and> vi_nlinks (vnodes s (Cached i)) = 0 then hd (icache_order s') = i \<and> vi_private (vnodes s' (Cached i)) = 0 else icache_order s' = icache_order s)"
proof -
  note I = assms(1) [unfolded icache_inv_def]
  define t where "t = s\<lparr>held := IcacheLock # held s\<rparr>"
  note T = icache_inv_locked [OF assms(1), folded t_def]
  have acq: "acquire IcacheLock s = Ok t" using I by (simp add: t_def)
  have tv: "vnodes t = vnodes s" "icache_order t = icache_order s" by (simp_all add: t_def)
  define gone where "gone \<longleftrightarrow> icount s i = 1 \<and> vi_nlinks (vnodes s (Cached i)) = 0"
  note eq = put_inode_def [of i free s, unfolded acq bnd.simps tv]
  have k: "i < j \<and> icount s j = 0" if "icount s i \<noteq> 0" "j < NINODES" "j \<noteq> i" "ikey s j = ikey s i" for j
    using that I assms(2) by (metis linorder_neqE_nat)
  consider (unused) "icount s i = 0" | (more) "icount s i \<noteq> 0" "\<not> gone" | (last) "icount s i \<noteq> 0" gone by blast
  then show ?thesis
  proof cases
    case unused
    then show ?thesis unfolding eq by (auto simp: icount_def t_def release_def)
  next
    case more
    define v where "v = (vnodes s (Cached i))\<lparr>vi_count := icount s i - 1\<rparr>"
    have u: "slot_updated i v t (upd_vnode (Cached i) (\<lambda>v. v\<lparr>vi_count := vi_count v - 1\<rparr>) t) xs"
      using T ipages_ok_upd [OF T(2), of v i] by (simp add: slot_updated_def upd_vnode_def v_def ipage_def icount_def tv)
    have "i < j \<and> icount s j = 0" if "j < NINODES" "j \<noteq> i" "ikey s j = (vi_dev v, vi_ino v)" for j
      using k [OF more(1) that(1,2)] that(3) by (simp add: v_def ikey_def)
    from icache_unlock [OF assms(1), folded t_def, OF u this] obtain s' where s':
      "release IcacheLock (upd_vnode (Cached i) (\<lambda>v. v\<lparr>vi_count := vi_count v - 1\<rparr>) t) = Ok s'"
      "icache_inv s' xs" "vnodes s' = (vnodes s)(Cached i := v)" "held s' = held s" by blast
    have "put_inode i free s = Ok s'" using more s'(1) unfolding eq by (auto simp: gone_def icount_def)
    moreover have "icache_order s' = icache_order s"
      using s'(1) by (auto simp: release_def upd_vnode_def tv split: if_splits)
    ultimately show ?thesis using more s' by (auto simp: v_def ikey_def icount_def gone_def)
  next
    case last
    define v where "v = (vnodes s (Cached i))\<lparr>vi_count := 0, vi_private := 0, vi_pd_owned := False\<rparr>"
    define t1 where "t1 = upd_vnode (Cached i) (\<lambda>v. v\<lparr>vi_count := 0\<rparr>) t"
    have t1: "kalloc_ready t1 xs" "ipages_ok t1 xs"
      using T ipages_ok_upd [OF T(2), of _ i] by (simp_all add: t1_def upd_vnode_def ipage_def)
    have "\<exists>t2 ys. (if free then kfree (vi_private (vnodes t1 (Cached i))) t1 else Ok t1) = Ok t2 \<and>
        slot_updated i v t (upd_vnode (Cached i) (\<lambda>v. v\<lparr>vi_private := 0, vi_pd_owned := False\<rparr>) t2) ys"
    proof (cases free)
      case True
      have "ipage (vnodes t1 (Cached i)) \<noteq> None" using assms(3) [OF True] by (simp add: t1_def upd_vnode_def ipage_def tv split: if_splits)
      then have owned: "vi_pd_owned (vnodes t1 (Cached i)) \<and> vi_private (vnodes t1 (Cached i)) \<noteq> 0"
        by (simp add: ipage_def split: if_splits)
      from drop_page_ok [OF t1 assms(2)] obtain t2 ys where d:
        "(if vi_pd_owned (vnodes t1 (Cached i)) \<and> vi_private (vnodes t1 (Cached i)) \<noteq> 0 then kfree (vi_private (vnodes t1 (Cached i))) t1 else Ok t1) = Ok t2"
        "kalloc_ready t2 ys" "ipages_ok (upd_vnode (Cached i) (\<lambda>v. v\<lparr>vi_private := 0, vi_pd_owned := False\<rparr>) t2) ys"
        "held t2 = held t1" "icache_order t2 = icache_order t1" "vnodes t2 = vnodes t1" .
      show ?thesis using d(2-) d(1) [unfolded if_P [OF owned]] True
        by (intro exI [of _ t2] exI [of _ ys]) (simp add: slot_updated_def upd_vnode_def t1_def v_def tv)
    next
      case False
      have "ipages_ok (upd_vnode (Cached i) (\<lambda>v. v\<lparr>vi_private := 0, vi_pd_owned := False\<rparr>) t1) xs"
        by (rule ipages_ok_keep [OF t1(2)]) (auto simp: upd_vnode_def ipage_def split: if_splits)
      then show ?thesis using False t1 by (auto simp: slot_updated_def upd_vnode_def t1_def v_def tv)
    qed
    then obtain t2 ys where t2: "(if free then kfree (vi_private (vnodes t1 (Cached i))) t1 else Ok t1) = Ok t2"
      "slot_updated i v t (upd_vnode (Cached i) (\<lambda>v. v\<lparr>vi_private := 0, vi_pd_owned := False\<rparr>) t2) ys" by blast
    have "i < j \<and> icount s j = 0" if "j < NINODES" "j \<noteq> i" "ikey s j = (vi_dev v, vi_ino v)" for j
      using k [OF last(1) that(1,2)] that(3) by (simp add: v_def ikey_def)
    from icache_unlock [OF assms(1), folded t_def, OF t2(2) this] obtain s' where s':
      "release IcacheLock (upd_vnode (Cached i) (\<lambda>v. v\<lparr>vi_private := 0, vi_pd_owned := False\<rparr>) t2) = Ok s'"
      "icache_inv s' ys" "vnodes s' = (vnodes s)(Cached i := v)" "held s' = held s" by blast
    define q where "q = i # removeAll i (icache_order s)"
    have q: "distinct q" "set q = {..<NINODES}" using I assms(2) by (auto simp: q_def distinct_removeAll)
    have o2: "icache_order (upd_vnode (Cached i) (\<lambda>v. v\<lparr>vi_private := 0, vi_pd_owned := False\<rparr>) t2) = icache_order s"
      using t2(2) by (simp add: slot_updated_def tv)
    have c: "vi_count (vnodes s (Cached i)) = 1 \<and> vi_nlinks (vnodes s (Cached i)) = 0" using last(2) by (simp add: gone_def icount_def)
    have "release IcacheLock (upd_vnode (Cached i) (\<lambda>v. v\<lparr>vi_private := 0, vi_pd_owned := False\<rparr>) t2\<lparr>icache_order := q\<rparr>) = Ok (s'\<lparr>icache_order := q\<rparr>)"
      using s'(1) by (auto simp: release_def split: if_splits)
    then have "put_inode i free s = Ok (s'\<lparr>icache_order := q\<rparr>)"
      unfolding eq Let_def if_P [OF c] t1_def [symmetric] t2(1) bnd.simps o2 by (simp add: q_def)
    then show ?thesis using last icache_inv_reorder [OF s'(2) q] s'(3,4)
      by (auto simp: v_def ikey_def icount_def q_def gone_def)
  qed
qed

section \<open>An instance\<close>

text \<open>A kernel with one free page and an initialised inode cache.\<close>

definition vfs_ex :: vfs_state where
  "vfs_ex = (let b = kfree_put boot_p boot in undefined\<lparr>mem := mem b, held := [], head_addr := head_addr b, kernel_end := kernel_end b,
     head_next := head_next b, FMM_size := FMM_size b, refcnt := refcnt b,
     vnodes := \<lambda>_. undefined\<lparr>vi_dev := 0, vi_ino := 0, vi_nlinks := 0, vi_private := 0\<rparr>\<rparr>)"

lemma vfs_ex_ready: "kalloc_ready vfs_ex [boot_p]"
  using boot_ready(4) by (simp add: vfs_ex_def kalloc_ready_def kalloc_inv_def kpage_def Let_def)

theorem get_inode_correct_witness:
  "\<exists>r s' ys. get_inode 1 7 True (icache_init vfs_ex) = Ok (r, s') \<and> icache_inv s' ys"
  using get_inode_correct [OF icache_init_inv [OF vfs_ex_ready], of 1 7 True] by blast

text \<open>The cache with one inode that has one reference and no links.\<close>

definition icache_ex :: vfs_state where
  "icache_ex = vfs_ex\<lparr>icache_order := [0..<NINODES], vnodes := \<lambda>n.
     undefined\<lparr>vi_dev := 1, vi_ino := 7, vi_nlinks := 0, vi_private := 0, vi_pd_owned := False, vi_count := if n = Cached 0 then 1 else 0\<rparr>\<rparr>"

lemma icache_ex_inv: "icache_inv icache_ex [boot_p]"
  using vfs_ex_ready by (auto simp: icache_inv_def icache_ex_def ipages_ok_def ipage_def ikey_def icount_def vfs_ex_def Let_def simp del: upt_rec_numeral)

theorem put_inode_correct_witness:
  "\<exists>s' ys. put_inode 0 False icache_ex = Ok s' \<and> icache_inv s' ys \<and> icount icache_ex 0 = 1 \<and> icount s' 0 = 0"
proof -
  have "icount icache_ex 0 = 1" by (simp add: icache_ex_def icount_def)
  then show ?thesis using put_inode_correct [OF icache_ex_inv, of 0 False] by auto
qed

end
