(* ===== verification/Devtmpfs.thy ===== *)
theory Devtmpfs
  imports Vfs
begin

text \<open>
  The device file system, \<open>kernel/fs/devtmpfs/devtmpfs.c\<close>: a directory and up to eight device nodes in
  static storage. It is one concrete entry of the tables of operations that the virtual file system
  calls through; the node that an operation gets is never null. The names are compared with \<open>strcmp\<close>, which decides equality of strings.
\<close>

abbreviation DEVTMPFS_MAX_NODES :: nat where "DEVTMPFS_MAX_NODES \<equiv> 8"
abbreviation T_DIR :: int where "T_DIR \<equiv> 1"
abbreviation T_DEVICE :: int where "T_DEVICE \<equiv> 3"

text \<open>
  The indices that stand for the addresses of \<open>devtmpfs_ops\<close>, of \<open>devtmpfs_sb\<close> and of \<open>tty_ops\<close>, and for
  the sleep locks of the directory and of the nodes.
\<close>

abbreviation devtmpfs_ops_ix :: nat where "devtmpfs_ops_ix \<equiv> 1"
abbreviation devtmpfs_sb_ix :: nat where "devtmpfs_sb_ix \<equiv> 1"
abbreviation tty_ops_ix :: nat where "tty_ops_ix \<equiv> 1"
abbreviation dev_lock :: "nat \<Rightarrow> nat" where "dev_lock i \<equiv> 100 + i"

definition zero_inode :: "nat \<Rightarrow> vfs_inode" where
  "zero_inode l = \<lparr>vi_name = '''', vi_dev = 0, vi_ino = 0, vi_count = 0, vi_nlinks = 0, vi_sb = None, vi_lock = l,
     vi_ops = None, vi_f_ops = None, vi_type = 0, vi_size = 0, vi_private = 0, vi_pd_owned = False\<rparr>"

definition devtmpfs_destroy_inode :: "vnode \<Rightarrow> 'a vfs_state_scheme \<Rightarrow> 'a vfs_state_scheme outcome" where
  "devtmpfs_destroy_inode node s = Ok s"

definition find_dev :: "string \<Rightarrow> 'a vfs_state_scheme \<Rightarrow> nat option" where
  "find_dev name s = find (\<lambda>i. vi_name (vnodes s (DevNode i)) = name) [0..<dev_node_count s]"

definition devtmpfs_register ::
  "string option \<Rightarrow> int \<Rightarrow> nat option \<Rightarrow> 'a vfs_state_scheme \<Rightarrow> vnode option \<times> 'a vfs_state_scheme" where
  "devtmpfs_register name type fops s =
     (case name of
        None \<Rightarrow> (None, s)
      | Some name \<Rightarrow>
          if dev_node_count s \<ge> DEVTMPFS_MAX_NODES then (None, s)
          else
            (case find_dev name s of
               Some i \<Rightarrow> (Some (DevNode i), s)
             | None \<Rightarrow>
                 let i = dev_node_count s;
                     s = s\<lparr>dev_node_count := i + 1\<rparr>;
                     s = upd_vnode (DevNode i) (\<lambda>_. (zero_inode (dev_lock i))\<lparr>vi_name := take 15 name, vi_count := 1, vi_nlinks := 1,
                           vi_type := type, vi_sb := Some devtmpfs_sb_ix, vi_ops := Some devtmpfs_ops_ix, vi_f_ops := fops\<rparr>) s
                 in (Some (DevNode i), initsleeplock (dev_lock i) s)))"

definition devtmpfs_lookup :: "vnode \<Rightarrow> string \<Rightarrow> 'a vfs_state_scheme \<Rightarrow> (vnode option \<times> 'a vfs_state_scheme) outcome" where
  "devtmpfs_lookup dir name s = Ok (if dir = DevRoot then map_option DevNode (find_dev name s) else None, s)"

definition devtmpfs_stat :: "vnode \<Rightarrow> 'a vfs_state_scheme \<Rightarrow> (int \<times> kstat \<times> 'a vfs_state_scheme) outcome" where
  "devtmpfs_stat node s =
     Ok (0, \<lparr>st_addr = 0, st_type = (if vi_type (vnodes s node) = VFS_DIR then T_DIR else T_DEVICE),
       st_nlink = sint (vi_nlinks (vnodes s node)), st_size = vi_size (vnodes s node)\<rparr>, s)"

definition devtmpfs_ops :: "'a vfs_state_scheme vfs_inode_ops" where
  "devtmpfs_ops = \<lparr>op_lookup = Some devtmpfs_lookup, op_create = None, op_unlink = None, op_mkdir = None,
     op_stat = Some devtmpfs_stat, op_truncate = None\<rparr>"

definition devtmpfs_init :: "'a vfs_state_scheme \<Rightarrow> 'a vfs_state_scheme" where
  "devtmpfs_init s =
     (let s = s\<lparr>dev_node_count := 0\<rparr>;
          s = foldl (\<lambda>s i. upd_vnode (DevNode i) (\<lambda>_. zero_inode (dev_lock i)) s) s [0..<DEVTMPFS_MAX_NODES];
          s = upd_vnode DevRoot (\<lambda>_. (zero_inode (dev_lock 8))\<lparr>vi_name := ''dev'', vi_count := 1, vi_nlinks := 1, vi_type := VFS_DIR,
                vi_sb := Some devtmpfs_sb_ix, vi_ops := Some devtmpfs_ops_ix\<rparr>) s;
          s = initsleeplock (dev_lock 8) s
      in snd (devtmpfs_register (Some ''tty'') VFS_DEV (Some tty_ops_ix) s))"

definition devtmpfs_root :: vnode where
  "devtmpfs_root = DevRoot"

section \<open>Correctness\<close>

text \<open>A node that was never registered has the empty name and no operations; \<open>dev_ok\<close> holds from \<open>devtmpfs_init\<close> on.\<close>

definition dev_ok :: "'a vfs_state_scheme \<Rightarrow> bool" where
  "dev_ok s \<longleftrightarrow> dev_node_count s \<le> DEVTMPFS_MAX_NODES \<and>
     vi_type (vnodes s DevRoot) = VFS_DIR \<and> vi_ops (vnodes s DevRoot) = Some devtmpfs_ops_ix \<and>
     (\<forall>i < dev_node_count s. \<forall>j < i. vi_name (vnodes s (DevNode i)) \<noteq> vi_name (vnodes s (DevNode j)))"

lemma find_dev_new:
  assumes "find_dev name s = None" "dev_node_count s' = dev_node_count s + 1" "vi_name (vnodes s' (DevNode (dev_node_count s))) = nm"
    "\<And>i. i < dev_node_count s \<Longrightarrow> vnodes s' (DevNode i) = vnodes s (DevNode i)"
  shows "find_dev nm s = None \<Longrightarrow> find_dev n s' = (if n = nm then Some (dev_node_count s) else find_dev n s)"
proof -
  assume f: "find_dev nm s = None"
  have "find_dev n s' = (case find_dev n s of Some i \<Rightarrow> Some i | None \<Rightarrow> if nm = n then Some (dev_node_count s) else None)"
  proof -
    have e: "find P (xs @ [x]) = (case find P xs of Some i \<Rightarrow> Some i | None \<Rightarrow> if P x then Some x else None)" for P and x :: nat and xs
      by (induction xs) auto
    have "find (\<lambda>i. vi_name (vnodes s' (DevNode i)) = n) [0..<dev_node_count s] = find (\<lambda>i. vi_name (vnodes s (DevNode i)) = n) [0..<dev_node_count s]"
      by (rule find_cong) (auto simp: assms(4))
    then show ?thesis by (simp add: find_dev_def assms(2,3) e)
  qed
  then show ?thesis using f by (auto split: option.splits)
qed


lemma foldl_upd_vnode [simp]:
  "dev_node_count (foldl (\<lambda>s i. upd_vnode (f i) (g i) s) s xs) = dev_node_count s"
  "mounts (foldl (\<lambda>s i. upd_vnode (f i) (g i) s) s xs) = mounts s"
  by (induction xs arbitrary: s) (simp_all add: upd_vnode_def)

lemma upd_vnode_simps [simp]:
  "dev_node_count (upd_vnode n f s) = dev_node_count s" "mounts (upd_vnode n f s) = mounts s"
  "vnodes (upd_vnode n f s) = (vnodes s)(n := f (vnodes s n))"
  by (simp_all add: upd_vnode_def)

lemma initsleeplock_simps [simp]:
  "dev_node_count (initsleeplock l s) = dev_node_count s" "mounts (initsleeplock l s) = mounts s" "vnodes (initsleeplock l s) = vnodes s"
  by (simp_all add: initsleeplock_def upd_sleeplock_def initlock_held_def)

lemma devtmpfs_init_ok:
  "dev_ok (devtmpfs_init s)" "dev_node_count (devtmpfs_init s) = 1" "mounts (devtmpfs_init s) = mounts s"
  by (simp_all add: devtmpfs_init_def devtmpfs_register_def find_dev_def dev_ok_def Let_def del: upt_rec_numeral)

definition dev_ex :: vfs_state where
  "dev_ex = devtmpfs_init (undefined\<lparr>mounts := \<lambda>_. \<lparr>mnt_name = '''', mnt_root = None, mnt_parent = None\<rparr>\<rparr>)"

definition dev_tables :: "vfs_state vfs_tables" where
  "dev_tables = \<lparr>inode_tab = \<lambda>_. devtmpfs_ops, file_tab = undefined, destroy_tab = \<lambda>_. Some devtmpfs_destroy_inode\<rparr>"


end
