(* ===== verification/File.thy ===== *)
theory File
  imports Vfs
begin

text \<open>
  Open files and pipes: \<open>kernel/core/file.c\<close>, \<open>kernel/core/pipe.c\<close> and the descriptor functions of
  \<open>kernel/core/proc.c\<close>. A \<open>struct pipe\<close> is named by the address that \<open>kmalloc\<close> returned for it. A
  variable on the kernel stack whose address is passed to \<open>copyin\<close> or \<open>copyout\<close> is a parameter of
  the function: the address where it lies. A function that may sleep is split at the sleep, as in
  theory \<open>Sched\<close>.
\<close>

unbundle bit_operations_syntax

section \<open>State\<close>

abbreviation KERNEL_MAX_FILES :: nat where "KERNEL_MAX_FILES \<equiv> 128"
abbreviation PROCESS_MAX_OPEN_FILES :: nat where "PROCESS_MAX_OPEN_FILES \<equiv> 128"
abbreviation PIPE_BUF_SIZE :: nat where "PIPE_BUF_SIZE \<equiv> 512"
abbreviation PIPE_SIZE :: u64 where "PIPE_SIZE \<equiv> 552"
abbreviation LINUX_STAT_SIZE :: int where "LINUX_STAT_SIZE \<equiv> 128"
abbreviation O_ACCMODE :: int where "O_ACCMODE \<equiv> 0x003"
abbreviation O_RDONLY :: int where "O_RDONLY \<equiv> 0x000"
abbreviation O_WRONLY :: int where "O_WRONLY \<equiv> 0x001"
abbreviation O_RDWR :: int where "O_RDWR \<equiv> 0x002"
abbreviation O_CREAT :: int where "O_CREAT \<equiv> 0x040"
abbreviation O_TRUNC :: int where "O_TRUNC \<equiv> 0x200"
abbreviation O_APPEND :: int where "O_APPEND \<equiv> 0x400"
abbreviation AT_FDCWD :: int where "AT_FDCWD \<equiv> - 100"

record pipe =
  pbuf :: "nat \<Rightarrow> u8"
  nread :: u32
  nwrite :: u32
  pipe_readable :: bool
  pipe_writable :: bool

record file_state = vfs_state +
  ftable :: "nat \<Rightarrow> kfile"
  pipes :: "u64 \<Rightarrow> pipe"

definition upd_file :: "nat \<Rightarrow> (kfile \<Rightarrow> kfile) \<Rightarrow> 'a file_state_scheme \<Rightarrow> 'a file_state_scheme" where
  "upd_file i f s = s\<lparr>ftable := (ftable s)(i := f (ftable s i))\<rparr>"

definition upd_pipe :: "u64 \<Rightarrow> (pipe \<Rightarrow> pipe) \<Rightarrow> 'a file_state_scheme \<Rightarrow> 'a file_state_scheme" where
  "upd_pipe pi f s = s\<lparr>pipes := (pipes s)(pi := f (pipes s pi))\<rparr>"

text \<open>
  An operation of the kernel core (memory and processes), run inside a larger state: it cannot touch
  what the larger state adds.
\<close>

definition in_kern :: "(kern \<Rightarrow> ('r \<times> kern) outcome) \<Rightarrow> 'a kern_scheme \<Rightarrow> ('r \<times> 'a kern_scheme) outcome" where
  "in_kern f s = bnd (f (kern.truncate s)) (\<lambda>(r, t). Ok (r, kern.extend t (kern.more s)))"

section \<open>Descriptors\<close>

definition fd_alloc :: "'a file_state_scheme \<Rightarrow> int" where
  "fd_alloc s = (case find (\<lambda>i. ref_count (ftable s i) = 0) [0..<KERNEL_MAX_FILES] of Some i \<Rightarrow> int i | None \<Rightarrow> - 1)"

definition alloc_fd :: "nat \<Rightarrow> nat \<Rightarrow> 'a file_state_scheme \<Rightarrow> (int \<times> 'a file_state_scheme) outcome" where
  "alloc_fd p f s =
     bnd (acquire (ProcLock p) s) (\<lambda>s.
     case find (\<lambda>i. ofile (proc s p) i = None) [0..<PROCESS_MAX_OPEN_FILES] of
       Some i \<Rightarrow>
         let s = upd_proc p (\<lambda>q. q\<lparr>ofile := (ofile q)(i := Some f)\<rparr>) s
         in bnd (release (ProcLock p) s) (\<lambda>s. Ok (int i, s))
     | None \<Rightarrow> bnd (release (ProcLock p) s) (\<lambda>s. Ok (- 1, s)))"

section \<open>Pipes\<close>

definition pipe_close :: "u64 \<Rightarrow> bool \<Rightarrow> 'a file_state_scheme \<Rightarrow> 'a file_state_scheme outcome" where
  "pipe_close pi writable s =
     bnd (acquire (PipeLock pi) s) (\<lambda>s.
     bnd (if writable then wakeup (PipeRead pi) (upd_pipe pi (\<lambda>p. p\<lparr>pipe_writable := False\<rparr>) s)
          else wakeup (PipeWrite pi) (upd_pipe pi (\<lambda>p. p\<lparr>pipe_readable := False\<rparr>) s)) (\<lambda>s.
     if \<not> pipe_readable (pipes s pi) \<and> \<not> pipe_writable (pipes s pi) then bnd (release (PipeLock pi) s) (kmfree pi)
     else release (PipeLock pi) s))"

text \<open>
  The loop of \<open>pipe_read\<close> with the pipe lock held: \<open>n\<close> is \<open>size - i\<close>, \<open>ch\<close> the address of the
  character on the stack.
\<close>

fun read_bytes ::
  "kern read_at \<Rightarrow> u64 \<Rightarrow> u64 \<Rightarrow> u64 \<Rightarrow> nat \<Rightarrow> nat \<Rightarrow> 'a file_state_scheme \<Rightarrow> (int \<times> 'a file_state_scheme) outcome" where
  "read_bytes rd ch pi buffer 0 i s = Ok (int i, s)"
| "read_bytes rd ch pi buffer (Suc n) i s =
     (if nread (pipes s pi) = nwrite (pipes s pi) then Ok (int i, s)
      else
        let c = pbuf (pipes s pi) (unat (nread (pipes s pi)) mod PIPE_BUF_SIZE);
            s = s\<lparr>mem := (mem s)(ch := c)\<rparr>
        in bnd (in_kern (copyout rd (pagetable (get_proc s)) (buffer + of_nat i) ch 1) s) (\<lambda>(r, s).
           if r < 0 then Ok (if i = 0 then - EFAULT else int i, s)
           else read_bytes rd ch pi buffer n (i + 1) (upd_pipe pi (\<lambda>p. p\<lparr>nread := nread p + 1\<rparr>) s)))"

definition pipe_read_locked ::
  "kern read_at \<Rightarrow> u64 \<Rightarrow> u64 \<Rightarrow> u64 \<Rightarrow> u32 \<Rightarrow> 'a file_state_scheme \<Rightarrow> (int blocking \<times> 'a file_state_scheme) outcome" where
  "pipe_read_locked rd ch pi buffer sz s =
     (if nread (pipes s pi) = nwrite (pipes s pi) \<and> pipe_writable (pipes s pi) then
        bnd (sleep_begin (PipeRead pi) (PipeLock pi) s) (\<lambda>s. Ok (Sleeping, s))
      else
        bnd (read_bytes rd ch pi buffer (unat sz) 0 s) (\<lambda>(i, s).
        bnd (wakeup (PipeWrite pi) s) (\<lambda>s.
        bnd (release (PipeLock pi) s) (\<lambda>s. Ok (Done i, s)))))"

definition pipe_read ::
  "kern read_at \<Rightarrow> u64 \<Rightarrow> u64 \<Rightarrow> u64 \<Rightarrow> u32 \<Rightarrow> 'a file_state_scheme \<Rightarrow> (int blocking \<times> 'a file_state_scheme) outcome" where
  "pipe_read rd ch pi buffer sz s =
     (if sz = 0 then Ok (Done 0, s) else bnd (acquire (PipeLock pi) s) (pipe_read_locked rd ch pi buffer sz))"

definition pipe_read_resume ::
  "kern read_at \<Rightarrow> u64 \<Rightarrow> u64 \<Rightarrow> u64 \<Rightarrow> u32 \<Rightarrow> 'a file_state_scheme \<Rightarrow> (int blocking \<times> 'a file_state_scheme) outcome" where
  "pipe_read_resume rd ch pi buffer sz s = bnd (sleep_end (PipeLock pi) s) (pipe_read_locked rd ch pi buffer sz)"

text \<open>
  The loop of \<open>pipe_write\<close> with the pipe lock held: \<open>n\<close> is \<open>size - i\<close>. The result carries \<open>i\<close>, where
  a writer that sleeps goes on.
\<close>

definition pipe_write_end :: "u64 \<Rightarrow> int \<Rightarrow> nat \<Rightarrow> 'a file_state_scheme \<Rightarrow> (int blocking \<times> nat \<times> 'a file_state_scheme) outcome" where
  "pipe_write_end pi r i s =
     bnd (wakeup (PipeRead pi) s) (\<lambda>s. bnd (release (PipeLock pi) s) (\<lambda>s. Ok (Done r, i, s)))"

fun write_bytes ::
  "kern read_at \<Rightarrow> u64 \<Rightarrow> u64 \<Rightarrow> u64 \<Rightarrow> nat \<Rightarrow> nat \<Rightarrow> 'a file_state_scheme \<Rightarrow>
    (int blocking \<times> nat \<times> 'a file_state_scheme) outcome" where
  "write_bytes rd ch pi buffer 0 i s = pipe_write_end pi (int i) i s"
| "write_bytes rd ch pi buffer (Suc n) i s =
     (if \<not> pipe_readable (pipes s pi) then
        bnd (release (PipeLock pi) s) (\<lambda>s. Ok (Done (if i > 0 then int i else - EPIPE), i, s))
      else if nwrite (pipes s pi) - nread (pipes s pi) \<ge> 512 then
        bnd (wakeup (PipeRead pi) s) (\<lambda>s.
        bnd (sleep_begin (PipeWrite pi) (PipeLock pi) s) (\<lambda>s. Ok (Sleeping, i, s)))
      else
        bnd (in_kern (copyin rd (pagetable (get_proc s)) ch (buffer + of_nat i) 1) s) (\<lambda>(r, s).
        if r < 0 then pipe_write_end pi (if i = 0 then - EFAULT else int i) i s
        else
          let s = upd_pipe pi (\<lambda>p. p\<lparr>pbuf := (pbuf p)(unat (nwrite p) mod PIPE_BUF_SIZE := mem s ch), nwrite := nwrite p + 1\<rparr>) s
          in write_bytes rd ch pi buffer n (i + 1) s))"

definition pipe_write ::
  "kern read_at \<Rightarrow> u64 \<Rightarrow> u64 \<Rightarrow> u64 \<Rightarrow> u32 \<Rightarrow> 'a file_state_scheme \<Rightarrow>
    (int blocking \<times> nat \<times> 'a file_state_scheme) outcome" where
  "pipe_write rd ch pi buffer sz s = bnd (acquire (PipeLock pi) s) (write_bytes rd ch pi buffer (unat sz) 0)"

definition pipe_write_resume ::
  "kern read_at \<Rightarrow> u64 \<Rightarrow> u64 \<Rightarrow> u64 \<Rightarrow> u32 \<Rightarrow> nat \<Rightarrow> 'a file_state_scheme \<Rightarrow>
    (int blocking \<times> nat \<times> 'a file_state_scheme) outcome" where
  "pipe_write_resume rd ch pi buffer sz i s =
     bnd (sleep_end (PipeLock pi) s) (write_bytes rd ch pi buffer (unat sz - i) i)"

section \<open>The file table\<close>

definition fileclose :: "'a file_state_scheme vfs_tables \<Rightarrow> nat \<Rightarrow> 'a file_state_scheme \<Rightarrow> 'a file_state_scheme outcome" where
  "fileclose ops f s =
     bnd (acquire FtableLock s) (\<lambda>s.
     if ref_count (ftable s f) < 1 then Panic ''fileclose''
     else
       let s = upd_file f (\<lambda>k. k\<lparr>ref_count := ref_count k - 1\<rparr>) s in
       if ref_count (ftable s f) > 0 then release FtableLock s
       else
         let type = f_type (ftable s f); pi = f_pipe (ftable s f); node = f_node (ftable s f); writable = f_writable (ftable s f);
             s = upd_file f (\<lambda>k. k\<lparr>f_type := FILE_NONE, f_readable := False, f_writable := False, f_offset := 0, f_ops := None,
                   f_node := None, f_pipe := 0\<rparr>) s
         in bnd (release FtableLock s) (\<lambda>s.
            case type of
              FILE_PIPE \<Rightarrow> if pi \<noteq> 0 then pipe_close pi writable s else Ok s
            | FILE_VFS_NODE \<Rightarrow> if node \<noteq> None then vfs_iput ops node s else Ok s
            | FILE_NONE \<Rightarrow> Ok s))"

definition filedup :: "nat \<Rightarrow> 'a file_state_scheme \<Rightarrow> 'a file_state_scheme outcome" where
  "filedup f s =
     bnd (acquire FtableLock s) (\<lambda>s.
     if ref_count (ftable s f) < 1 then Panic ''filedup''
     else release FtableLock (upd_file f (\<lambda>k. k\<lparr>ref_count := ref_count k + 1\<rparr>) s))"

definition filealloc :: "'a file_state_scheme \<Rightarrow> (nat option \<times> 'a file_state_scheme) outcome" where
  "filealloc s =
     for_each (\<lambda>i s.
       bnd (acquire FtableLock s) (\<lambda>s.
       if ref_count (ftable s i) = 0 then
         let s = upd_file i (\<lambda>k. k\<lparr>ref_count := ref_count k + 1\<rparr>) s
         in bnd (release FtableLock s) (\<lambda>s. Ok (Some i, s))
       else bnd (release FtableLock s) (\<lambda>s. Ok (None, s)))) [0..<KERNEL_MAX_FILES] s"

definition close_opt :: "'a file_state_scheme vfs_tables \<Rightarrow> nat option \<Rightarrow> 'a file_state_scheme \<Rightarrow> 'a file_state_scheme outcome" where
  "close_opt ops f s = (case f of None \<Rightarrow> Ok s | Some f \<Rightarrow> fileclose ops f s)"

definition pipe_alloc ::
  "'a file_state_scheme call \<Rightarrow> 'a file_state_scheme vfs_tables \<Rightarrow> 'a file_state_scheme \<Rightarrow>
    (int \<times> nat option \<times> nat option \<times> 'a file_state_scheme) outcome" where
  "pipe_alloc call ops s =
     bnd (filealloc s) (\<lambda>(rf, s).
     bnd (filealloc s) (\<lambda>(wf, s).
     let fail = (\<lambda>ret s. bnd (close_opt ops rf s) (\<lambda>s. bnd (close_opt ops wf s) (\<lambda>s. Ok (ret, rf, wf, s)))) in
     case (rf, wf) of
       (Some r, Some w) \<Rightarrow>
         bnd (kmalloc call PIPE_SIZE s) (\<lambda>(pi, s).
         if pi = 0 then fail (- ENOMEM) s
         else
           let s = upd_pipe pi (\<lambda>p. p\<lparr>pipe_readable := True, pipe_writable := True, nread := 0, nwrite := 0\<rparr>) s;
               s = initlock_held (PipeLock pi) s;
               s = upd_file r (\<lambda>k. k\<lparr>f_pipe := pi, f_type := FILE_PIPE, f_readable := True, f_writable := False\<rparr>) s;
               s = upd_file w (\<lambda>k. k\<lparr>f_pipe := pi, f_type := FILE_PIPE, f_writable := True, f_readable := False\<rparr>) s
           in Ok (0, rf, wf, s))
     | _ \<Rightarrow> fail (- ENFILE) s))"

section \<open>Opening\<close>

definition open_flags_valid :: "int \<Rightarrow> int" where
  "open_flags_valid flags =
     (let mode = flags AND O_ACCMODE in
      if mode \<noteq> O_RDONLY \<and> mode \<noteq> O_WRONLY \<and> mode \<noteq> O_RDWR then - EINVAL
      else if flags AND O_TRUNC \<noteq> 0 \<and> mode = O_RDONLY then - EINVAL
      else 0)"

text \<open>The start of the lookup and the path, or an error. The start is null as long as there is no root.\<close>

definition resolve_open_path :: "int \<Rightarrow> string \<Rightarrow> 'a file_state_scheme \<Rightarrow> int + vnode option \<times> string" where
  "resolve_open_path dirfd path s =
     (if hd path = slash then Inr (vfs_root s, take (PATH_MAX - 1) path)
      else if dirfd = AT_FDCWD then Inr (vfs_root s, vfs_make_absolute_path s path)
      else if dirfd < 0 \<or> dirfd \<ge> int PROCESS_MAX_OPEN_FILES then Inl (- EBADF)
      else case ofile (get_proc s) (nat dirfd) of
        None \<Rightarrow> Inl (- EBADF)
      | Some f \<Rightarrow>
          (case f_node (ftable s f) of
             None \<Rightarrow> Inl (- ENOTDIR)
           | Some n \<Rightarrow>
               if vi_type (vnodes s n) \<noteq> VFS_DIR then Inl (- ENOTDIR)
               else Inr (Some n, take (PATH_MAX - 1) path)))"

text \<open>\<open>openat\<close> from the allocation of the file on.\<close>

definition openat_install ::
  "'a file_state_scheme vfs_tables \<Rightarrow> vnode \<Rightarrow> int \<Rightarrow> 'a file_state_scheme \<Rightarrow> (int blocking \<times> 'a file_state_scheme) outcome" where
  "openat_install ops node flags s =
     (let mode = flags AND O_ACCMODE in
      bnd (acquire FtableLock s) (\<lambda>s.
      let file_id = fd_alloc s in
      if file_id = - 1 then
        bnd (release FtableLock s) (\<lambda>s. bnd (vfs_iput ops (Some node) s) (\<lambda>s. Ok (Done (- ENFILE), s)))
      else
        let f = nat file_id;
            s = upd_file f (\<lambda>k. k\<lparr>f_append := (flags AND O_APPEND \<noteq> 0), f_type := FILE_VFS_NODE, f_node := Some node,
                  f_offset := 0, ref_count := 1\<rparr>) s
        in bnd (release FtableLock s) (\<lambda>s.
           let s = (if mode = O_RDONLY then upd_file f (\<lambda>k. k\<lparr>f_readable := True, f_writable := False\<rparr>) s
                    else if mode = O_WRONLY then upd_file f (\<lambda>k. k\<lparr>f_readable := False, f_writable := True\<rparr>) s
                    else if mode = O_RDWR then upd_file f (\<lambda>k. k\<lparr>f_readable := True, f_writable := True\<rparr>) s
                    else s)
           in bnd (alloc_fd (cur_proc s) f s) (\<lambda>(fd, s).
              if fd < 0 then bnd (fileclose ops f s) (\<lambda>s. Ok (Done (- EMFILE), s))
              else Ok (Done fd, s)))))"

text \<open>\<open>openat\<close> from the point where it holds the lock of the inode that it truncates.\<close>

definition openat_truncate ::
  "'a file_state_scheme vfs_tables \<Rightarrow> (vnode \<Rightarrow> u64 \<Rightarrow> 'a file_state_scheme \<Rightarrow> (int \<times> 'a file_state_scheme) outcome) \<Rightarrow>
    vnode \<Rightarrow> int \<Rightarrow> unit blocking \<times> 'a file_state_scheme \<Rightarrow> (int blocking \<times> 'a file_state_scheme) outcome" where
  "openat_truncate ops trunc node flags = (\<lambda>(b, s).
     case b of
       Sleeping \<Rightarrow> Ok (Sleeping, s)
     | Done _ \<Rightarrow>
         bnd (trunc node 0 s) (\<lambda>(ret, s).
         bnd (vfs_iunlock (Some node) s) (\<lambda>s.
         if ret < 0 then bnd (vfs_iput ops (Some node) s) (\<lambda>s. Ok (Done (if ret = - 1 then - EIO else ret), s))
         else openat_install ops node flags s)))"

definition openat_node ::
  "'a file_state_scheme vfs_tables \<Rightarrow> vnode \<Rightarrow> int \<Rightarrow> 'a file_state_scheme \<Rightarrow> (int blocking \<times> 'a file_state_scheme) outcome" where
  "openat_node ops node flags s =
     (if vi_type (vnodes s node) = VFS_DIR \<and> flags AND O_ACCMODE \<noteq> O_RDONLY then
        bnd (vfs_iput ops (Some node) s) (\<lambda>s. Ok (Done (- EISDIR), s))
      else if flags AND O_TRUNC \<noteq> 0 \<and> vi_type (vnodes s node) = VFS_FILE then
        (case node_op op_truncate ops node s of
           None \<Rightarrow> bnd (vfs_iput ops (Some node) s) (\<lambda>s. Ok (Done (- EOPNOTSUPP), s))
         | Some trunc \<Rightarrow> bnd (vfs_ilock (Some node) s) (openat_truncate ops trunc node flags))
      else openat_install ops node flags s)"

definition openat ::
  "'a file_state_scheme vfs_tables \<Rightarrow> int \<Rightarrow> string option \<Rightarrow> int \<Rightarrow> 'a file_state_scheme \<Rightarrow>
    (int blocking \<times> 'a file_state_scheme) outcome" where
  "openat ops dirfd path flags s =
     (case path of
        None \<Rightarrow> Ok (Done (- EFAULT), s)
      | Some path \<Rightarrow>
          if path = [] then Ok (Done (- ENOENT), s)
          else if open_flags_valid flags < 0 then Ok (Done (open_flags_valid flags), s)
          else case resolve_open_path dirfd path s of
            Inl e \<Rightarrow> Ok (Done e, s)
          | Inr (None, _) \<Rightarrow> Fault ''openat: null root''
          | Inr (Some start, rpath) \<Rightarrow>
              bnd (vfs_lookup_at ops start rpath s) (\<lambda>(node, s).
              case node of
                Some n \<Rightarrow> openat_node ops n flags s
              | None \<Rightarrow>
                  if flags AND O_CREAT = 0 then Ok (Done (- ENOENT), s)
                  else bnd (vfs_create_at ops start rpath VFS_FILE s) (\<lambda>(node, s).
                    case node of None \<Rightarrow> Ok (Done (- EIO), s) | Some n \<Rightarrow> openat_node ops n flags s)))"

definition mkdirat ::
  "'a file_state_scheme vfs_tables \<Rightarrow> int \<Rightarrow> string option \<Rightarrow> int \<Rightarrow> 'a file_state_scheme \<Rightarrow> (int \<times> 'a file_state_scheme) outcome" where
  "mkdirat ops dirfd path mode s =
     (case path of
        None \<Rightarrow> Ok (- EFAULT, s)
      | Some path \<Rightarrow>
          if path = [] then Ok (- ENOENT, s)
          else case resolve_open_path dirfd path s of
            Inl e \<Rightarrow> Ok (e, s)
          | Inr (None, _) \<Rightarrow> Ok (- EINVAL, s)
          | Inr (Some start, rpath) \<Rightarrow>
              bnd (vfs_mkdir_at ops start rpath mode s) (\<lambda>(ret, s). Ok (if ret = - 1 then - EIO else ret, s)))"

definition unlinkat ::
  "'a file_state_scheme vfs_tables \<Rightarrow> int \<Rightarrow> string option \<Rightarrow> int \<Rightarrow> 'a file_state_scheme \<Rightarrow> (int \<times> 'a file_state_scheme) outcome" where
  "unlinkat ops dirfd path flags s =
     (case path of
        None \<Rightarrow> Ok (- EFAULT, s)
      | Some path \<Rightarrow>
          if path = [] then Ok (- ENOENT, s)
          else if flags \<noteq> 0 then Ok (- EINVAL, s)
          else case resolve_open_path dirfd path s of
            Inl e \<Rightarrow> Ok (e, s)
          | Inr (None, _) \<Rightarrow> Ok (- EINVAL, s)
          | Inr (Some start, rpath) \<Rightarrow>
              bnd (vfs_unlink_at ops start rpath flags s) (\<lambda>(ret, s). Ok (if ret = - 1 then - EIO else ret, s)))"

definition open_file ::
  "'a file_state_scheme vfs_tables \<Rightarrow> string option \<Rightarrow> int \<Rightarrow> 'a file_state_scheme \<Rightarrow>
    (int blocking \<times> 'a file_state_scheme) outcome" where
  "open_file ops path flags s = openat ops (- 100) path flags s"

section \<open>Duplicating and status\<close>

definition dup_from :: "int \<Rightarrow> int \<Rightarrow> 'a file_state_scheme \<Rightarrow> (int \<times> 'a file_state_scheme) outcome" where
  "dup_from fd minfd s =
     (if minfd < 0 \<or> minfd \<ge> int PROCESS_MAX_OPEN_FILES then Ok (- EINVAL, s)
      else if fd < 0 \<or> fd \<ge> int PROCESS_MAX_OPEN_FILES then Ok (- EBADF, s)
      else
        let p = cur_proc s in
        bnd (acquire (ProcLock p) s) (\<lambda>s.
        case ofile (proc s p) (nat fd) of
          None \<Rightarrow> bnd (release (ProcLock p) s) (\<lambda>s. Ok (- EBADF, s))
        | Some f \<Rightarrow>
            (case find (\<lambda>i. ofile (proc s p) i = None) [nat minfd..<PROCESS_MAX_OPEN_FILES] of
               None \<Rightarrow> bnd (release (ProcLock p) s) (\<lambda>s. Ok (- EMFILE, s))
             | Some newfd \<Rightarrow>
                 bnd (acquire FtableLock s) (\<lambda>s.
                 if ref_count (ftable s f) < 1 then Panic ''dup''
                 else
                   bnd (release FtableLock (upd_file f (\<lambda>k. k\<lparr>ref_count := ref_count k + 1\<rparr>) s)) (\<lambda>s.
                   let s = upd_proc p (\<lambda>q. q\<lparr>ofile := (ofile q)(newfd := Some f)\<rparr>) s
                   in bnd (release (ProcLock p) s) (\<lambda>s. Ok (int newfd, s)))))))"

definition dup :: "int \<Rightarrow> 'a file_state_scheme \<Rightarrow> (int \<times> 'a file_state_scheme) outcome" where
  "dup fd s = dup_from fd 0 s"

text \<open>\<open>lst\<close> is the address of the \<open>struct linux_stat\<close> on the stack.\<close>

definition filestat ::
  "kern read_at \<Rightarrow> 'a file_state_scheme vfs_tables \<Rightarrow> u64 \<Rightarrow> int \<Rightarrow> u64 \<Rightarrow> 'a file_state_scheme \<Rightarrow>
    (int \<times> 'a file_state_scheme) outcome" where
  "filestat rd ops lst fd user_st_addr s =
     (if fd < 0 \<or> fd \<ge> int PROCESS_MAX_OPEN_FILES then Ok (- EBADF, s)
      else case ofile (get_proc s) (nat fd) of
        None \<Rightarrow> Ok (- EBADF, s)
      | Some f \<Rightarrow>
          let s = s\<lparr>mem := memset (mem s) lst 0 LINUX_STAT_SIZE\<rparr> in
          (case f_node (ftable s f) of
             None \<Rightarrow> Ok (- EOPNOTSUPP, s)
           | Some n \<Rightarrow>
               (case node_op op_stat ops n s of
                  None \<Rightarrow> Ok (- EOPNOTSUPP, s)
                | Some stat \<Rightarrow>
                    bnd (stat n s) (\<lambda>(ret, st, s).
                    if ret < 0 then Ok (if ret = - 1 then - EIO else ret, s)
                    else
                      let m = store32 (mem s) (lst + 20) (word_of_int (st_nlink st));
                          m = store64 m (lst + 48) (st_size st);
                          m = store32 m (lst + 56) 4096;
                          m = store64 m (lst + 64) ((st_size st + 511) div 512);
                          s = s\<lparr>mem := m\<rparr>
                      in bnd (in_kern (copyout rd (pagetable (get_proc s)) user_st_addr lst LINUX_STAT_SIZE) s) (\<lambda>(r, s).
                         Ok (if r < 0 then - EFAULT else 0, s))))))"

end
