(* ===== verification/Signal.thy ===== *)
theory Signal
  imports File
begin

text \<open>
  Signals and the owners of the terminal: \<open>kernel/core/signal.c\<close> up to the sending of signals, and the
  functions on \<open>struct terminal\<close> of \<open>kernel/fs/devtmpfs/tty.c\<close>. The delivery of signals,
  \<open>check_signal\<close>, is in theory \<open>Proc\<close>, because it ends processes.
\<close>

unbundle bit_operations_syntax

section \<open>signal.c\<close>

abbreviation SIGINT :: nat where "SIGINT \<equiv> 2"
abbreviation SIGKILL :: nat where "SIGKILL \<equiv> 9"
abbreviation SIGSTOP :: nat where "SIGSTOP \<equiv> 19"
abbreviation SIG_DFL :: u64 where "SIG_DFL \<equiv> 0"
abbreviation SIG_IGN :: u64 where "SIG_IGN \<equiv> 1"

definition SIGMASK :: "nat \<Rightarrow> u64" where
  "SIGMASK sig = push_bit (sig - 1) 1"

definition set_sighand :: "nat \<Rightarrow> (sighand \<Rightarrow> sighand) \<Rightarrow> 'a kern_scheme \<Rightarrow> 'a kern_scheme" where
  "set_sighand i f = upd_proc i (\<lambda>p. p\<lparr>proc_sighand := f (proc_sighand p)\<rparr>)"

definition signal_reset_on_exec :: "nat \<Rightarrow> 'a sched_state_scheme \<Rightarrow> 'a sched_state_scheme outcome" where
  "signal_reset_on_exec i s =
     bnd (acquire (ProcLock i) s) (\<lambda>s.
     let s = set_sighand i (\<lambda>h. h\<lparr>sig_pending := 0\<rparr>) s;
         s = foldl (\<lambda>s k.
               if sa_handler (actions (proc_sighand (proc s i)) k) \<noteq> SIG_IGN then
                 set_sighand i (\<lambda>h. h\<lparr>actions := (actions h)(k :=
                   \<lparr>sa_handler = SIG_DFL, sa_flags = 0, sa_restorer = 0, sa_mask = 0\<rparr>)\<rparr>) s
               else s) s [1..<NSIG]
     in release (ProcLock i) s)"

definition lowest_set_bit :: "u64 \<Rightarrow> nat" where
  "lowest_set_bit m =
     (let n = 0;
          (m, n) = (if m AND 0xFFFFFFFF = 0 then (drop_bit 32 m, n + 32) else (m, n));
          (m, n) = (if m AND 0xFFFF = 0 then (drop_bit 16 m, n + 16) else (m, n));
          (m, n) = (if m AND 0xFF = 0 then (drop_bit 8 m, n + 8) else (m, n));
          (m, n) = (if m AND 0xF = 0 then (drop_bit 4 m, n + 4) else (m, n));
          (m, n) = (if m AND 0x3 = 0 then (drop_bit 2 m, n + 2) else (m, n))
      in if m AND 0x1 = 0 then n + 1 else n)"

definition signal_pending :: "Process \<Rightarrow> bool" where
  "signal_pending p \<longleftrightarrow> sig_pending (proc_sighand p) AND NOT (sig_blocked (proc_sighand p)) \<noteq> 0"

definition signal_send :: "nat \<Rightarrow> nat \<Rightarrow> 'a sched_state_scheme \<Rightarrow> 'a sched_state_scheme outcome" where
  "signal_send i sig s =
     (let s = set_sighand i (\<lambda>h. h\<lparr>sig_pending := sig_pending h OR SIGMASK sig\<rparr>) s in
      bnd (release (ProcLock i) s) (\<lambda>s.
      bnd (if state (proc s i) = SLEEPING then wakeup (ProcChan i) s else Ok s) (acquire (ProcLock i))))"

section \<open>tty.c\<close>

text \<open>\<open>struct terminal\<close>: an owner is the index of a process.\<close>

record tty_state = file_state +
  input_owner :: "nat \<Rightarrow> nat option"
  input_owner_idx :: int

definition terminal_claim_input :: "int \<Rightarrow> 'a tty_state_scheme \<Rightarrow> 'a tty_state_scheme outcome" where
  "terminal_claim_input wanted s =
     bnd (acquire TtyOwnerLock s) (\<lambda>s.
     bnd (for_each (\<lambda>i s.
       bnd (acquire (ProcLock i) s) (\<lambda>s.
       if pid (proc s i) = wanted \<and> state (proc s i) \<noteq> UNUSED then
         let s = (if list_ex (\<lambda>j. input_owner s j = Some i) [0..<nat (input_owner_idx s + 1)] then s
                  else if input_owner_idx s = int NPROC - 1 then s
                  else s\<lparr>input_owner_idx := input_owner_idx s + 1,
                         input_owner := (input_owner s)(nat (input_owner_idx s + 1) := Some i)\<rparr>)
         in bnd (release (ProcLock i) s) (\<lambda>s. bnd (release TtyOwnerLock s) (\<lambda>s. Ok (Some (), s)))
       else bnd (release (ProcLock i) s) (\<lambda>s. Ok (None, s)))) [0..<NPROC] s) (\<lambda>(r, s).
     case r of Some _ \<Rightarrow> Ok s | None \<Rightarrow> release TtyOwnerLock s))"

definition terminal_release_input :: "'a tty_state_scheme \<Rightarrow> 'a tty_state_scheme outcome" where
  "terminal_release_input s =
     bnd (acquire TtyOwnerLock s) (\<lambda>s.
     let cnt = input_owner_idx s in
     if cnt = - 1 then release TtyOwnerLock s
     else
       bnd (for_each (\<lambda>i s.
         case input_owner s i of
           None \<Rightarrow> Ok (None :: unit option, s)
         | Some p \<Rightarrow>
             bnd (acquire (ProcLock p) s) (\<lambda>s.
             bnd (signal_send p SIGINT s) (\<lambda>s.
             bnd (release (ProcLock p) s) (\<lambda>s. Ok (None, s))))) [0..<nat (cnt + 1)] s) (\<lambda>(_, s).
       release TtyOwnerLock (s\<lparr>input_owner_idx := - 1\<rparr>)))"

definition terminal_forget_process :: "nat \<Rightarrow> 'a tty_state_scheme \<Rightarrow> 'a tty_state_scheme outcome" where
  "terminal_forget_process p s =
     bnd (acquire TtyOwnerLock s) (\<lambda>s.
     case find (\<lambda>i. input_owner s i = Some p) [0..<nat (input_owner_idx s + 1)] of
       None \<Rightarrow> release TtyOwnerLock s
     | Some i \<Rightarrow>
         let s = foldl (\<lambda>s j. s\<lparr>input_owner := (input_owner s)(j := input_owner s (j + 1))\<rparr>) s [i..<nat (input_owner_idx s)];
             s = s\<lparr>input_owner := (input_owner s)(nat (input_owner_idx s) := None)\<rparr>;
             s = s\<lparr>input_owner_idx := input_owner_idx s - 1\<rparr>
         in release TtyOwnerLock s)"

section \<open>The lowest set bit\<close>

definition low_bit :: "u64 \<Rightarrow> nat \<Rightarrow> bool" where
  "low_bit v n \<longleftrightarrow> bit v n \<and> (\<forall>i < n. \<not> bit v i)"

text \<open>One step of the binary search on a mask whose lowest bit is below \<open>2 * w\<close>.\<close>

definition lsb_step :: "nat \<Rightarrow> u64 \<times> nat \<Rightarrow> u64 \<times> nat" where
  "lsb_step w = (\<lambda>(m, n). if m AND mask w = 0 then (drop_bit w m, n + w) else (m, n))"

lemma low_bits_zero: "v AND mask w = (0 :: u64) \<longleftrightarrow> (\<forall>i < w. \<not> bit v i)"
  using bit_imp_le_length [of v] by (force simp: bit_eq_iff bit_simps)

lemma lsb_step:
  assumes "low_bit m b" "b < 2 * w" "lsb_step w (m, n) = (m', n')"
  shows "\<exists>b'. low_bit m' b' \<and> b' < w \<and> n' + b' = n + b"
proof (cases "b < w")
  case True
  then have "m AND mask w \<noteq> 0" using assms(1) by (auto simp: low_bits_zero low_bit_def)
  then show ?thesis using assms True by (auto simp: lsb_step_def)
next
  case False
  then have "m AND mask w = 0" using assms(1) by (auto simp: low_bits_zero low_bit_def)
  moreover have "low_bit (drop_bit w m) (b - w)" using assms(1) False by (auto simp: low_bit_def bit_simps less_diff_conv ac_simps)
  ultimately show ?thesis using assms False by (intro exI [of _ "b - w"]) (auto simp: lsb_step_def)
qed

lemma lowest_set_bit_steps:
  "lowest_set_bit v = snd (lsb_step 1 (lsb_step 2 (lsb_step 4 (lsb_step 8 (lsb_step 16 (lsb_step 32 (v, 0)))))))"
proof -
  have w: "lsb_step 32 (m, n) = (if m AND 0xFFFFFFFF = 0 then (drop_bit 32 m, n + 32) else (m, n))"
    "lsb_step 16 (m, n) = (if m AND 0xFFFF = 0 then (drop_bit 16 m, n + 16) else (m, n))"
    "lsb_step 8 (m, n) = (if m AND 0xFF = 0 then (drop_bit 8 m, n + 8) else (m, n))"
    "lsb_step 4 (m, n) = (if m AND 0xF = 0 then (drop_bit 4 m, n + 4) else (m, n))"
    "lsb_step 2 (m, n) = (if m AND 0x3 = 0 then (drop_bit 2 m, n + 2) else (m, n))"
    "snd (lsb_step 1 (m, n)) = (if m AND 0x1 = 0 then n + 1 else n)" for m n
    by (simp_all add: lsb_step_def mask_eq_exp_minus_1)
  show ?thesis unfolding lowest_set_bit_def w(1-5) [symmetric] w(6) [symmetric] Let_def split_beta prod.collapse by (rule refl)
qed

lemma lowest_set_bit_low:
  assumes "low_bit v b" "b < 64"
  shows "lowest_set_bit v = b"
proof -
  obtain m1 n1 m2 n2 m3 n3 m4 n4 m5 n5 m6 n6 where
    s: "lsb_step 32 (v, 0) = (m1, n1)" "lsb_step 16 (m1, n1) = (m2, n2)" "lsb_step 8 (m2, n2) = (m3, n3)"
      "lsb_step 4 (m3, n3) = (m4, n4)" "lsb_step 2 (m4, n4) = (m5, n5)" "lsb_step 1 (m5, n5) = (m6, n6)" by (meson surj_pair)
  obtain b1 where b1: "low_bit m1 b1" "b1 < 32" "n1 + b1 = b" using lsb_step [OF assms(1) _ s(1)] assms(2) by auto
  obtain b2 where b2: "low_bit m2 b2" "b2 < 16" "n2 + b2 = b" using lsb_step [OF b1(1) _ s(2)] b1 by auto
  obtain b3 where b3: "low_bit m3 b3" "b3 < 8" "n3 + b3 = b" using lsb_step [OF b2(1) _ s(3)] b2 by auto
  obtain b4 where b4: "low_bit m4 b4" "b4 < 4" "n4 + b4 = b" using lsb_step [OF b3(1) _ s(4)] b3 by auto
  obtain b5 where b5: "low_bit m5 b5" "b5 < 2" "n5 + b5 = b" using lsb_step [OF b4(1) _ s(5)] b4 by auto
  obtain b6 where b6: "b6 < 1" "n6 + b6 = b" using lsb_step [OF b5(1) _ s(6)] b5 by auto
  show ?thesis using b6 s by (simp add: lowest_set_bit_steps)
qed

lemma low_bit_exists:
  assumes "v \<noteq> 0"
  obtains b where "low_bit v b" "b < 64"
proof -
  obtain i where "bit v i" using assms by (auto simp: bit_eq_iff)
  then have "low_bit v (LEAST i. bit v i)" unfolding low_bit_def by (auto intro: LeastI dest: not_less_Least)
  then show thesis using that [of "LEAST i. bit v i"] bit_imp_le_length [of v] by (auto simp: low_bit_def)
qed

text \<open>
  \<open>lowest_set_bit\<close>, the binary search of signal.c, computes the position of the lowest set bit, the count
  of trailing zeros, of every mask other than 0.
\<close>

theorem lowest_set_bit_ctz:
  assumes "v \<noteq> 0"
  shows "bit v (lowest_set_bit v) \<and> (\<forall>i < lowest_set_bit v. \<not> bit v i) \<and> lowest_set_bit v < 64"
  using low_bit_exists [OF assms] lowest_set_bit_low by (metis low_bit_def)

theorem lowest_set_bit_ctz_witness: "bit (0x280000 :: u64) (lowest_set_bit 0x280000) \<and> lowest_set_bit 0x280000 = 19"
  using lowest_set_bit_ctz [of "0x280000"] by (simp add: lowest_set_bit_def)

end
