(* ===== verification/Proc.thy ===== *)
theory Proc
  imports Signal
begin

text \<open>
  Processes: \<open>kernel/core/proc.c\<close> and the delivery of signals of \<open>kernel/core/signal.c\<close>. The trap
  frame and the saved context of a process are raw memory; \<open>usertrapret\<close> stands for the address of
  the function \<open>arch_usertrapret\<close>.
\<close>

unbundle bit_operations_syntax

abbreviation TRAPFRAME_SIZE :: u64 where "TRAPFRAME_SIZE \<equiv> 256"
abbreviation CONTEXT_SIZE :: u64 where "CONTEXT_SIZE \<equiv> 112"
abbreviation SIGFRAME_SIZE :: u64 where "SIGFRAME_SIZE \<equiv> 264"
abbreviation tf_sp :: "u64 \<Rightarrow> u64" where "tf_sp tf \<equiv> tf + 8"
abbreviation tf_a0 :: "u64 \<Rightarrow> u64" where "tf_a0 tf \<equiv> tf + 72"
abbreviation tf_epc :: "u64 \<Rightarrow> u64" where "tf_epc tf \<equiv> tf + 248"
abbreviation WNOHANG :: int where "WNOHANG \<equiv> 1"

section \<open>Process slots\<close>

definition sighand_zero :: sighand where
  "sighand_zero = \<lparr>sig_pending = 0, sig_blocked = 0,
     actions = \<lambda>_. \<lparr>sa_handler = 0, sa_flags = 0, sa_restorer = 0, sa_mask = 0\<rparr>\<rparr>"

definition alloc_process ::
  "'a tty_state_scheme call \<Rightarrow> u64 \<Rightarrow> 'a tty_state_scheme \<Rightarrow> (nat option \<times> 'a tty_state_scheme) outcome" where
  "alloc_process call usertrapret s =
     for_each (\<lambda>i s.
       bnd (acquire (ProcLock i) s) (\<lambda>s.
       if state (proc s i) = UNUSED then
         let s = upd_proc i (\<lambda>p. p\<lparr>state := USED\<rparr>) s in
         bnd (get_pid s) (\<lambda>(n, s).
         let s = upd_proc i (\<lambda>p. p\<lparr>pid := n\<rparr>) s in
         bnd (release (ProcLock i) s) (\<lambda>s.
         bnd (kalloc s) (\<lambda>(k, s).
         let s = upd_proc i (\<lambda>p. p\<lparr>kstack := k\<rparr>) s in
         bnd (uvmcreate s) (\<lambda>(pt, s).
         let s = upd_proc i (\<lambda>p. p\<lparr>pagetable := pt\<rparr>) s in
         if k = 0 \<or> pt = 0 then Panic ''Alloc process: Failed to allocate memory''
         else
           let tf = k + PGSIZE - TRAPFRAME_SIZE;
               s = upd_proc i (\<lambda>p. p\<lparr>trapframe := tf\<rparr>) s
           in bnd (kmalloc call CONTEXT_SIZE s) (\<lambda>(c, s).
              let s = upd_proc i (\<lambda>p. p\<lparr>proc_context := c\<rparr>) s in
              if c = 0 then Panic ''Alloc process: Failed to allocate memory''
              else
                let s = s\<lparr>mem := store64 (mem s) c usertrapret\<rparr>;
                    s = upd_proc i (\<lambda>p. p\<lparr>proc_sighand := sighand_zero\<rparr>) s;
                    s = upd_proc i (\<lambda>p. p\<lparr>ofile := \<lambda>f. if f < PROCESS_MAX_OPEN_FILES then None else ofile p f\<rparr>) s;
                    s = upd_proc i (\<lambda>p. p\<lparr>cwd := ''/''\<rparr>) s;
                    s = s\<lparr>mem := store64 (mem s) (c + 8) (tf - CONTEXT_SIZE)\<rparr>
                in Ok (Some i, s))))))
       else bnd (release (ProcLock i) s) (\<lambda>s. Ok (None, s)))) [0..<NPROC] s"

definition freeproc :: "nat \<Rightarrow> 'a tty_state_scheme \<Rightarrow> 'a tty_state_scheme outcome" where
  "freeproc i s =
     bnd (acquire (ProcLock i) s) (\<lambda>s.
     let s = upd_proc i (\<lambda>p. p\<lparr>pid := 0, proc_name := ''''\<rparr>) s in
     bnd (if kstack (proc s i) \<noteq> 0 then
            bnd (kfree (kstack (proc s i)) s) (\<lambda>s. Ok (upd_proc i (\<lambda>p. p\<lparr>kstack := 0\<rparr>) s))
          else Ok s) (\<lambda>s.
     bnd (if pagetable (proc s i) \<noteq> 0 then
            bnd (uvmfree (pagetable (proc s i)) (proc s i) s) (\<lambda>s. Ok (upd_proc i (\<lambda>p. p\<lparr>pagetable := 0\<rparr>) s))
          else Ok s) (\<lambda>s.
     bnd (if proc_context (proc s i) \<noteq> 0 then
            bnd (kmfree (proc_context (proc s i)) s) (\<lambda>s. Ok (upd_proc i (\<lambda>p. p\<lparr>proc_context := 0\<rparr>) s))
          else Ok s) (\<lambda>s.
     release (ProcLock i) (upd_proc i (\<lambda>p. p\<lparr>trapframe := 0, proc_size := 0, parent := None, state := UNUSED\<rparr>) s)))))"

section \<open>fork\<close>

definition fork_file :: "nat \<Rightarrow> nat \<Rightarrow> nat \<Rightarrow> 'a tty_state_scheme \<Rightarrow> 'a tty_state_scheme outcome" where
  "fork_file p np i s =
     (case ofile (proc s p) i of
        None \<Rightarrow> Ok s
      | Some f \<Rightarrow> bnd (filedup f s) (\<lambda>s. Ok (upd_proc np (\<lambda>q. q\<lparr>ofile := (ofile q)(i := Some f)\<rparr>) s)))"

definition fork_area :: "nat \<Rightarrow> nat \<Rightarrow> nat \<Rightarrow> 'a tty_state_scheme \<Rightarrow> 'a tty_state_scheme outcome" where
  "fork_area p np i s =
     (if used (vm_area (proc s p) i) then
        let s = upd_proc np (\<lambda>q. q\<lparr>vm_area := (vm_area q)(i := vm_area (proc s p) i)\<rparr>) s in
        (case vma_file (vm_area (proc s p) i) of
           None \<Rightarrow> Ok s
         | Some f \<Rightarrow>
             bnd (filedup f s) (\<lambda>s.
             Ok (upd_proc np (\<lambda>q. q\<lparr>vm_area := (vm_area q)(i := (vm_area q i)\<lparr>vma_file := Some f\<rparr>)\<rparr>) s)))
      else Ok s)"

definition each :: "('i \<Rightarrow> 's \<Rightarrow> 's outcome) \<Rightarrow> 'i list \<Rightarrow> 's \<Rightarrow> 's outcome" where
  "each f is s = bnd (for_each (\<lambda>i s. bnd (f i s) (\<lambda>s. Ok (None :: unit option, s))) is s) (\<lambda>(_, s). Ok s)"

definition fork :: "'a tty_state_scheme call \<Rightarrow> u64 \<Rightarrow> 'a tty_state_scheme \<Rightarrow> (int \<times> 'a tty_state_scheme) outcome" where
  "fork call usertrapret s =
     bnd (alloc_process call usertrapret s) (\<lambda>(r, s).
     let p = cur_proc s in
     case r of
       None \<Rightarrow> Ok (- EAGAIN, s)
     | Some np \<Rightarrow>
         bnd (acquire (ProcLock np) s) (\<lambda>s.
         bnd (uvmcopy (pagetable (proc s p)) (pagetable (proc s np)) s) (\<lambda>(e, s).
         if e < 0 then
           bnd (release (ProcLock np) s) (\<lambda>s. bnd (freeproc np s) (\<lambda>s. Ok (- ENOMEM, s)))
         else
           let s = upd_proc np (\<lambda>q. q\<lparr>heap_top := heap_top (proc s p), heap_bottom := heap_bottom (proc s p),
                     stack_top := stack_top (proc s p), stack_bottom := stack_bottom (proc s p), cwd := cwd (proc s p)\<rparr>) s;
               s = s\<lparr>mem := memmove (mem s) (trapframe (proc s np)) (trapframe (proc s p)) 256\<rparr>;
               s = s\<lparr>mem := store64 (mem s) (tf_a0 (trapframe (proc s np))) 0\<rparr>;
               s = upd_proc np (\<lambda>q. q\<lparr>parent := Some p, proc_sighand := proc_sighand (proc s p)\<rparr>) s
           in bnd (each (fork_file p np) [0..<PROCESS_MAX_OPEN_FILES] s) (\<lambda>s.
              bnd (each (fork_area p np) [0..<NVMA] s) (\<lambda>s.
              let s = upd_proc np (\<lambda>q. q\<lparr>state := RUNNABLE\<rparr>) s in
              bnd (release (ProcLock np) s) (\<lambda>s. Ok (pid (proc s np), s)))))))"

section \<open>exit\<close>

text \<open>\<open>wakeup(0)\<close>, for a process without parent: a process that sleeps always has a channel.\<close>

definition wakeup_null :: "'a tty_state_scheme \<Rightarrow> 'a tty_state_scheme outcome" where
  "wakeup_null s =
     each (\<lambda>i s.
       bnd (acquire (ProcLock i) s) (\<lambda>s.
       release (ProcLock i)
         (if i \<noteq> cur_proc s \<and> chan (proc s i) = None \<and> state (proc s i) = SLEEPING
          then upd_proc i (\<lambda>p. p\<lparr>state := RUNNABLE\<rparr>) s else s))) [0..<NPROC] s"

definition exit_close ::
  "'a tty_state_scheme vfs_tables \<Rightarrow> nat \<Rightarrow> nat \<Rightarrow> 'a tty_state_scheme \<Rightarrow> 'a tty_state_scheme outcome" where
  "exit_close ops p i s =
     (case ofile (proc s p) i of
        None \<Rightarrow> Ok s
      | Some f \<Rightarrow> fileclose ops f (upd_proc p (\<lambda>q. q\<lparr>ofile := (ofile q)(i := None)\<rparr>) s))"

definition exit_reparent :: "nat \<Rightarrow> nat \<Rightarrow> 'a tty_state_scheme \<Rightarrow> 'a tty_state_scheme outcome" where
  "exit_reparent p i s =
     bnd (acquire (ProcLock i) s) (\<lambda>s.
     release (ProcLock i) (if parent (proc s i) = Some p then upd_proc i (\<lambda>q. q\<lparr>parent := Some 0\<rparr>) s else s))"

definition exit_area ::
  "'a tty_state_scheme vfs_tables \<Rightarrow> nat \<Rightarrow> nat \<Rightarrow> 'a tty_state_scheme \<Rightarrow> 'a tty_state_scheme outcome" where
  "exit_area ops p i s =
     (let vma = vm_area (proc s p) i in
      if \<not> used vma then Ok s
      else
        bnd (kvmunmap (pagetable (proc s p)) (va_start vma) (va_end vma - va_start vma) True s) (\<lambda>s.
        bnd (case vma_file vma of None \<Rightarrow> Ok s | Some f \<Rightarrow> fileclose ops f s) (\<lambda>s.
        Ok (upd_proc p (\<lambda>q. q\<lparr>vm_area := (vm_area q)(i := (vm_area q i)\<lparr>used := False\<rparr>)\<rparr>) s))))"

text \<open>
  \<open>exit\<close> up to the waking of the parent, and from there. Between the two parts the process holds no
  lock, so that other CPUs can run in between.
\<close>

definition exit_notify :: "'a tty_state_scheme vfs_tables \<Rightarrow> 'a tty_state_scheme \<Rightarrow> 'a tty_state_scheme outcome" where
  "exit_notify ops s =
     (let p = cur_proc s in
      bnd (terminal_forget_process p s) (\<lambda>s.
      bnd (each (exit_close ops p) [0..<PROCESS_MAX_OPEN_FILES] s) (\<lambda>s.
      bnd (each (exit_reparent p) [0..<NPROC] s) (\<lambda>s.
      case parent (proc s p) of Some q \<Rightarrow> wakeup (ProcChan q) s | None \<Rightarrow> wakeup_null s))))"

definition exit_finish ::
  "'a tty_state_scheme vfs_tables \<Rightarrow> int \<Rightarrow> 'a tty_state_scheme \<Rightarrow> 'a tty_state_scheme outcome" where
  "exit_finish ops code s =
     (let p = cur_proc s in
      bnd (acquire (ProcLock p) s) (\<lambda>s.
      let s = upd_proc p (\<lambda>q. q\<lparr>state := ZOMBIE, exit_code := code\<rparr>) s in
      bnd (each (exit_area ops p) [0..<NVMA] s) switch_away))"

definition exit :: "'a tty_state_scheme vfs_tables \<Rightarrow> int \<Rightarrow> 'a tty_state_scheme \<Rightarrow> 'a tty_state_scheme outcome" where
  "exit ops code s = bnd (exit_notify ops s) (exit_finish ops code)"

section \<open>wait4\<close>

text \<open>
  The scan for a child, with the lock of the caller held; the state carries \<open>have_match\<close>. \<open>st\<close> is
  the address of the variable \<open>status\<close>.
\<close>

definition wait4_child ::
  "kern read_at \<Rightarrow> u64 \<Rightarrow> int \<Rightarrow> u64 \<Rightarrow> nat \<Rightarrow> bool \<times> 'a tty_state_scheme \<Rightarrow> (int option \<times> bool \<times> 'a tty_state_scheme) outcome" where
  "wait4_child rd st wanted wstatus i = (\<lambda>(have_match, s).
     let cur = cur_proc s in
     if i = cur then Ok (None, have_match, s)
     else bnd (acquire (ProcLock i) s) (\<lambda>s.
       if parent (proc s i) = Some cur \<and> (wanted = - 1 \<or> pid (proc s i) = wanted) then
         if state (proc s i) = ZOMBIE then
           let child_pid = pid (proc s i) in
           bnd (if wstatus \<noteq> 0 then
                  let s = s\<lparr>mem := store32 (mem s) st (word_of_int (push_bit 8 (exit_code (proc s i) AND 0xFF)))\<rparr>
                  in in_kern (copyout rd (pagetable (proc s cur)) wstatus st 4) s
                else Ok (0, s)) (\<lambda>(r, s).
           bnd (release (ProcLock i) s) (\<lambda>s.
           bnd (release (ProcLock cur) s) (\<lambda>s.
           if r < 0 then Ok (Some (- EFAULT), True, s)
           else bnd (freeproc i s) (\<lambda>s. Ok (Some child_pid, True, s)))))
         else bnd (release (ProcLock i) s) (\<lambda>s. Ok (None, True, s))
       else bnd (release (ProcLock i) s) (\<lambda>s. Ok (None, have_match, s))))"

definition wait4_scan ::
  "kern read_at \<Rightarrow> u64 \<Rightarrow> int \<Rightarrow> u64 \<Rightarrow> int \<Rightarrow> 'a tty_state_scheme \<Rightarrow> (int blocking \<times> 'a tty_state_scheme) outcome" where
  "wait4_scan rd st wanted wstatus options s =
     bnd (for_each (wait4_child rd st wanted wstatus) [0..<NPROC] (False, s)) (\<lambda>(r, have_match, s).
     let cur = cur_proc s in
     case r of
       Some res \<Rightarrow> Ok (Done res, s)
     | None \<Rightarrow>
         if \<not> have_match then bnd (release (ProcLock cur) s) (\<lambda>s. Ok (Done (- ECHILD), s))
         else if options AND WNOHANG \<noteq> 0 then bnd (release (ProcLock cur) s) (\<lambda>s. Ok (Done 0, s))
         else bnd (sleep_begin (ProcChan cur) (ProcLock cur) s) (\<lambda>s. Ok (Sleeping, s)))"

definition wait4 ::
  "kern read_at \<Rightarrow> u64 \<Rightarrow> int \<Rightarrow> u64 \<Rightarrow> int \<Rightarrow> 'a tty_state_scheme \<Rightarrow> (int blocking \<times> 'a tty_state_scheme) outcome" where
  "wait4 rd st wanted wstatus options s = bnd (acquire (ProcLock (cur_proc s)) s) (wait4_scan rd st wanted wstatus options)"

definition wait4_resume ::
  "kern read_at \<Rightarrow> u64 \<Rightarrow> int \<Rightarrow> u64 \<Rightarrow> int \<Rightarrow> 'a tty_state_scheme \<Rightarrow> (int blocking \<times> 'a tty_state_scheme) outcome" where
  "wait4_resume rd st wanted wstatus options s = bnd (sleep_end (ProcLock (cur_proc s)) s) (wait4_scan rd st wanted wstatus options)"

section \<open>brk and kill\<close>

definition brk :: "u64 \<Rightarrow> 'a tty_state_scheme \<Rightarrow> (u64 \<times> 'a tty_state_scheme) outcome" where
  "brk addr s =
     (let cur = cur_proc s; old = heap_top (proc s cur) in
      if addr = 0 then Ok (old, s)
      else if addr < heap_bottom (proc s cur) \<or> addr \<ge> stack_bottom (proc s cur) then Ok (old, s)
      else
        bnd (if addr \<ge> heap_bottom (proc s cur) \<and> addr < heap_top (proc s cur) then
               bnd (acquire (ProcLock cur) s) (\<lambda>s.
               bnd (uvmdealloc (pagetable (proc s cur)) addr (old - addr) s) (\<lambda>(_, s). release (ProcLock cur) s))
             else Ok s) (\<lambda>s.
        bnd (acquire (ProcLock cur) s) (\<lambda>s.
        let s = upd_proc cur (\<lambda>p. p\<lparr>heap_top := addr\<rparr>) s in
        bnd (release (ProcLock cur) s) (\<lambda>s. Ok (addr, s)))))"

definition kill :: "int \<Rightarrow> int \<Rightarrow> 'a tty_state_scheme \<Rightarrow> (int \<times> 'a tty_state_scheme) outcome" where
  "kill wanted sig s =
     (if sig < 0 \<or> sig \<ge> int NSIG then Ok (- EINVAL, s)
      else
        bnd (for_each (\<lambda>i s.
          bnd (acquire (ProcLock i) s) (\<lambda>s.
          if pid (proc s i) = wanted \<and> state (proc s i) \<noteq> UNUSED then Ok (Some i, s)
          else bnd (release (ProcLock i) s) (\<lambda>s. Ok (None, s)))) [0..<NPROC] s) (\<lambda>(p, s).
        case p of
          None \<Rightarrow> Ok (- ESRCH, s)
        | Some p \<Rightarrow>
            if sig = 0 then bnd (release (ProcLock p) s) (\<lambda>s. Ok (0, s))
            else bnd (signal_send p (nat sig) s) (\<lambda>s. bnd (release (ProcLock p) s) (\<lambda>s. Ok (0, s)))))"

section \<open>Delivery of signals\<close>

text \<open>
  The loop of \<open>check_signal\<close> with the lock of the process held. The result is the exit code if the
  process ends. \<open>frame\<close> is the address of the signal frame on the kernel stack.
\<close>

definition push_frame ::
  "kern read_at \<Rightarrow> u64 \<Rightarrow> nat \<Rightarrow> nat \<Rightarrow> 'a tty_state_scheme \<Rightarrow> (bool \<times> 'a tty_state_scheme) outcome" where
  "push_frame rd frame i sig s =
     (let action = actions (proc_sighand (proc s i)) sig; tf = trapframe (proc s i);
          old_sp = load64 (mem s) (tf_sp tf);
          frame_sp = (old_sp - SIGFRAME_SIZE) AND NOT 0xF;
          s = s\<lparr>mem := memmove (mem s) frame tf 256\<rparr>;
          s = s\<lparr>mem := store64 (mem s) (frame + 256) (sig_blocked (proc_sighand (proc s i)))\<rparr>
      in bnd (in_kern (copyout rd (pagetable (proc s i)) frame_sp frame 264) s) (\<lambda>(r, s).
         if r < 0 then Ok (False, s)
         else
           let s = set_sighand i (\<lambda>h. h\<lparr>sig_pending := sig_pending h AND NOT (SIGMASK sig)\<rparr>) s;
               m = store64 (mem s) (tf_sp tf) frame_sp;
               m = store64 m (tf_epc tf) (sa_handler action);
               m = store64 m (tf_a0 tf) (of_nat sig);
               s = s\<lparr>mem := m\<rparr>;
               s = set_sighand i (\<lambda>h. h\<lparr>sig_blocked := sig_blocked h OR sa_mask action OR SIGMASK sig\<rparr>) s
           in Ok (True, s\<lparr>mem := store64 (mem s) tf (sa_restorer action)\<rparr>)))"

text \<open>\<open>ready &= (ready - 1)\<close>.\<close>

definition clear_lowest :: "u64 \<Rightarrow> u64" where
  "clear_lowest v = v AND (v - 1)"

lemma clear_lowest_less: "v \<noteq> 0 \<Longrightarrow> unat (clear_lowest v) < unat v"
proof -
  assume "v \<noteq> 0"
  then have a: "unat (v - 1) < unat v" using unat_minus_one [of v] unat_gt_0 [of v] by (metis diff_less zero_less_one)
  have b: "unat (v AND (v - 1)) \<le> unat (v - 1)" using word_and_le1 [of v "v - 1"] by (simp only: word_le_nat_alt)
  show ?thesis unfolding clear_lowest_def using b a by (rule le_less_trans)
qed

function deliver ::
  "kern read_at \<Rightarrow> 'a tty_state_scheme vfs_tables \<Rightarrow> u64 \<Rightarrow> nat \<Rightarrow> u64 \<Rightarrow> 'a tty_state_scheme \<Rightarrow>
    (int option \<times> 'a tty_state_scheme) outcome" where
  "deliver rd ops frame i ready s =
     (if ready = 0 then bnd (release (ProcLock i) s) (\<lambda>s. Ok (None, s))
      else
        let sig = lowest_set_bit ready + 1;
            rest = clear_lowest ready
        in if sig \<ge> NSIG then Fault ''check_signal: index out of range''
           else
             let handler = sa_handler (actions (proc_sighand (proc s i)) sig) in
             if handler = SIG_IGN then
               deliver rd ops frame i rest (set_sighand i (\<lambda>h. h\<lparr>sig_pending := sig_pending h AND NOT (SIGMASK sig)\<rparr>) s)
             else if handler = SIG_DFL then
               let s = set_sighand i (\<lambda>h. h\<lparr>sig_pending := sig_pending h AND NOT (SIGMASK sig)\<rparr>) s in
               bnd (release (ProcLock i) s) (\<lambda>s. bnd (exit ops (128 + int sig) s) (\<lambda>s. Ok (Some (128 + int sig), s)))
             else if sa_restorer (actions (proc_sighand (proc s i)) sig) = 0 then
               bnd (release (ProcLock i) s) (\<lambda>s. Ok (None, s))
             else
               bnd (push_frame rd frame i sig s) (\<lambda>(done, s).
               if done then deliver rd ops frame i rest s
               else bnd (release (ProcLock i) s) (\<lambda>s. Ok (None, s))))"
  by pat_completeness auto
termination
  by (relation "measure (\<lambda>(rd, ops, frame, i, ready, s). unat ready)")
    (simp_all only: wf_measure in_measure prod.case clear_lowest_less simp_thms)

definition check_signal ::
  "kern read_at \<Rightarrow> 'a tty_state_scheme vfs_tables \<Rightarrow> u64 \<Rightarrow> nat \<Rightarrow> 'a tty_state_scheme \<Rightarrow>
    (int option \<times> 'a tty_state_scheme) outcome" where
  "check_signal rd ops frame i s =
     bnd (acquire (ProcLock i) s) (\<lambda>s.
     let forced = sig_pending (proc_sighand (proc s i)) AND (SIGMASK SIGKILL OR SIGMASK SIGSTOP) in
     if forced \<noteq> 0 then
       let sig = (if forced AND SIGMASK SIGKILL \<noteq> 0 then SIGKILL else SIGSTOP) in
       bnd (release (ProcLock i) s) (\<lambda>s. bnd (exit ops (128 + int sig) s) (\<lambda>s. Ok (Some (128 + int sig), s)))
     else
       let ready = sig_pending (proc_sighand (proc s i)) AND NOT (sig_blocked (proc_sighand (proc s i)))
       in deliver rd ops frame i ready s)"

end
