(* ===== verification/Pipe.thy ===== *)
theory Pipe
  imports File Example
begin

text \<open>
  Pipes are byte streams: every sequence of \<open>pipe_read\<close> and \<open>pipe_write\<close> calls, by any processes and
  with any sleeping in between, delivers the bytes in the order in which they were written, without
  loss or duplication, although the counters of the ring buffer wrap around.
\<close>

section \<open>The ring buffer\<close>

definition pipe_data :: "pipe \<Rightarrow> u8 list" where
  "pipe_data p = map (\<lambda>k. pbuf p ((unat (nread p) + k) mod PIPE_BUF_SIZE)) [0..<unat (nwrite p - nread p)]"

definition pipe_ok :: "pipe \<Rightarrow> bool" where
  "pipe_ok p \<longleftrightarrow> nwrite p - nread p \<le> 512"

lemma length_pipe_data [simp]: "length (pipe_data p) = unat (nwrite p - nread p)"
  by (simp add: pipe_data_def)

lemma pipe_data_empty: "pipe_data p = [] \<longleftrightarrow> nread p = nwrite p"
  by (auto simp: pipe_data_def unat_eq_0)

lemma unat_wrap: "(unat (x + 1 :: u32) + k) mod PIPE_BUF_SIZE = (unat x + Suc k) mod PIPE_BUF_SIZE"
proof -
  have "unat (x + 1) mod PIPE_BUF_SIZE = (unat x + 1) mod PIPE_BUF_SIZE"
    by (simp add: unat_word_ariths mod_mod_cancel)
  then have "(unat (x + 1) mod PIPE_BUF_SIZE + k) mod PIPE_BUF_SIZE = ((unat x + 1) mod PIPE_BUF_SIZE + k) mod PIPE_BUF_SIZE" by simp
  then show ?thesis by (simp add: mod_simps)
qed

lemma pipe_get:
  assumes "pipe_ok p" "nread p \<noteq> nwrite p"
  shows "pipe_data p = pbuf p (unat (nread p) mod PIPE_BUF_SIZE) # pipe_data (p\<lparr>nread := nread p + 1\<rparr>)"
    and "pipe_ok (p\<lparr>nread := nread p + 1\<rparr>)"
proof -
  have d: "nwrite p - nread p \<noteq> 0" using assms(2) by simp
  then have u: "unat (nwrite p - nread p) = Suc (unat (nwrite p - (nread p + 1)))"
    using unat_minus_one [OF d] unat_gt_0 [of "nwrite p - nread p"] by (simp add: algebra_simps)
  show "pipe_data p = pbuf p (unat (nread p) mod PIPE_BUF_SIZE) # pipe_data (p\<lparr>nread := nread p + 1\<rparr>)"
    unfolding pipe_data_def u upt_rec [of 0 "Suc _"] map_Suc_upt [symmetric] by (simp add: unat_wrap)
  show "pipe_ok (p\<lparr>nread := nread p + 1\<rparr>)"
    using assms(1) u by (simp add: pipe_ok_def word_le_nat_alt)
qed

definition pipe_put :: "u8 \<Rightarrow> pipe \<Rightarrow> pipe" where
  "pipe_put c p = p\<lparr>pbuf := (pbuf p)(unat (nwrite p) mod PIPE_BUF_SIZE := c), nwrite := nwrite p + 1\<rparr>"

lemma pipe_put:
  assumes "\<not> nwrite p - nread p \<ge> 512"
  shows "pipe_data (pipe_put c p) = pipe_data p @ [c]" "pipe_ok (pipe_put c p)"
proof -
  let ?n = "unat (nwrite p - nread p)"
  have n: "?n < PIPE_BUF_SIZE" using assms by (simp add: word_le_nat_alt)
  have "nwrite p + 1 - nread p = (nwrite p - nread p) + 1" by (simp add: algebra_simps)
  moreover have "unat ((nwrite p - nread p) + 1) = Suc ?n"
    using n by (simp add: unat_word_ariths)
  ultimately have u: "unat (nwrite p + 1 - nread p) = Suc ?n" by (simp only:)
  have w: "unat (nwrite p) mod PIPE_BUF_SIZE = (unat (nread p) + ?n) mod PIPE_BUF_SIZE"
  proof -
    have "nwrite p = nread p + (nwrite p - nread p)" by simp
    then have "unat (nwrite p) = unat (nread p + (nwrite p - nread p))" by (simp only:)
    also have "\<dots> = (unat (nread p) + ?n) mod 2 ^ 32" by (subst unat_word_ariths) simp
    finally have "unat (nwrite p) = (unat (nread p) + ?n) mod 2 ^ 32" .
    then show ?thesis by (simp add: mod_mod_cancel)
  qed
  have ne: "(unat (nread p) + k) mod PIPE_BUF_SIZE \<noteq> (unat (nread p) + ?n) mod PIPE_BUF_SIZE" if "k < ?n" for k
  proof
    assume "(unat (nread p) + k) mod PIPE_BUF_SIZE = (unat (nread p) + ?n) mod PIPE_BUF_SIZE"
    then have "PIPE_BUF_SIZE dvd (?n - k)" using that mod_eq_dvd_iff_nat [of "unat (nread p) + k" "unat (nread p) + ?n" PIPE_BUF_SIZE] by simp
    then show False using that n by (auto dest: dvd_imp_le)
  qed
  show "pipe_data (pipe_put c p) = pipe_data p @ [c]"
    unfolding pipe_data_def pipe_put_def using ne by (simp add: u w)
  show "pipe_ok (pipe_put c p)" using n by (simp add: pipe_ok_def pipe_put_def word_le_nat_alt u)
qed

section \<open>What the calls transfer\<close>

text \<open>The bytes that the loop of \<open>pipe_read\<close> hands to \<open>copyout\<close> with success.\<close>

fun read_trace :: "kern read_at \<Rightarrow> u64 \<Rightarrow> u64 \<Rightarrow> u64 \<Rightarrow> nat \<Rightarrow> nat \<Rightarrow> 'a file_state_scheme \<Rightarrow> u8 list" where
  "read_trace rd ch pi buffer 0 i s = []"
| "read_trace rd ch pi buffer (Suc n) i s =
     (if nread (pipes s pi) = nwrite (pipes s pi) then []
      else
        let c = pbuf (pipes s pi) (unat (nread (pipes s pi)) mod PIPE_BUF_SIZE); s = s\<lparr>mem := (mem s)(ch := c)\<rparr> in
        case in_kern (copyout rd (pagetable (get_proc s)) (buffer + of_nat i) ch 1) s of
          Ok (r, s) \<Rightarrow>
            if r < 0 then []
            else c # read_trace rd ch pi buffer n (i + 1) (upd_pipe pi (\<lambda>p. p\<lparr>nread := nread p + 1\<rparr>) s)
        | _ \<Rightarrow> [])"

text \<open>The bytes that the loop of \<open>pipe_write\<close> gets from \<open>copyin\<close>.\<close>

fun write_trace :: "kern read_at \<Rightarrow> u64 \<Rightarrow> u64 \<Rightarrow> u64 \<Rightarrow> nat \<Rightarrow> nat \<Rightarrow> 'a file_state_scheme \<Rightarrow> u8 list" where
  "write_trace rd ch pi buffer 0 i s = []"
| "write_trace rd ch pi buffer (Suc n) i s =
     (if \<not> pipe_readable (pipes s pi) \<or> nwrite (pipes s pi) - nread (pipes s pi) \<ge> 512 then []
      else
        case in_kern (copyin rd (pagetable (get_proc s)) ch (buffer + of_nat i) 1) s of
          Ok (r, s) \<Rightarrow>
            if r < 0 then []
            else mem s ch # write_trace rd ch pi buffer n (i + 1) (upd_pipe pi (pipe_put (mem s ch)) s)
        | _ \<Rightarrow> [])"

lemma in_kern_frame:
  assumes "in_kern f s = Ok (r, s')"
  shows "pipes s' = pipes s" "ftable s' = ftable s" "vnodes s' = vnodes s"
proof -
  obtain t where "s' = kern.extend t (kern.more s)" using assms by (auto simp: in_kern_def outcome_simps)
  then show "pipes s' = pipes s" "ftable s' = ftable s" "vnodes s' = vnodes s"
    by (cases s; cases t; simp add: kern.extend_def)+
qed

lemma upd_pipe_simps [simp]: "pipes (upd_pipe pi f s) = (pipes s)(pi := f (pipes s pi))"
  by (simp add: upd_pipe_def)

lemma read_bytes_data:
  assumes "read_bytes rd ch pi buffer n i s = Ok (r, s')" "pipe_ok (pipes s pi)"
  shows "pipe_data (pipes s pi) = read_trace rd ch pi buffer n i s @ pipe_data (pipes s' pi) \<and> pipe_ok (pipes s' pi) \<and>
    length (read_trace rd ch pi buffer n i s) \<le> n \<and>
    r = (if i + length (read_trace rd ch pi buffer n i s) = 0 \<and> n > 0 \<and> pipe_data (pipes s pi) \<noteq> [] then - EFAULT
         else int (i + length (read_trace rd ch pi buffer n i s))) \<and>
    (\<forall>q. q \<noteq> pi \<longrightarrow> pipes s' q = pipes s q) \<and>
    pipe_readable (pipes s' pi) = pipe_readable (pipes s pi) \<and> pipe_writable (pipes s' pi) = pipe_writable (pipes s pi)"
  using assms
proof (induction n arbitrary: i s)
  case 0
  then show ?case by simp
next
  case (Suc n)
  show ?case
  proof (cases "nread (pipes s pi) = nwrite (pipes s pi)")
    case True
    then show ?thesis using Suc.prems by (simp add: pipe_data_empty)
  next
    case False
    define c where "c = pbuf (pipes s pi) (unat (nread (pipes s pi)) mod PIPE_BUF_SIZE)"
    define s0 where "s0 = s\<lparr>mem := (mem s)(ch := c)\<rparr>"
    from Suc.prems(1) False obtain q s1 where k: "in_kern (copyout rd (pagetable (get_proc s0)) (buffer + of_nat i) ch 1) s0 = Ok (q, s1)"
      and r: "(if q < 0 then Ok (if i = 0 then - EFAULT else int i, s1)
         else read_bytes rd ch pi buffer n (i + 1) (upd_pipe pi (\<lambda>p. p\<lparr>nread := nread p + 1\<rparr>) s1)) = Ok (r, s')"
      by (auto simp: Let_def c_def s0_def outcome_simps)
    have p: "pipes s1 = pipes s" using in_kern_frame(1) [OF k] by (simp add: s0_def)
    define s2 where "s2 = upd_pipe pi (\<lambda>p. p\<lparr>nread := nread p + 1\<rparr>) s1"
    have t: "read_trace rd ch pi buffer (Suc n) i s = (if q < 0 then [] else c # read_trace rd ch pi buffer n (i + 1) s2)"
      using False k by (simp add: Let_def c_def [symmetric] s0_def [symmetric] s2_def)
    note G = pipe_get [OF Suc.prems(2) False, folded c_def]
    show ?thesis
    proof (cases "q < 0")
      case True
      then show ?thesis using r t p Suc.prems(2) False by (auto simp: pipe_data_empty)
    next
      case q: False
      have s2: "pipes s2 pi = (pipes s pi)\<lparr>nread := nread (pipes s pi) + 1\<rparr>" "pipes s2 = (pipes s)(pi := pipes s2 pi)"
        by (simp_all add: s2_def p)
      have "read_bytes rd ch pi buffer n (i + 1) s2 = Ok (r, s')" using r q by (simp add: s2_def)
      from Suc.IH [OF this] G(2) s2(1) have "pipe_data (pipes s2 pi) = read_trace rd ch pi buffer n (i + 1) s2 @ pipe_data (pipes s' pi)"
        "pipe_ok (pipes s' pi)" "length (read_trace rd ch pi buffer n (i + 1) s2) \<le> n"
        "r = int (i + 1 + length (read_trace rd ch pi buffer n (i + 1) s2))"
        "\<forall>q. q \<noteq> pi \<longrightarrow> pipes s' q = pipes s2 q" "pipe_readable (pipes s' pi) = pipe_readable (pipes s2 pi)"
        "pipe_writable (pipes s' pi) = pipe_writable (pipes s2 pi)" by simp_all
      then show ?thesis using t q G(1) s2 by simp
    qed
  qed
qed

lemma for_each_preserves:
  assumes "for_each f xs s = Ok (r, s')" "\<And>x t r t'. f x t = Ok (r, t') \<Longrightarrow> g t' = g t"
  shows "g s' = g s"
  using assms(1)
proof (induction xs arbitrary: s)
  case (Cons x xs)
  then show ?case using assms(2) [of x s] by (auto simp: outcome_simps split: option.splits)
qed simp

lemma acquire_pipes: "acquire l s = Ok s' \<Longrightarrow> pipes s' = pipes s"
  by (auto simp: acquire_def split: if_splits)

lemma release_pipes: "release l s = Ok s' \<Longrightarrow> pipes s' = pipes s"
  by (auto simp: release_def split: if_splits)

lemma upd_proc_pipes [simp]: "pipes (upd_proc i f s) = pipes s"
  by (simp add: upd_proc_def)

lemma wakeup_pipes: "wakeup c s = Ok s' \<Longrightarrow> pipes s' = pipes s"
proof -
  assume "wakeup c s = Ok s'"
  then obtain r where "for_each (\<lambda>i s. bnd (wakeup_one c i s) (\<lambda>s. Ok (None :: unit option, s))) [0..<NPROC] s = Ok (r, s')"
    by (auto simp: wakeup_def outcome_simps)
  then show ?thesis
    by (rule for_each_preserves) (auto simp: wakeup_one_def outcome_simps Let_def dest!: acquire_pipes release_pipes split: if_splits)
qed

lemma sleep_begin_pipes: "sleep_begin c l s = Ok s' \<Longrightarrow> pipes s' = pipes s"
  by (auto simp: sleep_begin_def switch_away_def sched_def outcome_simps Let_def dest!: acquire_pipes release_pipes split: if_splits)

lemma sleep_end_pipes: "sleep_end l s = Ok s' \<Longrightarrow> pipes s' = pipes s"
  by (auto simp: sleep_end_def outcome_simps Let_def dest!: acquire_pipes release_pipes split: if_splits)

lemma write_bytes_data:
  assumes "write_bytes rd ch pi buffer n i s = Ok (b, j, s')" "pipe_ok (pipes s pi)"
  shows "pipe_data (pipes s' pi) = pipe_data (pipes s pi) @ write_trace rd ch pi buffer n i s \<and> pipe_ok (pipes s' pi) \<and>
    j = i + length (write_trace rd ch pi buffer n i s) \<and> j \<le> i + n \<and>
    (case b of Sleeping \<Rightarrow> j < i + n \<and> length (pipe_data (pipes s' pi)) = PIPE_BUF_SIZE
     | Done r \<Rightarrow> r = int j \<or> j = 0 \<and> r = (if pipe_readable (pipes s pi) then - EFAULT else - EPIPE)) \<and>
    (\<forall>q. q \<noteq> pi \<longrightarrow> pipes s' q = pipes s q) \<and>
    pipe_readable (pipes s' pi) = pipe_readable (pipes s pi) \<and> pipe_writable (pipes s' pi) = pipe_writable (pipes s pi)"
  using assms
proof (induction n arbitrary: i s)
  case 0
  then show ?case by (auto simp: pipe_write_end_def outcome_simps dest!: wakeup_pipes release_pipes)
next
  case (Suc n)
  consider (closed) "\<not> pipe_readable (pipes s pi)"
    | (full) "pipe_readable (pipes s pi)" "nwrite (pipes s pi) - nread (pipes s pi) \<ge> 512"
    | (room) "pipe_readable (pipes s pi)" "\<not> nwrite (pipes s pi) - nread (pipes s pi) \<ge> 512" by blast
  then show ?case
  proof cases
    case closed
    then show ?thesis using Suc.prems by (auto simp: outcome_simps dest!: release_pipes)
  next
    case full
    then have "unat (nwrite (pipes s pi) - nread (pipes s pi)) = PIPE_BUF_SIZE"
      using Suc.prems(2) by (simp add: pipe_ok_def word_le_nat_alt)
    then show ?thesis using Suc.prems full by (auto simp: outcome_simps dest!: wakeup_pipes sleep_begin_pipes)
  next
    case room
    from Suc.prems(1) room obtain q s1 where k: "in_kern (copyin rd (pagetable (get_proc s)) ch (buffer + of_nat i) 1) s = Ok (q, s1)"
      and w: "(if q < 0 then pipe_write_end pi (if i = 0 then - EFAULT else int i) i s1
        else write_bytes rd ch pi buffer n (i + 1) (upd_pipe pi (pipe_put (mem s1 ch)) s1)) = Ok (b, j, s')"
      by (auto simp: Let_def outcome_simps pipe_put_def [abs_def] cong: if_cong)
    have p: "pipes s1 = pipes s" using in_kern_frame(1) [OF k] .
    define s2 where "s2 = upd_pipe pi (pipe_put (mem s1 ch)) s1"
    have t: "write_trace rd ch pi buffer (Suc n) i s = (if q < 0 then [] else mem s1 ch # write_trace rd ch pi buffer n (i + 1) s2)"
      using room k by (simp add: s2_def)
    note P = pipe_put [OF room(2)]
    have s2: "pipes s2 pi = pipe_put (mem s1 ch) (pipes s pi)" "\<And>q. q \<noteq> pi \<Longrightarrow> pipes s2 q = pipes s q"
      "pipe_readable (pipes s2 pi) = pipe_readable (pipes s pi)" "pipe_writable (pipes s2 pi) = pipe_writable (pipes s pi)"
      by (simp_all add: s2_def p pipe_put_def)
    show ?thesis
    proof (cases "q < 0")
      case True
      then show ?thesis using w t p Suc.prems(2) room
        by (auto simp: pipe_write_end_def outcome_simps dest!: wakeup_pipes release_pipes)
    next
      case False
      then have "write_bytes rd ch pi buffer n (i + 1) s2 = Ok (b, j, s')" using w by (simp add: s2_def)
      from Suc.IH [OF this] P(2) [of "mem s1 ch"] s2(1) have "pipe_data (pipes s' pi) = pipe_data (pipes s2 pi) @ write_trace rd ch pi buffer n (i + 1) s2"
        "pipe_ok (pipes s' pi)" "j = i + 1 + length (write_trace rd ch pi buffer n (i + 1) s2)" "j \<le> i + 1 + n"
        "case b of Sleeping \<Rightarrow> j < i + 1 + n \<and> length (pipe_data (pipes s' pi)) = PIPE_BUF_SIZE | Done r \<Rightarrow> r = int j \<or> j = 0 \<and> r = (if pipe_readable (pipes s2 pi) then - EFAULT else - EPIPE)"
        "\<forall>q. q \<noteq> pi \<longrightarrow> pipes s' q = pipes s2 q" "pipe_readable (pipes s' pi) = pipe_readable (pipes s2 pi)"
        "pipe_writable (pipes s' pi) = pipe_writable (pipes s2 pi)" by (simp_all del: length_pipe_data)
      then show ?thesis using t False P(1) [of "mem s1 ch"] s2 by (simp del: length_pipe_data split: blocking.splits)
    qed
  qed
qed

section \<open>Streams\<close>

text \<open>
  A run of a stream: calls that put bytes in and calls that take bytes out, with all the bytes that
  went in and all that came out.
\<close>

inductive stream_run :: "('s \<Rightarrow> 'b list \<Rightarrow> 's \<Rightarrow> bool) \<Rightarrow> ('s \<Rightarrow> 'b list \<Rightarrow> 's \<Rightarrow> bool) \<Rightarrow> 's \<Rightarrow> 'b list \<Rightarrow> 'b list \<Rightarrow> 's \<Rightarrow> bool"
  for takes puts s where
  start: "stream_run takes puts s [] [] s"
| take: "stream_run takes puts s ins outs t \<Longrightarrow> takes t bs u \<Longrightarrow> stream_run takes puts s ins (outs @ bs) u"
| put: "stream_run takes puts s ins outs t \<Longrightarrow> puts t bs u \<Longrightarrow> stream_run takes puts s (ins @ bs) outs u"

locale byte_stream =
  fixes ok :: "'s \<Rightarrow> bool"
    and contents :: "'s \<Rightarrow> 'b list"
    and takes :: "'s \<Rightarrow> 'b list \<Rightarrow> 's \<Rightarrow> bool"
    and puts :: "'s \<Rightarrow> 'b list \<Rightarrow> 's \<Rightarrow> bool"
  assumes takes: "ok s \<Longrightarrow> takes s bs t \<Longrightarrow> ok t \<and> contents s = bs @ contents t"
    and puts: "ok s \<Longrightarrow> puts s bs t \<Longrightarrow> ok t \<and> contents t = contents s @ bs"
begin

lemma run_in_order:
  assumes "stream_run takes puts s ins outs t" "ok s"
  shows "ok t \<and> contents s @ ins = outs @ contents t"
  using assms
proof (induction rule: stream_run.induct)
  case (take ins outs t bs u)
  then show ?case using takes [of t bs u] by simp
next
  case (put ins outs t bs u)
  then show ?case using puts [of t bs u] by (metis append_assoc)
qed simp

end

text \<open>
  The calls of pipe.c as such steps. Taking: \<open>pipe_read\<close>, or its continuation after a sleep, from the
  point where it holds the lock; and correspondingly for putting.
\<close>

definition pipe_takes :: "u64 \<Rightarrow> 'a file_state_scheme \<Rightarrow> u8 list \<Rightarrow> 'a file_state_scheme \<Rightarrow> bool" where
  "pipe_takes pi s bs t \<longleftrightarrow> (\<exists>rd ch buffer sz b l.
     pipe_read rd ch pi buffer sz s = Ok (b, t) \<and> acquire (PipeLock pi) s = Ok l \<and>
       bs = (if b = Sleeping then [] else read_trace rd ch pi buffer (unat sz) 0 l) \<or>
     pipe_read_resume rd ch pi buffer sz s = Ok (b, t) \<and> sleep_end (PipeLock pi) s = Ok l \<and>
       bs = (if b = Sleeping then [] else read_trace rd ch pi buffer (unat sz) 0 l))"

definition pipe_puts :: "u64 \<Rightarrow> 'a file_state_scheme \<Rightarrow> u8 list \<Rightarrow> 'a file_state_scheme \<Rightarrow> bool" where
  "pipe_puts pi s bs t \<longleftrightarrow> (\<exists>rd ch buffer sz i b j l.
     pipe_write rd ch pi buffer sz s = Ok (b, j, t) \<and> acquire (PipeLock pi) s = Ok l \<and>
       bs = write_trace rd ch pi buffer (unat sz) 0 l \<or>
     pipe_write_resume rd ch pi buffer sz i s = Ok (b, j, t) \<and> sleep_end (PipeLock pi) s = Ok l \<and>
       bs = write_trace rd ch pi buffer (unat sz - i) i l)"

lemma pipe_read_locked_data:
  assumes "pipe_read_locked rd ch pi buffer sz l = Ok (b, t)" "pipe_ok (pipes l pi)"
  shows "pipe_ok (pipes t pi) \<and> pipe_data (pipes l pi) = (if b = Sleeping then [] else read_trace rd ch pi buffer (unat sz) 0 l) @ pipe_data (pipes t pi)"
proof (cases "nread (pipes l pi) = nwrite (pipes l pi) \<and> pipe_writable (pipes l pi)")
  case True
  then show ?thesis using assms by (auto simp: pipe_read_locked_def outcome_simps dest!: sleep_begin_pipes)
next
  case False
  then obtain i u where "read_bytes rd ch pi buffer (unat sz) 0 l = Ok (i, u)" "pipes t = pipes u" "b = Done i"
    using assms(1) by (auto simp: pipe_read_locked_def outcome_simps dest!: wakeup_pipes release_pipes)
  then show ?thesis using read_bytes_data [of rd ch pi buffer "unat sz" 0 l i u] assms(2) by simp
qed

interpretation ps: byte_stream "\<lambda>s. pipe_ok (pipes s pi)" "\<lambda>s. pipe_data (pipes s pi)" "pipe_takes pi" "pipe_puts pi"
proof unfold_locales
  fix s :: "'a file_state_scheme" and bs t
  assume ok: "pipe_ok (pipes s pi)" and "pipe_takes pi s bs t"
  then obtain rd ch buffer sz b l where
    "pipe_read rd ch pi buffer sz s = Ok (b, t) \<and> acquire (PipeLock pi) s = Ok l \<or>
     pipe_read_resume rd ch pi buffer sz s = Ok (b, t) \<and> sleep_end (PipeLock pi) s = Ok l"
    and bs: "bs = (if b = Sleeping then [] else read_trace rd ch pi buffer (unat sz) 0 l)" unfolding pipe_takes_def by blast
  then consider (zero) "sz = 0" "t = s" "b = Done 0" | (locked) "pipe_read_locked rd ch pi buffer sz l = Ok (b, t)" "pipes l = pipes s"
  proof (elim disjE conjE, goal_cases)
    case 1
    then show thesis using acquire_pipes [of "PipeLock pi" s l] by (cases "sz = 0") (simp_all add: pipe_read_def)
  next
    case 2
    then show thesis using sleep_end_pipes [of "PipeLock pi" s l] by (simp add: pipe_read_resume_def)
  qed
  then show "pipe_ok (pipes t pi) \<and> pipe_data (pipes s pi) = bs @ pipe_data (pipes t pi)"
  proof cases
    case zero
    then show ?thesis using ok bs by simp
  next
    case locked
    then show ?thesis using pipe_read_locked_data [OF locked(1)] ok bs by simp
  qed
next
  fix s :: "'a file_state_scheme" and bs t
  assume ok: "pipe_ok (pipes s pi)" and "pipe_puts pi s bs t"
  then obtain rd ch buffer n i b j l where w: "write_bytes rd ch pi buffer n i l = Ok (b, j, t)" "pipes l = pipes s"
    "bs = write_trace rd ch pi buffer n i l"
    unfolding pipe_puts_def
  proof (elim exE disjE conjE, goal_cases)
    case (1 rd ch buffer sz i b j l)
    then show thesis using acquire_pipes [of "PipeLock pi" s l] by (intro 1(1) [of rd ch buffer "unat sz" 0 l b j]) (simp_all add: pipe_write_def)
  next
    case (2 rd ch buffer sz i b j l)
    then show thesis using sleep_end_pipes [of "PipeLock pi" s l]
      by (intro 2(1) [of rd ch buffer "unat sz - i" i l b j]) (simp_all add: pipe_write_resume_def)
  qed
  then show "pipe_ok (pipes t pi) \<and> pipe_data (pipes t pi) = pipe_data (pipes s pi) @ bs"
    using write_bytes_data [OF w(1)] ok by simp
qed


text \<open>One byte of the first user page of the example, written into an empty pipe.\<close>

definition pipe_ex :: file_state where
  "pipe_ex = (kern.extend ex (kern.more (undefined :: file_state)))\<lparr>pipes := \<lambda>_. \<lparr>pbuf = \<lambda>_. 0, nread = 0xFFFFFFFF,
     nwrite = 0xFFFFFFFF, pipe_readable = True, pipe_writable = True\<rparr>\<rparr>"

lemma copyin_ex:
  assumes "mem k = ex_mem" "\<not> early_mode k"
  shows "copyin rd ex_r1 ch 0 1 k = Ok (0, k\<lparr>mem := memmove ex_mem ch ex_p 1\<rparr>)"
proof -
  have v: "vpath 0 = [0, 0]" "vpn 0 0 = 0" by (simp_all add: vpath_def vpn_def VPN_GET_def)
  have "table ex_mem ex_r1 [0, 0] = Some ex_t0" using ex_table(1) [of "[0, 0]"] by (simp add: upath_def)
  then have w: "walk ex_r1 0 False k = Ok (slot ex_t0 0, k)"
    using walk_False [OF assms(2), of ex_r1 0] unfolding v assms(1) by (simp del: table.simps)
  have l: "load64 ex_mem (slot ex_t0 0) = ex_leaf" using ex_load [of ex_t0 0] by simp
  have nz: "slot ex_t0 0 \<noteq> 0" by (simp add: slot_def)
  have e: "ex_leaf AND PTE_V \<noteq> 0" "ex_leaf AND PTE_U \<noteq> 0" "PA2VA (PTE2PA ex_leaf) = ex_p"
    by (simp_all add: ex_leaf_def PA2PTE_def VA2PA_def PTE2PA_def PA2VA_def)
  have f: "fault_in rd ex_r1 0 k = Ok (Some (slot ex_t0 0), k)"
    unfolding fault_in_def w by (simp add: assms(1) l nz e)
  have z: "PGROUNDDOWN 0 = 0" by (simp add: PGROUNDDOWN_def ALIGN_DOWN_def)
  show ?thesis unfolding copyin.simps [of rd ex_r1 ch 0 1 k] z
    by (simp add: f assms(1) l e nz Let_def copyin.simps [of rd ex_r1 _ _ 0])
qed

lemma in_kern_ex:
  assumes "kern.truncate s = k" "f k = Ok (r, k\<lparr>mem := m\<rparr>)"
  shows "in_kern f s = Ok (r, s\<lparr>mem := m\<rparr>)"
  using assms by (cases s) (auto simp: in_kern_def kern.truncate_def kern.extend_def)


end
