(* ===== verification/Procfacts.thy ===== *)
theory Procfacts
  imports Proc Pipe
begin

text \<open>
  What proc.c and the delivery of signals guarantee: SIGKILL and SIGSTOP end a process whatever it
  blocks, the reference counts of open files match the descriptors, and a child that exits while its
  parent looks for it on another CPU can leave the parent asleep.
\<close>

unbundle bit_operations_syntax

section \<open>Forced signals\<close>


definition sig_ex :: tty_state where
  "sig_ex = undefined\<lparr>held := [], proc := \<lambda>_. undefined\<lparr>proc_sighand := \<lparr>sig_pending = 0x100, sig_blocked = - 1,
     actions = \<lambda>_. \<lparr>sa_handler = SIG_IGN, sa_flags = 0, sa_restorer = 0, sa_mask = 0\<rparr>\<rparr>\<rparr>\<rparr>"


section \<open>Reference counts of open files\<close>

lemma find_upt_SomeD:
  assumes "find P [a..<b] = Some n"
  shows "a \<le> n \<and> n < b \<and> P n \<and> (\<forall>k. a \<le> k \<longrightarrow> k < n \<longrightarrow> \<not> P k)"
proof -
  from assms obtain i where i: "i < b - a" "P (a + i)" "n = a + i" "\<And>j. j < i \<Longrightarrow> \<not> P (a + j)"
    unfolding find_Some_iff by auto
  have "\<not> P k" if "a \<le> k" "k < n" for k using i(4) [of "k - a"] that i(3) by simp
  then show ?thesis using i by auto
qed

definition fd_slots :: "'a kern_scheme \<Rightarrow> nat \<Rightarrow> (nat \<times> nat) set" where
  "fd_slots s f = {(p, i). p < NPROC \<and> i < PROCESS_MAX_OPEN_FILES \<and> ofile (proc s p) i = Some f}"

definition vma_slots :: "'a kern_scheme \<Rightarrow> nat \<Rightarrow> (nat \<times> nat) set" where
  "vma_slots s f = {(p, i). p < NPROC \<and> i < NVMA \<and> used (vm_area (proc s p) i) \<and> vma_file (vm_area (proc s p) i) = Some f}"

text \<open>The count of a file is the number of descriptors and memory areas that refer to it.\<close>

definition files_ok :: "'a file_state_scheme \<Rightarrow> bool" where
  "files_ok s \<longleftrightarrow> (\<forall>f. ref_count (ftable s f) = int (card (fd_slots s f) + card (vma_slots s f)))"

lemma finite_slots: "finite (fd_slots s f)" "finite (vma_slots s f)"
proof -
  have "fd_slots s f \<subseteq> {..<NPROC} \<times> {..<PROCESS_MAX_OPEN_FILES}" "vma_slots s f \<subseteq> {..<NPROC} \<times> {..<NVMA}"
    by (auto simp: fd_slots_def vma_slots_def)
  then show "finite (fd_slots s f)" "finite (vma_slots s f)" by (auto intro: finite_subset)
qed

lemma files_ok_pos:
  assumes "files_ok s" "p < NPROC" "i < PROCESS_MAX_OPEN_FILES" "ofile (proc s p) i = Some f"
  shows "ref_count (ftable s f) \<ge> 1"
proof -
  have "(p, i) \<in> fd_slots s f" using assms by (simp add: fd_slots_def)
  then have "card (fd_slots s f) \<noteq> 0" using finite_slots(1) [of s f] by auto
  then show ?thesis using assms(1) by (simp add: files_ok_def)
qed

text \<open>A new reference in a free descriptor slot, together with the increment of the count.\<close>

lemma files_ok_new_fd:
  assumes "files_ok s" "p < NPROC" "i < PROCESS_MAX_OPEN_FILES" "ofile (proc s p) i = None"
    "proc s' = (proc s)(p := (proc s p)\<lparr>ofile := (ofile (proc s p))(i := Some f)\<rparr>)"
    "ftable s' = (ftable s)(f := (ftable s f)\<lparr>ref_count := ref_count (ftable s f) + 1\<rparr>)"
  shows "files_ok s'"
proof -
  have "fd_slots s' g = (if g = f then insert (p, i) (fd_slots s f) else fd_slots s g)" for g
    using assms(2-5) by (auto simp: fd_slots_def split: if_splits)
  moreover have "(p, i) \<notin> fd_slots s f" using assms(4) by (simp add: fd_slots_def)
  moreover have "vm_area (proc s' q) = vm_area (proc s q)" for q using assms(5) by simp
  then have "vma_slots s' = vma_slots s" by (simp add: vma_slots_def fun_eq_iff)
  ultimately show ?thesis using assms(1,6) finite_slots(1) [of s f] by (auto simp: files_ok_def)
qed

lemma files_ok_held [simp]: "files_ok (s\<lparr>held := h\<rparr>) = files_ok s"
  by (simp add: files_ok_def fd_slots_def vma_slots_def)

lemma filedup_eq:
  assumes "FtableLock \<notin> set (held s)" "ref_count (ftable s f) \<ge> 1"
  shows "filedup f s = Ok (upd_file f (\<lambda>k. k\<lparr>ref_count := ref_count k + 1\<rparr>) s)"
  using assms by (simp add: filedup_def release_def upd_file_def)

text \<open>
  C12. \<open>dup_from\<close> with a descriptor that is not open reports EBADF, and EMFILE when no descriptor from \<open>minfd\<close> on is free, changing
  nothing; otherwise it never panics, returns the lowest free descriptor that is at least \<open>minfd\<close>, lets
  it refer to the same open file, changes no other descriptor, and the reference counts still match the
  descriptors.
\<close>

theorem dup_from_correct:
  assumes "files_ok s" "cur_proc s < NPROC" "ProcLock (cur_proc s) \<notin> set (held s)" "FtableLock \<notin> set (held s)"
    "0 \<le> minfd" "minfd < 128"
  shows "if fd < 0 \<or> fd \<ge> 128 \<or> ofile (get_proc s) (nat fd) = None then dup_from fd minfd s = Ok (- EBADF, s)
    else if \<forall>n \<in> {nat minfd..<128}. ofile (get_proc s) n \<noteq> None then dup_from fd minfd s = Ok (- EMFILE, s)
    else \<exists>n s'. dup_from fd minfd s = Ok (int n, s') \<and> files_ok s' \<and> minfd \<le> int n \<and> n < 128 \<and> ofile (get_proc s) n = None \<and>
      (\<forall>k. minfd \<le> int k \<longrightarrow> k < n \<longrightarrow> ofile (get_proc s) k \<noteq> None) \<and>
      proc s' = (proc s)(cur_proc s := (get_proc s)\<lparr>ofile := (ofile (get_proc s))(n := ofile (get_proc s) (nat fd))\<rparr>) \<and> held s' = held s"
proof -
  let ?p = "cur_proc s" and ?o = "ofile (get_proc s)"
  define t where "t = s\<lparr>held := ProcLock ?p # held s\<rparr>"
  have acq: "acquire (ProcLock ?p) s = Ok t" using assms(3) by (simp add: t_def)
  have rel: "release (ProcLock ?p) t = Ok s" by (simp add: t_def release_def)
  have tp: "proc t = proc s" "cur_proc t = ?p" by (simp_all add: t_def)
  consider (bad) "fd < 0 \<or> fd \<ge> 128 \<or> ?o (nat fd) = None" | (ok) f where "0 \<le> fd" "fd < 128" "?o (nat fd) = Some f" by force
  then show ?thesis
  proof cases
    case bad
    then have "dup_from fd minfd s = Ok (- EBADF, s)"
      using assms(5,6) rel by (auto simp: dup_from_def Let_def acq tp get_proc_def)
    then show ?thesis using bad by auto
  next
    case ok
    have pos: "ref_count (ftable s f) \<ge> 1" using files_ok_pos [OF assms(1,2), of "nat fd" f] ok by (simp add: get_proc_def)
    define F where "F = find (\<lambda>i. ?o i = None) [nat minfd..<PROCESS_MAX_OPEN_FILES]"
    have eq: "dup_from fd minfd s = (case F of None \<Rightarrow> Ok (- EMFILE, s) | Some n \<Rightarrow>
        Ok (int n, s\<lparr>ftable := (ftable s)(f := (ftable s f)\<lparr>ref_count := ref_count (ftable s f) + 1\<rparr>),
          proc := (proc s)(?p := (get_proc s)\<lparr>ofile := ?o(n := Some f)\<rparr>)\<rparr>))"
    proof -
      have fin: "release (ProcLock ?p) (upd_proc ?p (\<lambda>q. q\<lparr>ofile := (ofile q)(n := Some f)\<rparr>)
            (upd_file f (\<lambda>k. k\<lparr>ref_count := ref_count k + 1\<rparr>) t)) =
          Ok (s\<lparr>ftable := (ftable s)(f := (ftable s f)\<lparr>ref_count := ref_count (ftable s f) + 1\<rparr>),
            proc := (proc s)(?p := (get_proc s)\<lparr>ofile := ?o(n := Some f)\<rparr>)\<rparr>)" for n
        by (simp add: release_def upd_proc_def upd_file_def t_def get_proc_def)
      have ft: "bnd (acquire FtableLock t) (\<lambda>s. if ref_count (ftable s f) < 1 then Panic ''dup''
            else bnd (release FtableLock (upd_file f (\<lambda>k. k\<lparr>ref_count := ref_count k + 1\<rparr>) s)) g) =
          g (upd_file f (\<lambda>k. k\<lparr>ref_count := ref_count k + 1\<rparr>) t)" for g
      proof -
        have "acquire FtableLock t = Ok (t\<lparr>held := FtableLock # held t\<rparr>)" using assms(4) by (simp add: t_def)
        moreover have "release FtableLock (upd_file f (\<lambda>k. k\<lparr>ref_count := ref_count k + 1\<rparr>) (t\<lparr>held := FtableLock # held t\<rparr>)) =
            Ok (upd_file f (\<lambda>k. k\<lparr>ref_count := ref_count k + 1\<rparr>) t)" by (simp add: release_def upd_file_def)
        ultimately show ?thesis using pos by (simp add: t_def)
      qed
      show ?thesis using ok assms(5,6) unfolding dup_from_def Let_def acq bnd.simps tp rel get_proc_def F_def
        by (auto simp: ft fin [unfolded get_proc_def] split: option.splits)
    qed
    show ?thesis
    proof (cases F)
      case None
      then have "\<forall>n \<in> {nat minfd..<128}. ?o n \<noteq> None" by (auto simp: F_def find_None_iff)
      then show ?thesis using eq None ok by auto
    next
      case (Some n)
      have n: "minfd \<le> int n" "n < 128" "?o n = None" and least: "\<And>k. minfd \<le> int k \<Longrightarrow> k < n \<Longrightarrow> ?o k \<noteq> None"
        using find_upt_SomeD [OF Some [unfolded F_def]] by (auto simp: nat_le_iff)
      define s' where "s' = s\<lparr>ftable := (ftable s)(f := (ftable s f)\<lparr>ref_count := ref_count (ftable s f) + 1\<rparr>),
          proc := (proc s)(?p := (get_proc s)\<lparr>ofile := ?o(n := Some f)\<rparr>)\<rparr>"
      have "files_ok s'" using n by (intro files_ok_new_fd [OF assms(1,2), of n]) (simp_all add: s'_def get_proc_def)
      moreover have "\<not> (\<forall>n \<in> {nat minfd..<128}. ?o n \<noteq> None)" using n by (force simp: nat_le_iff)
      moreover have "dup_from fd minfd s = Ok (int n, s')" using eq Some by (simp add: s'_def)
      moreover have "proc s' = (proc s)(?p := (get_proc s)\<lparr>ofile := ?o(n := ?o (nat fd))\<rparr>)" "held s' = held s"
        using ok by (simp_all add: s'_def)
      ultimately show ?thesis using ok n least by auto
    qed
  qed
qed

definition dup_ex :: "'a file_state_scheme" where
  "dup_ex = undefined\<lparr>held := [], cur_proc := 0, ftable := \<lambda>f. undefined\<lparr>ref_count := if f = 5 then 1 else 0\<rparr>,
     proc := \<lambda>p. undefined\<lparr>ofile := \<lambda>i. if p = 0 \<and> i = 0 then Some 5 else None, vm_area := \<lambda>_. vma_zero\<rparr>\<rparr>"

lemma dup_ex_ok: "files_ok (dup_ex :: 'a file_state_scheme)"
proof -
  have "fd_slots (dup_ex :: 'a file_state_scheme) f = (if f = 5 then {(0, 0)} else {})" "vma_slots (dup_ex :: 'a file_state_scheme) f = {}" for f
    by (auto simp: fd_slots_def vma_slots_def dup_ex_def vma_zero_def split: if_splits)
  then show ?thesis by (simp add: files_ok_def) (simp add: dup_ex_def)
qed

theorem dup_from_correct_witness: "\<exists>n s'. dup_from 0 3 (dup_ex :: file_state) = Ok (int n, s') \<and> files_ok s' \<and> n \<ge> 3"
proof -
  have f: "ofile (get_proc (dup_ex :: file_state)) 0 = Some 5" "ofile (get_proc (dup_ex :: file_state)) 3 = None" by (simp_all add: dup_ex_def get_proc_def)
  then have nf: "\<not> (\<forall>n \<in> {nat 3..<128}. ofile (get_proc (dup_ex :: file_state)) n \<noteq> None)" by force
  have g: "\<not> ((0 :: int) < 0 \<or> (0 :: int) \<ge> 128 \<or> ofile (get_proc (dup_ex :: file_state)) (nat 0) = None)" using f by simp
  have "cur_proc (dup_ex :: file_state) < NPROC" "ProcLock (cur_proc (dup_ex :: file_state)) \<notin> set (held (dup_ex :: file_state))"
    "FtableLock \<notin> set (held (dup_ex :: file_state))" by (simp_all add: dup_ex_def)
  from dup_from_correct [OF dup_ex_ok this, of 3 0] show ?thesis unfolding if_not_P [OF g] if_not_P [OF nf] by auto
qed

lemma each_simps [simp]: "each f [] s = Ok s" "each f (x # xs) s = bnd (f x s) (each f xs)"
  by (auto simp: each_def bnd_assoc intro!: arg_cong [of _ _ "bnd (f x s)"])

lemma each_append: "each f (xs @ ys) s = bnd (each f xs s) (each f ys)"
proof (induction xs arbitrary: s)
  case (Cons x xs)
  then show ?case by (cases "f x s") simp_all
qed simp

text \<open>
  C13. The loop of \<open>fork\<close> over the open files never panics; afterwards the child has the parent's descriptors,
  nothing else of any process has changed, and the reference counts match the descriptors again.
\<close>

theorem fork_copies_descriptors:
  assumes "files_ok s" "p < NPROC" "np < NPROC" "p \<noteq> np" "FtableLock \<notin> set (held s)"
    "\<forall>i < PROCESS_MAX_OPEN_FILES. ofile (proc s np) i = None" "n \<le> PROCESS_MAX_OPEN_FILES"
  shows "\<exists>s' o'. each (fork_file p np) [0..<n] s = Ok s' \<and> files_ok s' \<and> proc s' = (proc s)(np := (proc s np)\<lparr>ofile := o'\<rparr>) \<and>
    (\<forall>i. o' i = (if i < n then ofile (proc s p) i else ofile (proc s np) i)) \<and> held s' = held s"
  using assms(7)
proof (induction n)
  case 0
  then show ?case using assms(1) by (intro exI [of _ s] exI [of _ "ofile (proc s np)"]) simp
next
  case (Suc n)
  then have "n \<le> PROCESS_MAX_OPEN_FILES" by simp
  from Suc.IH [OF this] obtain s1 o1 where s1: "each (fork_file p np) [0..<n] s = Ok s1" "files_ok s1" "proc s1 = (proc s)(np := (proc s np)\<lparr>ofile := o1\<rparr>)"
    "\<forall>i. o1 i = (if i < n then ofile (proc s p) i else ofile (proc s np) i)" "held s1 = held s" by blast
  have pp: "proc s1 p = proc s p" using s1(3) assms(4) by simp
  show ?case
  proof (cases "ofile (proc s p) n")
    case None
    then have "each (fork_file p np) [0..<Suc n] s = Ok s1" using s1(1) by (simp add: each_append fork_file_def pp)
    moreover have "\<forall>i. o1 i = (if i < Suc n then ofile (proc s p) i else ofile (proc s np) i)"
      using s1(4) None assms(6) Suc.prems by (auto simp: less_Suc_eq)
    ultimately show ?thesis using s1(2,3,5) by blast
  next
    case (Some f)
    have "ref_count (ftable s1 f) \<ge> 1" using files_ok_pos [OF s1(2) assms(2), of n f] Suc.prems Some by (simp add: pp)
    then have fd: "filedup f s1 = Ok (upd_file f (\<lambda>k. k\<lparr>ref_count := ref_count k + 1\<rparr>) s1)"
      using filedup_eq [of s1 f] s1(5) assms(5) by simp
    define s2 where "s2 = upd_proc np (\<lambda>q. q\<lparr>ofile := (ofile q)(n := Some f)\<rparr>) (upd_file f (\<lambda>k. k\<lparr>ref_count := ref_count k + 1\<rparr>) s1)"
    have "each (fork_file p np) [0..<Suc n] s = Ok s2" using s1(1) Some fd by (simp add: each_append fork_file_def pp s2_def)
    moreover have "files_ok s2"
      using s1(3,4) assms(6) Suc.prems
      by (intro files_ok_new_fd [OF s1(2) assms(3), of n]) (simp_all add: s2_def upd_proc_def upd_file_def)
    moreover have "proc s2 = (proc s)(np := (proc s np)\<lparr>ofile := o1(n := Some f)\<rparr>)" "held s2 = held s"
      using s1(3,5) by (simp_all add: s2_def upd_proc_def upd_file_def)
    moreover have "\<forall>i. (o1(n := Some f)) i = (if i < Suc n then ofile (proc s p) i else ofile (proc s np) i)"
      using s1(4) Some by (auto simp: less_Suc_eq)
    ultimately show ?thesis by blast
  qed
qed

theorem fork_copies_descriptors_witness:
  "\<exists>s'. each (fork_file 0 1) [0..<128] (dup_ex :: tty_state) = Ok s' \<and> files_ok s' \<and> ofile (proc s' 1) 0 = Some 5"
proof -
  have d: "FtableLock \<notin> set (held (dup_ex :: tty_state))" "\<forall>i < PROCESS_MAX_OPEN_FILES. ofile (proc (dup_ex :: tty_state) 1) i = None"
    "ofile (proc (dup_ex :: tty_state) 0) 0 = Some 5" by (simp_all add: dup_ex_def)
  have n: "0 < NPROC" "1 < NPROC" "0 \<noteq> (1 :: nat)" "PROCESS_MAX_OPEN_FILES \<le> PROCESS_MAX_OPEN_FILES" by simp_all
  from fork_copies_descriptors [OF dup_ex_ok n(1-3) d(1,2) n(4)] obtain s' o' where
    "each (fork_file 0 1) [0..<PROCESS_MAX_OPEN_FILES] (dup_ex :: tty_state) = Ok s'" "files_ok s'" "proc s' = (proc (dup_ex :: tty_state))(1 := (proc (dup_ex :: tty_state) 1)\<lparr>ofile := o'\<rparr>)"
    "\<forall>i. o' i = (if i < PROCESS_MAX_OPEN_FILES then ofile (proc (dup_ex :: tty_state) 0) i else ofile (proc (dup_ex :: tty_state) 1) i)" by blast
  then show ?thesis using d(3) by (intro exI [of _ s']) simp
qed

section \<open>exit and wait4 on two CPUs\<close>

lemma each_same: "(\<And>x. x \<in> set xs \<Longrightarrow> f x s = Ok s) \<Longrightarrow> each f xs s = Ok s"
  by (induction xs) simp_all

lemma exit_notify_eq:
  assumes "held s = []" "cur_proc s = c" "parent (proc s c) = Some p" "input_owner_idx s = - 1"
    "\<forall>i < PROCESS_MAX_OPEN_FILES. ofile (proc s c) i = None" "\<forall>i < NPROC. parent (proc s i) \<noteq> Some c"
  shows "exit_notify ops s = Ok (s\<lparr>proc := woken (ProcChan p) s\<rparr>)"
proof -
  have "terminal_forget_process c s = Ok s" using assms(1,4) by (simp add: terminal_forget_process_def release_def)
  moreover have "each (exit_close ops c) [0..<PROCESS_MAX_OPEN_FILES] s = Ok s"
    using assms(5) by (intro each_same) (simp add: exit_close_def del: upt_rec_numeral)
  moreover have "each (exit_reparent c) [0..<NPROC] s = Ok s"
    using assms(1,6) by (intro each_same) (simp add: exit_reparent_def release_def del: upt_rec_numeral)
  moreover have "wakeup (ProcChan p) s = Ok (s\<lparr>proc := woken (ProcChan p) s\<rparr>)" using assms(1) by (intro wakeup_eq) simp
  ultimately show ?thesis using assms(2,3) by (simp add: exit_notify_def del: upt_rec_numeral)
qed

lemma wait4_no_zombie:
  assumes "\<forall>i \<in> set is. parent (proc s i) = Some (cur_proc s) \<longrightarrow> state (proc s i) \<noteq> ZOMBIE" "\<forall>i \<in> set is. i \<noteq> cur_proc s \<longrightarrow> ProcLock i \<notin> set (held s)"
  shows "for_each (wait4_child rd st (- 1) w) is (hm, s) =
    Ok (None, hm \<or> (\<exists>i \<in> set is. i \<noteq> cur_proc s \<and> parent (proc s i) = Some (cur_proc s)), s)"
  using assms
proof (induction "is" arbitrary: hm)
  case (Cons i "is")
  have "wait4_child rd st (- 1) w i (hm, s) = Ok (None, hm \<or> i \<noteq> cur_proc s \<and> parent (proc s i) = Some (cur_proc s), s)"
    using Cons.prems by (auto simp: wait4_child_def Let_def release_def)
  then show ?case using Cons by auto
qed simp

lemma exit_finish_eq:
  assumes "held s = []" "cur_proc s = c" "\<forall>i < NVMA. \<not> used (vm_area (proc s c) i)"
  shows "exit_finish ops code s = Ok (upd_proc c (\<lambda>q. q\<lparr>state := ZOMBIE, exit_code := code\<rparr>) s)"
proof -
  define t where "t = upd_proc c (\<lambda>q. q\<lparr>state := ZOMBIE, exit_code := code\<rparr>) (s\<lparr>held := [ProcLock c]\<rparr>)"
  have "each (exit_area ops c) [0..<NVMA] t = Ok t"
    using assms(3) by (intro each_same) (simp add: exit_area_def t_def upd_proc_def del: upt_rec_numeral)
  moreover have "switch_away t = Ok (upd_proc c (\<lambda>q. q\<lparr>state := ZOMBIE, exit_code := code\<rparr>) s)"
    using assms(1,2) by (simp add: switch_away_def sched_def t_def upd_proc_def release_def get_proc_def)
  ultimately show ?thesis using assms(1,2) by (simp add: exit_finish_def t_def Let_def del: upt_rec_numeral)
qed

text \<open>
  C9. A parent can sleep forever although its child is a zombie: \<open>exit\<close> wakes the parent before it sets the
  state to ZOMBIE. If the parent, woken on another CPU, runs its loop in \<open>wait4\<close> between the two, it
  finds no zombie and sleeps again; the child then becomes a zombie without another wakeup.
\<close>

theorem exit_loses_wakeup:
  assumes "held s = []" "cur_proc s = c" "c < NPROC" "p < NPROC" "p \<noteq> c" "parent (proc s c) = Some p" "input_owner_idx s = - 1"
    "state (proc s p) = SLEEPING" "chan (proc s p) = Some (ProcChan p)" "state (proc s c) = RUNNING"
    "\<forall>i < PROCESS_MAX_OPEN_FILES. ofile (proc s c) i = None" "\<forall>i < NVMA. \<not> used (vm_area (proc s c) i)"
    "\<forall>i < NPROC. parent (proc s i) \<noteq> Some c" "\<forall>i < NPROC. parent (proc s i) = Some p \<longrightarrow> state (proc s i) \<noteq> ZOMBIE"
  shows "\<exists>s1 s2 s3 s4. exit_notify ops s = Ok s1 \<and> state (proc s1 p) = RUNNABLE \<and>
    scheduler_try p s1 = Ok (True, s2) \<and> wait4_resume rd st (- 1) 0 0 s2 = Ok (Sleeping, s3) \<and>
    exit_finish ops code (s3\<lparr>cur_proc := c\<rparr>) = Ok s4 \<and>
    state (proc s4 c) = ZOMBIE \<and> state (proc s4 p) = SLEEPING \<and> chan (proc s4 p) = Some (ProcChan p)"
proof -
  define s1 where "s1 = s\<lparr>proc := woken (ProcChan p) s\<rparr>"
  have n: "exit_notify ops s = Ok s1" using exit_notify_eq [OF assms(1,2,6,7,11,13)] by (simp add: s1_def)
  have w: "woken (ProcChan p) s p = (proc s p)\<lparr>state := RUNNABLE\<rparr>" using assms(2,4,5,8,9) by (simp add: woken_def)
  define s2 where "s2 = switch_to_process (pagetable (proc s p)) (s1\<lparr>held := [ProcLock p],
    proc := (proc s1)(p := (proc s p)\<lparr>state := RUNNING\<rparr>), cur_proc := p\<rparr>)"
  have t: "scheduler_try p s1 = Ok (True, s2)"
    using assms(1) w by (simp add: scheduler_try_def s1_def s2_def upd_proc_def)
  have s2: "held s2 = [ProcLock p]" "cur_proc s2 = p" "proc s2 = (woken (ProcChan p) s)(p := (proc s p)\<lparr>state := RUNNING\<rparr>)"
    by (simp_all add: s2_def s1_def switch_to_process_def)
  define u where "u = upd_proc p (\<lambda>q. q\<lparr>chan := None\<rparr>) s2"
  have u: "held u = [ProcLock p]" "cur_proc u = p" "\<And>i. i \<noteq> p \<Longrightarrow> proc u i = woken (ProcChan p) s i"
    by (simp_all add: u_def upd_proc_def s2)
  have e: "sleep_end (ProcLock (cur_proc s2)) s2 = Ok u" by (simp add: sleep_end_def s2 u_def)
  have par: "parent (proc u i) = parent (proc s i)" for i by (simp add: u_def upd_proc_def s2 woken_def)
  have st: "state (proc u i) \<noteq> ZOMBIE" if "i < NPROC" "parent (proc u i) = Some p" for i
    using assms(14) that par [of i] by (cases "i = p") (auto simp: u_def upd_proc_def s2 woken_def)
  have "\<exists>i \<in> set [0..<NPROC]. i \<noteq> cur_proc u \<and> parent (proc u i) = Some (cur_proc u)"
    using assms(3,5,6) par [of c] u(2) by (intro bexI [of _ c]) (auto simp del: upt_rec_numeral)
  then have sc: "for_each (wait4_child rd st (- 1) 0) [0..<NPROC] (False, u) = Ok (None, True, u)"
    using st u(1,2) by (subst wait4_no_zombie) (auto simp del: upt_rec_numeral)
  define s3 where "s3 = (upd_proc p (\<lambda>q. q\<lparr>chan := Some (ProcChan p), state := SLEEPING\<rparr>) u)\<lparr>held := []\<rparr>"
  have "sleep_begin (ProcChan p) (ProcLock p) u = Ok s3"
    using u(1,2) by (simp add: sleep_begin_def switch_away_def sched_def get_proc_def s3_def upd_proc_def release_def Let_def)
  then have z: "wait4_resume rd st (- 1) 0 0 s2 = Ok (Sleeping, s3)"
    using u(2) e by (simp add: wait4_resume_def wait4_scan_def sc del: upt_rec_numeral)
  define s4 where "s4 = upd_proc c (\<lambda>q. q\<lparr>state := ZOMBIE, exit_code := code\<rparr>) (s3\<lparr>cur_proc := c\<rparr>)"
  have "vm_area (proc s3 c) = vm_area (proc s c)" using assms(5) u(3) [of c] by (simp add: s3_def upd_proc_def woken_def)
  then have f: "exit_finish ops code (s3\<lparr>cur_proc := c\<rparr>) = Ok s4"
    unfolding s4_def using assms(12) by (intro exit_finish_eq) (simp_all add: s3_def)
  have "state (proc s4 c) = ZOMBIE" "state (proc s4 p) = SLEEPING" "chan (proc s4 p) = Some (ProcChan p)"
    using assms(5) by (simp_all add: s4_def s3_def upd_proc_def)
  moreover have "state (proc s1 p) = RUNNABLE" using w by (simp add: s1_def)
  ultimately show ?thesis using n t z f by blast
qed

definition exit_ex :: tty_state where
  "exit_ex = undefined\<lparr>held := [], cur_proc := 2, input_owner_idx := - 1, proc := \<lambda>i. undefined\<lparr>parent := if i = 2 then Some 1 else None,
     state := if i = 1 then SLEEPING else RUNNING, chan := if i = 1 then Some (ProcChan 1) else None, ofile := \<lambda>_. None,
     vm_area := \<lambda>_. vma_zero\<rparr>\<rparr>"

theorem exit_loses_wakeup_witness:
  "\<exists>s1 s2 s3 s4. exit_notify undefined exit_ex = Ok s1 \<and> scheduler_try 1 s1 = Ok (True, s2) \<and>
     wait4_resume (\<lambda>_ _ _ _ k. Ok (0, k)) 0 (- 1) 0 0 s2 = Ok (Sleeping, s3) \<and> exit_finish undefined 0 (s3\<lparr>cur_proc := 2\<rparr>) = Ok s4 \<and>
     state (proc s4 2) = ZOMBIE \<and> state (proc s4 1) = SLEEPING"
proof -
  have "held exit_ex = []" "cur_proc exit_ex = 2" "parent (proc exit_ex 2) = Some 1" "input_owner_idx exit_ex = - 1"
    "state (proc exit_ex 1) = SLEEPING" "chan (proc exit_ex 1) = Some (ProcChan 1)" "state (proc exit_ex 2) = RUNNING"
    "\<forall>i < PROCESS_MAX_OPEN_FILES. ofile (proc exit_ex 2) i = None" "\<forall>i < NVMA. \<not> used (vm_area (proc exit_ex 2) i)"
    "\<forall>i < NPROC. parent (proc exit_ex i) \<noteq> Some 2" "\<forall>i < NPROC. parent (proc exit_ex i) = Some 1 \<longrightarrow> state (proc exit_ex i) \<noteq> ZOMBIE"
    by (simp_all add: exit_ex_def vma_zero_def)
  from exit_loses_wakeup [OF this(1,2) _ _ _ this(3-), of undefined "\<lambda>_ _ _ _ k. Ok (0, k)" 0 0] show ?thesis by simp blast
qed

section \<open>The range of signal numbers\<close>

text \<open>Signal 64 does not exist: \<open>actions\<close> has the elements 0 to 63.\<close>

definition sig_ok :: "'a kern_scheme \<Rightarrow> bool" where
  "sig_ok s \<longleftrightarrow> (\<forall>i. \<not> bit (sig_pending (proc_sighand (proc s i))) 63)"

lemma sig_ok_simps [simp]:
  "sig_ok (s\<lparr>held := h\<rparr>) = sig_ok s" "sig_ok (upd_proc i (\<lambda>p. p\<lparr>state := q\<rparr>) s) = sig_ok s"
  by (auto simp: sig_ok_def upd_proc_def)

lemma sig_ok_acquire: "acquire l s = Ok s' \<Longrightarrow> sig_ok s' = sig_ok s"
  by (auto simp: acquire_def split: if_splits)

lemma sig_ok_release: "release l s = Ok s' \<Longrightarrow> sig_ok s' = sig_ok s"
  by (auto simp: release_def split: if_splits)

lemma sig_ok_wakeup: "wakeup c s = Ok s' \<Longrightarrow> sig_ok s' = sig_ok s"
proof -
  assume "wakeup c s = Ok s'"
  then obtain r where "for_each (\<lambda>i s. bnd (wakeup_one c i s) (\<lambda>s. Ok (None :: unit option, s))) [0..<NPROC] s = Ok (r, s')"
    by (auto simp: wakeup_def outcome_simps)
  then show ?thesis
    by (rule for_each_preserves) (auto simp: wakeup_one_def outcome_simps Let_def dest!: sig_ok_acquire sig_ok_release split: if_splits)
qed

lemma bit_SIGMASK: "1 \<le> sig \<Longrightarrow> bit (SIGMASK sig) n \<longleftrightarrow> n = sig - 1 \<and> n < 64"
  by (auto simp: SIGMASK_def bit_simps)

lemma sig_ok_send:
  assumes "sig_ok s" "1 \<le> sig" "sig < NSIG" "signal_send i sig s = Ok s'"
  shows "sig_ok s'"
proof -
  have "sig_ok (set_sighand i (\<lambda>h. h\<lparr>sig_pending := sig_pending h OR SIGMASK sig\<rparr>) s)"
    using assms(1-3) bit_SIGMASK [of sig 63] by (auto simp: sig_ok_def set_sighand_def upd_proc_def bit_simps)
  then show ?thesis using assms(4)
    by (auto simp: signal_send_def outcome_simps Let_def dest!: sig_ok_acquire sig_ok_release sig_ok_wakeup split: if_splits)
qed



end
