(* ===== verification/Frames.thy ===== *)
theory Frames
  imports Vm
begin

text \<open>
  What memory management leaves alone: the process table, and everything that larger states add to the
  kernel core. The lemmas are collected in \<open>frames\<close> and applied as destruction rules.
\<close>

unbundle bit_operations_syntax

named_theorems frames "operations that keep the process table and the larger state"

definition outside :: "'a kern_scheme \<Rightarrow> (nat \<Rightarrow> Process) \<times> nat \<times> 'a" where
  "outside s = (proc s, cur_proc s, kern.more s)"

lemma outside_upd [simp]:
  "outside (s\<lparr>mem := m\<rparr>) = outside s" "outside (s\<lparr>held := h\<rparr>) = outside s"
  "outside (s\<lparr>ekalloc_ptr := e\<rparr>) = outside s" "outside (s\<lparr>head_next := n\<rparr>) = outside s" "outside (s\<lparr>FMM_size := z\<rparr>) = outside s"
  "outside (store_pte p v s) = outside s" "outside (switch_to_process pt s) = outside s"
  by (simp_all add: outside_def store_pte_def switch_to_process_def)

lemma outsideD: "outside s' = outside s \<Longrightarrow> proc s' = proc s \<and> cur_proc s' = cur_proc s \<and> get_proc s' = get_proc s"
  by (simp add: outside_def get_proc_def)

lemma bndE: "bnd m f = Ok y \<Longrightarrow> (\<And>x. m = Ok x \<Longrightarrow> f x = Ok y \<Longrightarrow> P) \<Longrightarrow> P"
  by (cases m) auto

section \<open>The allocator\<close>

lemma acquire_frame [frames]: "acquire l s = Ok s' \<Longrightarrow> outside s' = outside s"
  by (auto simp: outcome_simps)

lemma release_frame [frames]: "release l s = Ok s' \<Longrightarrow> outside s' = outside s"
  by (auto simp: outcome_simps)

lemma refcnt_write_frame [frames]: "refcnt_write i v s = Ok s' \<Longrightarrow> outside s' = outside s"
  by (auto simp: refcnt_write_def outside_def split: if_splits)

lemma kalloc_frame [frames]: "kalloc s = Ok (r, s') \<Longrightarrow> outside s' = outside s"
  by (auto simp: kalloc_def outcome_simps Let_def split: if_splits dest!: frames)

lemma kfree_frame [frames]: "kfree p s = Ok s' \<Longrightarrow> outside s' = outside s"
  by (auto simp: kfree_def outcome_simps Let_def split: if_splits dest!: frames)

section \<open>Page tables\<close>

lemma for_pages_frame:
  assumes "for_pages body a bound s = Ok (r, s')" "\<And>a s r s'. body a s = Ok (r, s') \<Longrightarrow> outside s' = outside s"
  shows "outside s' = outside s"
  using assms(1)
proof (induction "2 ^ 64 - unat a" arbitrary: a s rule: less_induct)
  case less
  have IH: "outside s' = outside t" if "for_pages body (a + 4096) bound t = Ok (r, s')" "\<not> unat a + 4096 \<ge> 2 ^ 64" for t
    using less.hyps [OF _ that(1)] that(2) by (simp add: unat_word_ariths)
  show ?case using less.prems unfolding for_pages.simps [of body a bound s]
    by (auto simp: outcome_simps split: if_splits option.splits dest!: IH dest: assms(2))
qed

lemma for_each_frame:
  assumes "for_each body xs s = Ok (r, s')" "\<And>a s r s'. body a s = Ok (r, s') \<Longrightarrow> outside s' = outside s"
  shows "outside s' = outside s"
  using assms(1)
  by (induction xs arbitrary: s) (auto simp: outcome_simps split: option.splits dest!: assms(2))

lemma pt_alloc_page_pa_frame [frames]: "pt_alloc_page_pa s = Ok (r, s') \<Longrightarrow> outside s' = outside s"
  by (auto simp: pt_alloc_page_pa_def ekalloc_def outcome_simps Let_def split: if_splits dest!: frames)

lemma walk_loop_frame: "walk_loop n pt va alloc s = Ok (r, s') \<Longrightarrow> outside s' = outside s"
proof (induction n arbitrary: pt s)
  case (Suc n)
  then show ?case by (auto simp: outcome_simps Let_def split: if_splits dest!: pt_alloc_page_pa_frame Suc.IH)
qed simp

lemma walk_frame [frames]: "walk pt va alloc s = Ok (r, s') \<Longrightarrow> outside s' = outside s"
  unfolding walk_def by (rule walk_loop_frame)

lemma walk_addr_frame [frames]: "walk_addr pt va s = Ok (r, s') \<Longrightarrow> outside s' = outside s"
  by (auto simp: walk_addr_def outcome_simps split: if_splits dest!: frames)

lemma mappages_loop_frame: "mappages_loop pt a lst pa perm s = Ok (r, s') \<Longrightarrow> outside s' = outside s"
proof (induction "unat (lst - a)" arbitrary: a pa s rule: less_induct)
  case less
  have IH: "outside s' = outside t" if "mappages_loop pt (a + PGSIZE) lst pa' perm t = Ok (r, s')" "\<not> unat (lst - a) < 4096" for pa' t
    using less.hyps [OF _ that(1)] that(2) page_step [OF that(2)] by simp
  from less.prems show ?case unfolding mappages_loop.simps [of pt a lst pa perm s]
    by (auto simp: outcome_simps Let_def split: if_splits dest!: IH frames)
qed

lemma mappages_frame [frames]: "mappages pt va pa sz perm s = Ok (r, s') \<Longrightarrow> outside s' = outside s"
  by (auto simp: mappages_def split: if_splits dest!: mappages_loop_frame)

lemma kvmmap_frame [frames]: "kvmmap pt va pa sz perm s = Ok (r, s') \<Longrightarrow> outside s' = outside s"
  by (auto simp: kvmmap_def dest!: frames)

lemma unmap_page_frame: "unmap_page pt f va s = Ok (r, s') \<Longrightarrow> outside s' = outside s"
  by (auto simp: unmap_page_def outcome_simps Let_def split: if_splits dest!: frames)

lemma uvmunmap_frame [frames]: "uvmunmap pt va n f s = Ok s' \<Longrightarrow> outside s' = outside s"
  by (auto simp: uvmunmap_def outcome_simps dest!: for_pages_frame intro: unmap_page_frame)

lemma kvmunmap_frame [frames]: "kvmunmap pt va n f s = Ok s' \<Longrightarrow> outside s' = outside s"
  by (auto simp: kvmunmap_def outcome_simps split: if_splits dest!: for_pages_frame intro: unmap_page_frame)

lemma uvmdealloc_frame [frames]: "uvmdealloc pt va sz s = Ok (r, s') \<Longrightarrow> outside s' = outside s"
  by (auto simp: uvmdealloc_def outcome_simps Let_def split: if_splits dest!: frames)

lemma uvmalloc_frame [frames]: "uvmalloc pt va sz perm s = Ok (r, s') \<Longrightarrow> outside s' = outside s"
  by (auto simp: uvmalloc_def outcome_simps Let_def dest!: for_pages_frame)
    (auto simp: outcome_simps split: if_splits dest!: frames)

lemma freewalk_frame: "freewalk d pt s = Ok s' \<Longrightarrow> outside s' = outside s"
proof (induction d arbitrary: pt s s')
  case (Suc d)
  from Suc.prems obtain r t where l: "for_each (\<lambda>i s.
       let pte = load64 (mem s) (pt + 8 * of_nat i) in
       if pte AND PTE_V \<noteq> 0 \<and> pte AND (PTE_R OR PTE_W OR PTE_X) = 0 then
         bnd (freewalk d (PA2VA (PTE2PA pte)) s) (\<lambda>s.
         Ok (None :: unit option, store_pte (pt + 8 * of_nat i) 0 s))
       else Ok (None, s)) [0..<512] s = Ok (r, t)" and k: "kfree pt t = Ok s'"
    by (auto simp only: freewalk.simps bnd_Ok_iff split: prod.splits)
  have "outside t = outside s" using l
    by (rule for_each_frame) (auto simp: outcome_simps Let_def split: if_splits dest!: Suc.IH)
  then show ?case using kfree_frame [OF k] by simp
qed simp

lemma uvmcreate_frame [frames]: "uvmcreate s = Ok (r, s') \<Longrightarrow> outside s' = outside s"
  by (auto simp: uvmcreate_def outcome_simps simp del: upt_rec_numeral split: if_splits dest!: kalloc_frame)
    (drule for_each_frame, auto)

section \<open>Copying from and to user memory\<close>

text \<open>The hypothesis on the reading of mapped files: it does not touch the process table.\<close>

definition read_keeps :: "'a kern_scheme read_at \<Rightarrow> bool" where
  "read_keeps rd \<longleftrightarrow> (\<forall>f off dst n s r s'. rd f off dst n s = Ok (r, s') \<longrightarrow> outside s' = outside s)"

lemma read_keepsD: "read_keeps rd \<Longrightarrow> rd f off dst n s = Ok (r, s') \<Longrightarrow> outside s' = outside s"
  by (auto simp: read_keeps_def)

lemma handle_page_fault_frame [frames]: "handle_page_fault pt va s = Ok (r, s') \<Longrightarrow> outside s' = outside s"
  by (auto simp: handle_page_fault_def outcome_simps Let_def split: if_splits dest!: frames)

lemma handle_anonymous_vma_fault_frame [frames]:
  "handle_anonymous_vma_fault vma va s = Ok (r, s') \<Longrightarrow> outside s' = outside s"
  by (auto simp: handle_anonymous_vma_fault_def outcome_simps split: if_splits dest!: frames)

lemma handle_file_vma_fault_frame:
  "read_keeps rd \<Longrightarrow> handle_file_vma_fault rd vma f va s = Ok (r, s') \<Longrightarrow> outside s' = outside s"
  by (auto simp: handle_file_vma_fault_def outcome_simps Let_def split: if_splits dest!: frames dest: read_keepsD)

lemma handle_vma_fault_frame: "read_keeps rd \<Longrightarrow> handle_vma_fault rd va s = Ok (r, s') \<Longrightarrow> outside s' = outside s"
  by (auto simp: handle_vma_fault_def Let_def split: if_splits option.splits dest: frames handle_file_vma_fault_frame)

lemma handle_cow_fault_frame: "handle_cow_fault pt va s = Ok (r, s') \<Longrightarrow> outside s' = outside s"
  by (auto simp only: handle_cow_fault_def Let_def prod.case outcome.inject outcome.distinct prod.inject outside_upd
    elim!: bndE split: if_split_asm prod.split_asm dest!: frames)

lemma fault_in_frame:
  assumes "read_keeps rd" "fault_in rd pt va s = Ok (r, s')"
  shows "outside s' = outside s"
proof -
  have any: "X = Ok q \<or> Y = Ok q \<or> Z = Ok q" if "(if a then X else if b then Y else Z) = Ok q" for a b X Y Z and q :: "int \<times> 'a kern_scheme"
    using that by (simp split: if_splits)
  from assms(2) obtain pte t where w: "walk pt va False s = Ok (pte, t)" unfolding fault_in_def bnd_Ok_iff by auto
  show ?thesis
  proof (cases "pte = 0 \<or> load64 (mem t) pte AND PTE_V = 0")
    case True
    from assms(2) obtain n u where
      h: "handle_page_fault pt va t = Ok (n, u) \<or> handle_vma_fault rd va t = Ok (n, u) \<or> (n, u) = (- 1, t)" and
      e: "(if n < 0 then Ok (None, u) else bnd (walk pt va False u) (\<lambda>(pte, s). Ok (Some pte, s))) = Ok (r, s')"
      unfolding fault_in_def w bnd.simps prod.case Let_def if_P [OF True] by (auto simp only: bnd_Ok_iff prod.case dest: any)
    have "outside u = outside t" using h handle_vma_fault_frame [OF assms(1)] by (auto dest: frames)
    then show ?thesis using e walk_frame [OF w] by (auto simp: outcome_simps split: if_splits dest: frames)
  next
    case False
    then show ?thesis using assms(2) walk_frame [OF w] unfolding fault_in_def w bnd.simps prod.case Let_def by auto
  qed
qed

lemma copyin_frame: "read_keeps rd \<Longrightarrow> copyin rd pt dst src len s = Ok (r, s') \<Longrightarrow> outside s' = outside s"
proof (induction "nat len" arbitrary: dst src len s rule: less_induct)
  case less
  have IH: "outside s' = outside t" if "copyin rd pt dst' src' (len - min (4096 - uint (src - PGROUNDDOWN src)) len) t = Ok (r, s')" "0 < len"
    for dst' src' t
    using less.hyps [OF _ less.prems(1) that(1)] that(2) offset_bound [of src] by (auto simp: min_def)
  from less.prems(2) show ?case unfolding copyin.simps [of rd pt dst src len s]
    by (auto simp: outcome_simps Let_def split: if_splits option.splits dest!: fault_in_frame [OF less.prems(1)] IH)
qed

lemma copyout_frame: "read_keeps rd \<Longrightarrow> copyout rd pt dst src len s = Ok (r, s') \<Longrightarrow> outside s' = outside s"
proof (induction "nat len" arbitrary: dst src len s rule: less_induct)
  case less
  have IH: "outside s' = outside t" if "copyout rd pt dst' src' (len - min (4096 - uint (dst - PGROUNDDOWN dst)) len) t = Ok (r, s')" "0 < len"
    for dst' src' t
    using less.hyps [OF _ less.prems(1) that(1)] that(2) offset_bound [of dst] by (auto simp: min_def)
  from less.prems(2) show ?case unfolding copyout.simps [of rd pt dst src len s]
    by (auto simp only: Let_def prod.case outcome.inject outcome.distinct prod.inject outside_upd option.inject option.distinct
        not_le option.case elim!: bndE split: if_split_asm option.split_asm prod.split_asm
      dest!: fault_in_frame [OF less.prems(1)] handle_cow_fault_frame walk_frame IH)
qed

end
