(* ===== verification/Mmap.thy ===== *)
theory Mmap
  imports File
begin

text \<open>
  \<open>do_mmap\<close> and \<open>do_munmap\<close> of \<open>kernel/mm/mmap.c\<close>; the functions that they use are in theory \<open>Vma\<close>.
  The translation look-aside buffer is not part of the model, so its flush is no step.
\<close>

unbundle bit_operations_syntax

abbreviation MAP_PRIVATE :: int where "MAP_PRIVATE \<equiv> 0x02"
abbreviation MAP_TYPE :: int where "MAP_TYPE \<equiv> 0x0f"
abbreviation MAP_ANONYMOUS :: int where "MAP_ANONYMOUS \<equiv> 0x20"

section \<open>Operations\<close>

definition do_munmap ::
  "'a file_state_scheme vfs_tables \<Rightarrow> u64 \<Rightarrow> u64 \<Rightarrow> 'a file_state_scheme \<Rightarrow> (int \<times> 'a file_state_scheme) outcome" where
  "do_munmap ops addr len s =
     (if addr mod PGSIZE \<noteq> 0 then Ok (- EINVAL, s)
      else if addr = 0 \<or> len = 0 then Ok (- EINVAL, s)
      else
        let len = PGROUNDUP len; end = addr + len in
        case find_overlapping_vma addr len s of
          None \<Rightarrow> Ok (- EINVAL, s)
        | Some i \<Rightarrow>
            let vma = vm_area (get_proc s) i in
            if addr < va_start vma \<or> end > va_end vma then Ok (- EINVAL, s)
            else if addr > va_start vma \<and> end < va_end vma then Ok (- EOPNOTSUPP, s)
            else
              bnd (kvmunmap (pagetable (get_proc s)) addr len True s) (\<lambda>s.
              if addr = va_start vma \<and> end = va_end vma then
                bnd (case vma_file vma of None \<Rightarrow> Ok s | Some f \<Rightarrow> fileclose ops f s) (\<lambda>s.
                Ok (0, set_vma i (\<lambda>v. v\<lparr>used := False\<rparr>) s))
              else if addr = va_start vma then
                let s = (if vma_file vma \<noteq> None then set_vma i (\<lambda>v. v\<lparr>file_offset := file_offset v + (end - va_start v)\<rparr>) s else s)
                in Ok (0, set_vma i (\<lambda>v. v\<lparr>va_start := end\<rparr>) s)
              else if end = va_end vma then Ok (0, set_vma i (\<lambda>v. v\<lparr>va_end := addr\<rparr>) s)
              else Ok (0, s)))"

text \<open>The result is a \<open>uint64\<close>: the address, or a negative error number converted.\<close>

definition do_mmap ::
  "u64 \<Rightarrow> u64 \<Rightarrow> int \<Rightarrow> int \<Rightarrow> int \<Rightarrow> u64 \<Rightarrow> 'a file_state_scheme \<Rightarrow> (u64 \<times> 'a file_state_scheme) outcome" where
  "do_mmap addr len prot flags fd offset s =
     (if addr \<noteq> 0 then Ok (word_of_int (- EOPNOTSUPP), s)
      else
        let length = PGROUNDUP len; pte = prot2pte prot; is_anonymous = (flags AND MAP_ANONYMOUS \<noteq> 0) in
        if pte = 0 then Ok (word_of_int (- EINVAL), s)
        else if offset AND (PGSIZE - 1) \<noteq> 0 then Ok (word_of_int (- EINVAL), s)
        else if len = 0 then Ok (word_of_int (- EINVAL), s)
        else if flags AND MAP_TYPE \<noteq> MAP_PRIVATE then Ok (word_of_int (- EOPNOTSUPP), s)
        else if is_anonymous \<and> (fd \<noteq> - 1 \<or> offset \<noteq> 0) then Ok (word_of_int (- EINVAL), s)
        else if \<not> is_anonymous \<and> (fd < 0 \<or> fd \<ge> int PROCESS_MAX_OPEN_FILES) then Ok (word_of_int (- EBADF), s)
        else if \<not> is_anonymous \<and> prot AND PROT_WRITE \<noteq> 0 then Ok (word_of_int (- EOPNOTSUPP), s)
        else if \<not> is_anonymous \<and> ofile (get_proc s) (nat fd) = None then Ok (word_of_int (- EBADF), s)
        else
          bnd (find_free_range length s) (\<lambda>(r, s).
          case r of
            None \<Rightarrow> Ok (word_of_int (- ENOMEM), s)
          | Some i \<Rightarrow>
              bnd (if \<not> is_anonymous then
                     bnd (case ofile (get_proc s) (nat fd) of
                            None \<Rightarrow> Fault ''do_mmap: null pointer''
                          | Some f \<Rightarrow> bnd (filedup f s) (\<lambda>s. Ok (set_vma i (\<lambda>v. v\<lparr>vma_file := Some f\<rparr>) s))) (\<lambda>s.
                     Ok (set_vma i (\<lambda>v. v\<lparr>file_offset := offset\<rparr>) s))
                   else Ok s) (\<lambda>s.
              let s = set_vma i (\<lambda>v. v\<lparr>vma_flags := word_of_int flags, vm_page_prot := pte, used := True\<rparr>) s
              in Ok (va_start (vm_area (get_proc s) i), s))))"

section \<open>Free ranges\<close>

definition range_free :: "'a kern_scheme \<Rightarrow> u64 \<Rightarrow> u64 \<Rightarrow> bool" where
  "range_free s a len \<longleftrightarrow> (\<forall>j < NVMA. \<not> vma_overlaps (vm_area (get_proc s) j) a len)"

definition new_area :: "u64 \<Rightarrow> u64 \<Rightarrow> vm_area_struct" where
  "new_area a len = vma_zero\<lparr>va_start := a, va_end := a + len, used := True\<rparr>"

lemma list_ex_overlap: "list_ex (\<lambda>j. vma_overlaps (vm_area (get_proc s) j) a len) [0..<NVMA] \<longleftrightarrow> \<not> range_free s a len"
  by (auto simp: range_free_def list_ex_iff simp del: upt_rec_numeral)

lemma search_range:
  assumes "for_pages (\<lambda>faddr s.
      if list_ex (\<lambda>j. vma_overlaps (vm_area (get_proc s) j) faddr len) [0..<NVMA] then Ok (None, s)
      else let (vma, s) = alloc_vma faddr (faddr + len) s in Ok (Some vma, s)) a bound s = Ok (r, s')"
  shows "r = None \<and> s' = s \<or> r = Some None \<and> s' = s \<or>
    (\<exists>i b. r = Some (Some i) \<and> find_free_vma_slot s = Some i \<and> a \<le> b \<and> b < bound \<and> range_free s b len \<and>
      s' = set_vma i (\<lambda>_. new_area b len) s)"
  using assms
proof (induction "2 ^ 64 - unat a" arbitrary: a rule: less_induct)
  case less
  show ?case
  proof (cases "a < bound")
    case False
    then show ?thesis using less.prems by (subst (asm) for_pages.simps) auto
  next
    case True
    show ?thesis
    proof (cases "range_free s a len")
      case free: True
      then show ?thesis using less.prems True
        by (subst (asm) for_pages.simps) (auto simp: list_ex_overlap alloc_vma_def new_area_def split: option.splits)
    next
      case taken: False
      then have nw: "\<not> unat a + 4096 \<ge> 2 ^ 64" and rec: "for_pages (\<lambda>faddr s.
          if list_ex (\<lambda>j. vma_overlaps (vm_area (get_proc s) j) faddr len) [0..<NVMA] then Ok (None, s)
          else let (vma, s) = alloc_vma faddr (faddr + len) s in Ok (Some vma, s)) (a + 4096) bound s = Ok (r, s')"
        using less.prems True by (subst (asm) for_pages.simps, auto simp: list_ex_overlap split: if_splits)+
      have u: "unat (a + 4096) = unat a + 4096" using nw by (simp add: unat_word_ariths)
      have "2 ^ 64 - unat (a + 4096) < 2 ^ 64 - unat a" using nw u by simp
      moreover have "a \<le> b" if "a + 4096 \<le> b" for b using that u by (simp add: word_le_nat_alt)
      ultimately show ?thesis using less.hyps [OF _ rec] by blast
    qed
  qed
qed

lemma find_free_range_result:
  assumes "find_free_range len s = Ok (r, s')"
  shows "r = None \<and> s' = s \<or> (\<exists>i a. r = Some i \<and> i < NVMA \<and> \<not> used (vm_area (get_proc s) i) \<and> used_addr s \<le> a \<and>
    a < stack_bottom (get_proc s) \<and> range_free s a len \<and> s' = set_vma i (\<lambda>_. new_area a len) s)"
proof -
  have slot: "i < NVMA \<and> \<not> used (vm_area (get_proc s) i)" if "find_free_vma_slot s = Some i" for i
    using that unfolding find_free_vma_slot_def find_Some_iff by (auto simp del: upt_rec_numeral)
  show ?thesis
  proof (cases "used_addr s > stack_bottom (proc s 0) \<or> len > stack_bottom (proc s 0) - used_addr s")
    case True
    then show ?thesis using assms by (auto simp: find_free_range_def)
  next
    case False
    with assms obtain q where "for_pages (\<lambda>faddr s.
        if list_ex (\<lambda>j. vma_overlaps (vm_area (get_proc s) j) faddr len) [0..<NVMA] then Ok (None, s)
        else let (vma, s) = alloc_vma faddr (faddr + len) s in Ok (Some vma, s)) (used_addr s) (stack_bottom (get_proc s)) s = Ok (q, s')"
      "r = (case q of Some vma \<Rightarrow> vma | None \<Rightarrow> None)"
      by (auto simp: find_free_range_def outcome_simps)
    from search_range [OF this(1)] this(2) slot show ?thesis by auto
  qed
qed

section \<open>Correctness of mmap\<close>

lemma set_vma_simps [simp]:
  "vm_area (get_proc (set_vma i f s)) = (vm_area (get_proc s))(i := f (vm_area (get_proc s) i))"
  "ofile (get_proc (set_vma i f s)) = ofile (get_proc s)" "held (set_vma i f s) = held s"
  by (simp_all add: set_vma_def set_proc_def get_proc_def)

lemma set_vma_ftable [simp]: "ftable (set_vma i f s) = ftable s"
  by (simp add: set_vma_def set_proc_def)

lemma filedup_proc: "filedup f s = Ok s' \<Longrightarrow> proc s' = proc s \<and> cur_proc s' = cur_proc s"
  by (auto simp: filedup_def acquire_def release_def upd_file_def outcome_simps split: if_splits)


lemma find_free_range_second:
  assumes "used_addr s = 0x4000000" "stack_bottom (proc s 0) = 0x3FFFFFE000" "stack_bottom (get_proc s) = 0x3FFFFFE000"
    "vm_area (get_proc s) = (\<lambda>_. vma_zero)(0 := new_area 0x4000000 4096)"
  shows "find_free_range 0x3FFBFFE000 s = Ok (Some 1, set_vma 1 (\<lambda>_. new_area 0x4001000 0x3FFBFFE000) s)"
proof -
  have slot: "find_free_vma_slot s = Some 1" by (simp add: find_free_vma_slot_def assms(4) new_area_def vma_zero_def upt_rec)
  have t: "\<not> range_free s 0x4000000 0x3FFBFFE000" "range_free s 0x4001000 0x3FFBFFE000"
    by (auto simp: range_free_def vma_overlaps_def assms(4) new_area_def vma_zero_def)
  let ?body = "\<lambda>faddr s. if list_ex (\<lambda>j. vma_overlaps (vm_area (get_proc s) j) faddr 0x3FFBFFE000) [0..<NVMA] then Ok (None, s)
        else let (vma, s) = alloc_vma faddr (faddr + 0x3FFBFFE000) s in Ok (Some vma, s)"
  have "for_pages ?body 0x4001000 0x3FFFFFE000 s = Ok (Some (Some 1), set_vma 1 (\<lambda>_. new_area 0x4001000 0x3FFBFFE000) s)"
    by (subst for_pages.simps) (simp add: list_ex_overlap t alloc_vma_def slot new_area_def)
  then have "for_pages ?body 0x4000000 0x3FFFFFE000 s = Ok (Some (Some 1), set_vma 1 (\<lambda>_. new_area 0x4001000 0x3FFBFFE000) s)"
    by (subst for_pages.simps) (simp add: list_ex_overlap t)
  then show ?thesis by (simp add: find_free_range_def assms(1-3))
qed

definition mmap_ex :: file_state where
  "mmap_ex = undefined\<lparr>used_addr := 0x4000000, cur_proc := 0, proc := \<lambda>_. undefined\<lparr>stack_bottom := 0x3FFFFFE000,
     vm_area := (\<lambda>_. vma_zero)(0 := new_area 0x4000000 4096)\<rparr>\<rparr>"

lemma mmap_ex_facts:
  "used_addr mmap_ex = 0x4000000" "stack_bottom (proc mmap_ex 0) = 0x3FFFFFE000" "stack_bottom (get_proc mmap_ex) = 0x3FFFFFE000"
  "vm_area (get_proc mmap_ex) = (\<lambda>_. vma_zero)(0 := new_area 0x4000000 4096)"
  by (simp_all add: mmap_ex_def get_proc_def)





end
