(* ===== verification/Syscall.thy ===== *)
theory Syscall
  imports Proc Mmap
begin

text \<open>
  The arguments of system calls, \<open>kernel/core/syscall.c\<close>. The arguments are the registers that the
  trap frame holds. A system call returns a \<open>uint64\<close>, into which a negative error number is
  converted; one that may sleep is split as in theory \<open>Sched\<close>: its result is \<open>Sleeping\<close> and it goes
  on with the resume function of the operation that sleeps.
\<close>

unbundle bit_operations_syntax

abbreviation E2BIG :: int where "E2BIG \<equiv> 7"
abbreviation ENOEXEC :: int where "ENOEXEC \<equiv> 8"
abbreviation ERANGE :: int where "ERANGE \<equiv> 34"
abbreviation ENOSYS :: int where "ENOSYS \<equiv> 38"
abbreviation tf_a1 :: "u64 \<Rightarrow> u64" where "tf_a1 tf \<equiv> tf + 80"
abbreviation tf_a7 :: "u64 \<Rightarrow> u64" where "tf_a7 tf \<equiv> tf + 128"

section \<open>The surroundings of a system call\<close>

text \<open>
  What a system call gets from outside the modelled code: how pages of mapped files are read,
  constructors and destructors of slab caches, the tables of file operations, the address of
  \<open>arch_usertrapret\<close>, the address of the \<open>n\<close>-th variable of the call that lies on the kernel stack and
  whose address is passed on, the \<open>n\<close>-th value of the clock that the call reads, and the embedded
  program \<open>init_code\<close> that the build may generate.
\<close>

record 's sysenv =
  e_rd :: "kern read_at"
  e_call :: "'s call"
  e_ops :: "'s vfs_tables"
  e_usertrapret :: u64
  e_loc :: "nat \<Rightarrow> u64"
  e_time :: "nat \<Rightarrow> u64"
  e_init :: "u8 list option"

section \<open>Arguments and results\<close>

definition argraw :: "nat \<Rightarrow> 'a kern_scheme \<Rightarrow> u64" where
  "argraw n s = (if n < 6 then load64 (mem s) (trapframe (get_proc s) + 72 + 8 * of_nat n) else 0)"

definition argint :: "nat \<Rightarrow> 'a kern_scheme \<Rightarrow> int" where
  "argint n s = to_c_int (uint (argraw n s))"

definition argaddr :: "nat \<Rightarrow> 'a kern_scheme \<Rightarrow> u64" where
  "argaddr n s = argraw n s"

definition ret :: "int \<Rightarrow> 's \<Rightarrow> (u64 blocking \<times> 's) outcome" where
  "ret r s = Ok (Done (word_of_int r), s)"

definition ret_blocking :: "int blocking \<Rightarrow> 's \<Rightarrow> (u64 blocking \<times> 's) outcome" where
  "ret_blocking b s = (case b of Done r \<Rightarrow> ret r s | Sleeping \<Rightarrow> Ok (Sleeping, s))"

section \<open>Strings from user memory\<close>

text \<open>
  The inner loop of \<open>fetch_user_str\<close>: copies \<open>n\<close> bytes, up to and with the first NUL, whose index is
  the result.
\<close>

fun copy_nul :: "nat \<Rightarrow> nat \<Rightarrow> memory \<Rightarrow> u64 \<Rightarrow> u64 \<Rightarrow> nat option \<times> memory" where
  "copy_nul 0 j m dst buf = (None, m)"
| "copy_nul (Suc n) j m dst buf =
     (let c = m (buf + of_nat j);
          m = m(dst + of_nat j := c)
      in if c = 0 then (Some j, m) else copy_nul n (j + 1) m dst buf)"

text \<open>
  The outer loop. \<open>next_len\<close> is the distance to the end of the page in the first round and a page
  later on, so it is never 0; the branch for 0 makes the recursion total.
\<close>

function fetch_loop ::
  "kern read_at \<Rightarrow> u64 \<Rightarrow> u64 \<Rightarrow> u64 \<Rightarrow> u64 \<Rightarrow> nat \<Rightarrow> nat \<Rightarrow> nat \<Rightarrow> 'a kern_scheme \<Rightarrow> (int \<times> 'a kern_scheme) outcome" where
  "fetch_loop rd pt buf dst src_va next_len read_len reset_len s =
     (if reset_len = 0 then Ok (- ENAMETOOLONG, s)
      else if next_len = 0 then Fault ''fetch_user_str: no progress''
      else
        let next_len = min next_len reset_len in
        bnd (in_kern (copyin rd pt buf (src_va + of_nat read_len) (int next_len)) s) (\<lambda>(r, s).
        if r < 0 then Ok (- EFAULT, s)
        else case copy_nul next_len 0 (mem s) (dst + of_nat read_len) buf of
          (Some j, m) \<Rightarrow> Ok (int (read_len + j), s\<lparr>mem := m\<rparr>)
        | (None, m) \<Rightarrow> fetch_loop rd pt buf dst src_va 4096 (read_len + next_len) (reset_len - next_len) (s\<lparr>mem := m\<rparr>)))"
  by pat_completeness auto
termination
  by (relation "measure (\<lambda>(rd, pt, buf, dst, src_va, next_len, read_len, reset_len, s). reset_len)") auto

declare fetch_loop.simps [simp del]

definition fetch_user_str ::
  "kern read_at \<Rightarrow> u64 \<Rightarrow> u64 \<Rightarrow> u64 \<Rightarrow> nat \<Rightarrow> 'a kern_scheme \<Rightarrow> (int \<times> 'a kern_scheme) outcome" where
  "fetch_user_str rd pt dst src_va max_len s =
     bnd (kalloc s) (\<lambda>(buf, s).
     if buf = 0 then Ok (- ENOMEM, s)
     else bnd (fetch_loop rd pt buf dst src_va (4096 - unat src_va mod 4096) 0 max_len s) (\<lambda>(r, s).
       bnd (kfree buf s) (\<lambda>s. Ok (r, s))))"

definition fetchstr :: "kern read_at \<Rightarrow> u64 \<Rightarrow> u64 \<Rightarrow> nat \<Rightarrow> 'a kern_scheme \<Rightarrow> (int \<times> 'a kern_scheme) outcome" where
  "fetchstr rd addr buf n s = fetch_user_str rd (pagetable (get_proc s)) buf addr n s"

definition argstr :: "kern read_at \<Rightarrow> nat \<Rightarrow> u64 \<Rightarrow> nat \<Rightarrow> 'a kern_scheme \<Rightarrow> (int \<times> 'a kern_scheme) outcome" where
  "argstr rd n buf len s = fetchstr rd (argaddr n s) buf len s"

text \<open>The string in a buffer of \<open>n\<close> bytes.\<close>

definition str_at :: "memory \<Rightarrow> u64 \<Rightarrow> nat \<Rightarrow> string" where
  "str_at m a n = map (\<lambda>j. char_of (unat (m (a + of_nat j)))) (takeWhile (\<lambda>j. m (a + of_nat j) \<noteq> 0) [0..<n])"

text \<open>A path argument of a system call, in the buffer at \<open>buf\<close>.\<close>

definition with_path ::
  "'s sysenv \<Rightarrow> nat \<Rightarrow> u64 \<Rightarrow> (string \<Rightarrow> 'a kern_scheme \<Rightarrow> (u64 blocking \<times> 'a kern_scheme) outcome) \<Rightarrow> 'a kern_scheme \<Rightarrow>
    (u64 blocking \<times> 'a kern_scheme) outcome" where
  "with_path e n buf f s =
     bnd (argstr (e_rd e) n buf PATH_MAX s) (\<lambda>(r, s).
     if r < 0 then ret r s else f (str_at (mem s) buf PATH_MAX) s)"

end
