(* ===== verification/Exec.thy ===== *)
theory Exec
  imports Syscall
begin

text \<open>
  Loading of programs, \<open>kernel/core/exec.c\<close>. The ELF header, the program headers and the initial stack
  image lie on the kernel stack; their addresses are \<open>e_loc e 10\<close>, \<open>11\<close>, \<open>12\<close> and \<open>13\<close>. The embedded
  image \<open>init_code\<close> is the parameter \<open>e_init e\<close>, absent in builds without it.
\<close>

unbundle bit_operations_syntax

abbreviation EXEC_MAX_ARGS :: nat where "EXEC_MAX_ARGS \<equiv> 16"
abbreviation EXEC_MAX_PHDRS :: nat where "EXEC_MAX_PHDRS \<equiv> 16"
abbreviation ELF_MAGIC :: u32 where "ELF_MAGIC \<equiv> 0x464C457F"
abbreviation ELF_PROG_LOAD :: u32 where "ELF_PROG_LOAD \<equiv> 1"
abbreviation USER_VA_TOP :: u64 where "USER_VA_TOP \<equiv> 0x4000000000"
abbreviation USER_STACK_BOTTOM :: u64 where "USER_STACK_BOTTOM \<equiv> 0x3FFFFF0000"

definition load16 :: "memory \<Rightarrow> u64 \<Rightarrow> u16" where
  "load16 = load_le 2"

definition flags2perm :: "int \<Rightarrow> int" where
  "flags2perm flags =
     (if flags AND 1 \<noteq> 0 then 4 else 0) OR (if flags AND 2 \<noteq> 0 then 2 else 0) OR (if flags AND 4 \<noteq> 0 then 1 else 0)"

text \<open>\<open>struct elf_reader\<close>: the embedded image, or an inode.\<close>

datatype elf_reader = ReadData "u8 list" | ReadNode vnode

definition store_bytes :: "u8 list \<Rightarrow> u64 \<Rightarrow> memory \<Rightarrow> memory" where
  "store_bytes bs a m = (\<lambda>x. if unat (x - a) < length bs then bs ! unat (x - a) else m x)"

definition read_elf ::
  "'a tty_state_scheme sysenv \<Rightarrow> elf_reader \<Rightarrow> u64 \<Rightarrow> u64 \<Rightarrow> u64 \<Rightarrow> 'a tty_state_scheme \<Rightarrow> (int \<times> 'a tty_state_scheme) outcome" where
  "read_elf e reader dst off sz s =
     (case reader of
        ReadData d \<Rightarrow>
          if unat off > length d \<or> unat sz > length d - unat off then Ok (- 1, s)
          else Ok (to_c_int (uint sz), s\<lparr>mem := store_bytes (take (unat sz) (drop (unat off) d)) dst (mem s)\<rparr>)
      | ReadNode n \<Rightarrow> vfs_read_at (e_ops e) (Some n) off dst (ucast sz) s)"

section \<open>Segments\<close>

function loadseg ::
  "'a tty_state_scheme sysenv \<Rightarrow> u64 \<Rightarrow> u64 \<Rightarrow> elf_reader \<Rightarrow> u64 \<Rightarrow> u64 \<Rightarrow> u64 \<Rightarrow> 'a tty_state_scheme \<Rightarrow>
    (int \<times> 'a tty_state_scheme) outcome" where
  "loadseg e pt va reader off sz i s =
     (if \<not> i < sz then Ok (0, s)
      else
        let va_page = PGROUNDDOWN (va + i); offset = (va + i) - va_page in
        bnd (walk_addr pt va_page s) (\<lambda>(pa, s).
        if pa = 0 then Ok (- 1, s)
        else
          let n = (if PGSIZE - offset > sz - i then sz - i else PGSIZE - offset) in
          bnd (read_elf e reader (PA2VA pa + offset) (off + i) n s) (\<lambda>(r, s).
          if (word_of_int r :: u64) \<noteq> n then Ok (- 1, s)
          else loadseg e pt va reader off sz (i + n) s)))"
  by pat_completeness auto

lemma loadseg_step:
  assumes "i < sz" "n = (if PGSIZE - (a - PGROUNDDOWN a) > sz - i then sz - i else PGSIZE - (a - PGROUNDDOWN a))"
  shows "unat (sz - (i + n)) < unat (sz - i)"
proof -
  have o: "unat (a - PGROUNDDOWN a) < 4096" using offset_bound [of a] by (simp only: nat_less_iff [of "uint (a - PGROUNDDOWN a)" 4096, symmetric] flip: nat_uint_eq)
  then have p: "unat (PGSIZE - (a - PGROUNDDOWN a)) = 4096 - unat (a - PGROUNDDOWN a)"
    by (subst unat_sub) (simp_all add: word_le_nat_alt)
  have d: "0 < unat (sz - i)" using assms(1) by (simp add: unat_gt_0 word_less_nat_alt) auto
  have n: "n \<le> sz - i" "0 < unat n" using assms(2) d o p by (auto simp: word_le_nat_alt word_less_nat_alt)
  have "unat (sz - (i + n)) = unat (sz - i) - unat n" using n(1) by (simp add: unat_sub flip: diff_diff_eq)
  then show ?thesis using n(2) d by simp
qed

termination loadseg
  by (relation "measure (\<lambda>(e, pt, va, reader, off, sz, i, s). unat (sz - i))") (auto simp: Let_def dest: loadseg_step)

declare loadseg.simps [simp del]

text \<open>The fields of the program header at \<open>ph\<close>, and of the ELF header at \<open>eh\<close>.\<close>

abbreviation ph_flags :: "u64 \<Rightarrow> u64" where "ph_flags ph \<equiv> ph + 4"
abbreviation ph_off :: "u64 \<Rightarrow> u64" where "ph_off ph \<equiv> ph + 8"
abbreviation ph_vaddr :: "u64 \<Rightarrow> u64" where "ph_vaddr ph \<equiv> ph + 16"
abbreviation ph_filesz :: "u64 \<Rightarrow> u64" where "ph_filesz ph \<equiv> ph + 32"
abbreviation ph_memsz :: "u64 \<Rightarrow> u64" where "ph_memsz ph \<equiv> ph + 40"
abbreviation eh_entry :: "u64 \<Rightarrow> u64" where "eh_entry eh \<equiv> eh + 24"
abbreviation eh_phoff :: "u64 \<Rightarrow> u64" where "eh_phoff eh \<equiv> eh + 32"
abbreviation eh_phnum :: "u64 \<Rightarrow> u64" where "eh_phnum eh \<equiv> eh + 56"

text \<open>The first loop over the program headers: \<open>Some ()\<close> if one cannot be read.\<close>

definition read_phdrs ::
  "'a tty_state_scheme sysenv \<Rightarrow> elf_reader \<Rightarrow> int \<Rightarrow> nat \<Rightarrow> 'a tty_state_scheme \<Rightarrow> (unit option \<times> 'a tty_state_scheme) outcome" where
  "read_phdrs e reader phoff phnum s =
     for_each (\<lambda>i s.
       let off = phoff + 56 * int i in
       if off \<ge> 2147483648 then Fault ''execve_kernel: signed overflow''
       else bnd (read_elf e reader (e_loc e 11 + 56 * of_nat i) (word_of_int off) 56 s) (\<lambda>(r, s).
         Ok (if r \<noteq> 56 then Some () else None, s))) [0..<phnum] s"

text \<open>
  The second loop maps and fills the segments. The state carries \<open>va_end\<close> and the load bias, which
  is set by the first segment that is loaded; the result is the error number of a failure.
\<close>

definition load_segment ::
  "'a tty_state_scheme sysenv \<Rightarrow> elf_reader \<Rightarrow> u64 \<Rightarrow> nat \<Rightarrow> u64 \<times> u64 option \<times> 'a tty_state_scheme \<Rightarrow>
    (int option \<times> u64 \<times> u64 option \<times> 'a tty_state_scheme) outcome" where
  "load_segment e reader pt i = (\<lambda>(vend, bias, s).
     let ph = e_loc e 11 + 56 * of_nat i; m = mem s in
     if load32 m ph \<noteq> ELF_PROG_LOAD then Ok (None, vend, bias, s)
     else
       let vaddr = load64 m (ph_vaddr ph);
           bias = (case bias of None \<Rightarrow> Some (vaddr - load64 m (ph_off ph)) | Some b \<Rightarrow> Some b);
           vend = vaddr + load64 m (ph_memsz ph)
       in bnd (uvmalloc pt vaddr (vend - vaddr) (flags2perm (to_c_int (uint (load32 m (ph_flags ph))))) s) (\<lambda>(r, s).
          if r < 0 then Ok (Some (- ENOMEM), vend, bias, s)
          else bnd (loadseg e pt vaddr reader (load64 m (ph_off ph)) (load64 m (ph_filesz ph)) 0 s) (\<lambda>(r, s).
            Ok (if r < 0 then Some (- EIO) else None, vend, bias, s))))"

section \<open>Releasing an address space\<close>

definition free_pagetable_vma ::
  "'a tty_state_scheme vfs_tables \<Rightarrow> nat \<Rightarrow> u64 \<Rightarrow> 'a tty_state_scheme \<Rightarrow> 'a tty_state_scheme outcome" where
  "free_pagetable_vma ops p pt s =
     each (\<lambda>i s.
       let vma = vm_area (proc s p) i in
       if \<not> used vma then Ok s
       else
         bnd (kvmunmap pt (va_start vma) (va_end vma - va_start vma) True s) (\<lambda>s.
         bnd (case vma_file vma of None \<Rightarrow> Ok s | Some f \<Rightarrow> fileclose ops f s) (\<lambda>s.
         Ok (upd_proc p (\<lambda>q. q\<lparr>vm_area := (vm_area q)(i := (vm_area q i)\<lparr>used := False\<rparr>)\<rparr>) s)))) [0..<NVMA] s"

definition free_user_layout :: "u64 \<Rightarrow> u64 \<Rightarrow> u64 \<Rightarrow> u64 \<Rightarrow> 'a kern_scheme \<Rightarrow> 'a kern_scheme outcome" where
  "free_user_layout pt heap_t stack_b stack_t s =
     bnd (if heap_t > 0 then uvmunmap pt 0 (to_c_int (uint (PGROUNDUP heap_t div PGSIZE))) True s else Ok s) (\<lambda>s.
     bnd (if stack_t > stack_b then
            uvmunmap pt stack_b (to_c_int (uint (PGROUNDUP (stack_t - stack_b) div PGSIZE))) True s
          else Ok s) (\<lambda>s.
     bnd (for_each (\<lambda>i s. Ok (None :: unit option, store_pte (pt + 8 * of_nat i) 0 s)) [256..<512] s)
     (\<lambda>(_, s). freewalk 3 pt s)))"

text \<open>The labels \<open>bad_unlock_node\<close> and \<open>bad\<close>.\<close>

definition exec_bad ::
  "'a tty_state_scheme sysenv \<Rightarrow> vnode option \<Rightarrow> u64 \<Rightarrow> u64 \<Rightarrow> u64 \<Rightarrow> u64 \<Rightarrow> u64 \<Rightarrow> int \<Rightarrow> 'a tty_state_scheme \<Rightarrow>
    (int \<times> 'a tty_state_scheme) outcome" where
  "exec_bad e node pt vend heap_t stack_b stack_t err s =
     bnd (if node \<noteq> None then vfs_iput (e_ops e) node s else Ok s) (\<lambda>s.
     bnd (if pt \<noteq> 0 then free_user_layout pt (if heap_t = 0 then PGROUNDUP vend else heap_t) stack_b stack_t s else Ok s) (\<lambda>s.
     Ok (err, s)))"

section \<open>The initial stack\<close>

text \<open>
  The loop that copies the arguments to the stack, from the last to the first; the state carries \<open>sp\<close>
  and the addresses so far. \<open>Some ()\<close> if they do not fit or cannot be copied.
\<close>

definition push_arg ::
  "'a tty_state_scheme sysenv \<Rightarrow> u64 \<Rightarrow> u64 \<Rightarrow> nat \<Rightarrow> u64 \<times> u64 list \<times> 'a tty_state_scheme \<Rightarrow>
    (unit option \<times> u64 \<times> u64 list \<times> 'a tty_state_scheme) outcome" where
  "push_arg e pt argv i = (\<lambda>(sp, ptrs, s).
     let a = argv + 128 * of_nat i in
     case strlen (mem s) a of
       None \<Rightarrow> Fault ''execve_kernel: argument without end''
     | Some n \<Rightarrow>
         let len = n + 1; sp = (sp - word_of_int len) AND NOT 0xF in
         if sp < USER_STACK_BOTTOM then Ok (Some (), sp, ptrs, s)
         else bnd (in_kern (copyout (e_rd e) pt sp a len) s) (\<lambda>(r, s).
           Ok (if r < 0 then Some () else None, sp, sp # ptrs, s)))"

definition auxv :: "u64 \<Rightarrow> u64 \<Rightarrow> u64 \<Rightarrow> u64 \<Rightarrow> u64 \<Rightarrow> u64 \<Rightarrow> u64 list" where
  "auxv bias phoff phnum entry random argv0 =
     [3, bias + phoff, 4, 56, 5, phnum, 6, PGSIZE, 9, entry, 11, 0, 12, 0, 13, 0, 14, 0, 23, 0, 25, random, 31, argv0, 0, 0]"

definition stack_image :: "u64 list \<Rightarrow> u64 list \<Rightarrow> u64 list" where
  "stack_image ptrs aux = of_nat (length ptrs) # ptrs @ [0, 0] @ aux"

definition store_words :: "u64 list \<Rightarrow> u64 \<Rightarrow> memory \<Rightarrow> memory" where
  "store_words ws a m = fold (\<lambda>(i, w) m. store64 m (a + 8 * of_nat i) w) (enumerate 0 ws) m"

text \<open>
  From the arguments to the commit: the address of the stack image, or \<open>None\<close> where the source jumps
  to \<open>bad\<close>.
\<close>

definition exec_stack ::
  "'a tty_state_scheme sysenv \<Rightarrow> u64 \<Rightarrow> u64 \<Rightarrow> nat \<Rightarrow> u64 \<Rightarrow> 'a tty_state_scheme \<Rightarrow> (u64 option \<times> 'a tty_state_scheme) outcome" where
  "exec_stack e pt argv argc bias s =
     bnd (for_each (push_arg e pt argv) (rev [0..<argc]) (USER_VA_TOP, [], s)) (\<lambda>(r, sp, ptrs, s).
     if r \<noteq> None then Ok (None, s)
     else
       let s = s\<lparr>mem := memset (mem s) (e_loc e 12) 0 16\<rparr>;
           sp = sp - 16
       in if sp < USER_STACK_BOTTOM then Ok (None, s)
          else bnd (in_kern (copyout (e_rd e) pt sp (e_loc e 12) 16) s) (\<lambda>(r, s).
            if r < 0 then Ok (None, s)
            else
              let eh = e_loc e 10; m = mem s; random_user = sp; sp = sp AND NOT 0xF;
                  ws = stack_image ptrs (auxv bias (load64 m (eh_phoff eh)) (ucast (load16 m (eh_phnum eh)))
                         (load64 m (eh_entry eh)) random_user (hd ptrs));
                  sp = (sp - 8 * of_nat (length ws)) AND NOT 0xF;
                  s = s\<lparr>mem := store_words ws (e_loc e 13) (mem s)\<rparr>
              in if sp < USER_STACK_BOTTOM then Ok (None, s)
                 else bnd (in_kern (copyout (e_rd e) pt sp (e_loc e 13) (8 * int (length ws))) s) (\<lambda>(r, s).
                   Ok (if r < 0 then None else Some sp, s))))"

section \<open>execve\<close>

text \<open>The switch to the new program; from here on the call succeeds.\<close>

definition exec_commit ::
  "'a tty_state_scheme sysenv \<Rightarrow> u64 \<Rightarrow> u64 \<Rightarrow> u64 \<Rightarrow> nat \<Rightarrow> 'a tty_state_scheme \<Rightarrow> (int \<times> 'a tty_state_scheme) outcome" where
  "exec_commit e pt heap sp argc s =
     (let p = cur_proc s; old = proc s p; tf = trapframe (proc s p);
          s = upd_proc p (\<lambda>q. q\<lparr>pagetable := pt\<rparr>) s;
          s = switch_to_process pt s;
          s = upd_proc p (\<lambda>q. q\<lparr>heap_bottom := heap, heap_top := heap, stack_bottom := USER_STACK_BOTTOM, stack_top := USER_VA_TOP\<rparr>) s;
          entry = load64 (mem s) (eh_entry (e_loc e 10));
          m = store64 (mem s) (tf_sp tf) sp;
          m = store64 m (tf_a0 tf) (of_nat argc);
          m = store64 m (tf_a1 tf) (sp + 8);
          m = store64 m (tf_epc tf) entry;
          s = s\<lparr>mem := m\<rparr>
      in bnd (signal_reset_on_exec p s) (\<lambda>s.
         if heap_top old > 0 \<or> stack_top old > stack_bottom old then
           bnd (free_pagetable_vma (e_ops e) p (pagetable old) s) (\<lambda>s.
           bnd (free_user_layout (pagetable old) (heap_top old) (stack_bottom old) (stack_top old) s) (\<lambda>s. Ok (0, s)))
         else Ok (0, s)))"

text \<open>From the end of the segments on: guard page, stack, arguments, commit.\<close>

definition exec_finish ::
  "'a tty_state_scheme sysenv \<Rightarrow> u64 \<Rightarrow> u64 \<Rightarrow> u64 \<Rightarrow> u64 \<Rightarrow> nat \<Rightarrow> 'a tty_state_scheme \<Rightarrow> (int \<times> 'a tty_state_scheme) outcome" where
  "exec_finish e pt vend bias argv argc s =
     (let sz = PGROUNDUP vend in
      bnd (uvmalloc pt sz PGSIZE 0 s) (\<lambda>(r, s).
      if r < 0 then exec_bad e None pt vend 0 0 0 (- ENOMEM) s
      else
        let heap = sz + PGSIZE in
        bnd (uvmalloc pt USER_STACK_BOTTOM 0x10000 3 s) (\<lambda>(r, s).
        if r < 0 then exec_bad e None pt vend heap 0 0 (- ENOMEM) s
        else bnd (exec_stack e pt argv argc bias s) (\<lambda>(r, s).
          case r of
            None \<Rightarrow> exec_bad e None pt vend heap USER_STACK_BOTTOM USER_VA_TOP (- E2BIG) s
          | Some sp \<Rightarrow> exec_commit e pt heap sp argc s))))"

definition exec_load ::
  "'a tty_state_scheme sysenv \<Rightarrow> elf_reader \<Rightarrow> vnode option \<Rightarrow> u64 \<Rightarrow> nat \<Rightarrow> 'a tty_state_scheme \<Rightarrow> (int \<times> 'a tty_state_scheme) outcome" where
  "exec_load e reader node argv argc s =
     (let eh = e_loc e 10 in
      bnd (read_elf e reader eh 0 64 s) (\<lambda>(r, s).
      if r \<noteq> 64 \<or> load32 (mem s) eh \<noteq> ELF_MAGIC then exec_bad e node 0 0 0 0 0 (- ENOEXEC) s
      else bnd (uvmcreate s) (\<lambda>(pt, s).
        if pt = 0 then exec_bad e node 0 0 0 0 0 (- ENOMEM) s
        else
          let phnum = unat (load16 (mem s) (eh_phnum eh)) in
          if phnum > EXEC_MAX_PHDRS then exec_bad e node pt 0 0 0 0 (- ENOEXEC) s
          else bnd (read_phdrs e reader (to_c_int (uint (load64 (mem s) (eh_phoff eh)))) phnum s) (\<lambda>(r, s).
            if r \<noteq> None then exec_bad e node pt 0 0 0 0 (- ENOEXEC) s
            else bnd (for_each (load_segment e reader pt) [0..<phnum] (0, None, s)) (\<lambda>(r, vend, bias, s).
              case r of
                Some err \<Rightarrow> exec_bad e node pt vend 0 0 0 err s
              | None \<Rightarrow>
                  bnd (if node \<noteq> None then vfs_iput (e_ops e) node s else Ok s) (\<lambda>s.
                  exec_finish e pt vend (case bias of None \<Rightarrow> 0 | Some b \<Rightarrow> b) argv argc s))))))"

definition execve_kernel ::
  "'a tty_state_scheme sysenv \<Rightarrow> string option \<Rightarrow> u64 \<Rightarrow> int \<Rightarrow> 'a tty_state_scheme \<Rightarrow> (int \<times> 'a tty_state_scheme) outcome" where
  "execve_kernel e path argv argc s =
     (case path of
        None \<Rightarrow> Ok (- EFAULT, s)
      | Some path \<Rightarrow>
          if path = [] then Ok (- ENOENT, s)
          else if argc \<le> 0 \<or> argc > int EXEC_MAX_ARGS then Ok (- E2BIG, s)
          else if mem s argv = 0 then Ok (- EINVAL, s)
          else case (if path = ''/init'' then e_init e else None) of
            Some d \<Rightarrow> exec_load e (ReadData d) None argv (nat argc) s
          | None \<Rightarrow>
              bnd (vfs_namei (e_ops e) path s) (\<lambda>(node, s).
              case node of
                None \<Rightarrow> Ok (- ENOENT, s)
              | Some n \<Rightarrow> exec_load e (ReadNode n) node argv (nat argc) s))"

text \<open>\<open>exec\<close> with one argument, the path, copied to the stack variable at \<open>e_loc e 14\<close>.\<close>

definition exec :: "'a tty_state_scheme sysenv \<Rightarrow> string \<Rightarrow> 'a tty_state_scheme \<Rightarrow> (int \<times> 'a tty_state_scheme) outcome" where
  "exec e path s =
     (let bs = map (\<lambda>c. of_nat (of_char c)) (take (PATH_MAX - 1) path);
          s = s\<lparr>mem := store_bytes (bs @ replicate (PATH_MAX - length bs) 0) (e_loc e 14) (mem s)\<rparr>
      in execve_kernel e (Some path) (e_loc e 14) 1 s)"

end
