(* ===== verification/Sysproc.thy ===== *)
theory Sysproc
  imports Syscall
begin

text \<open>
  The system calls of \<open>kernel/core/sysproc.c\<close> and \<open>sys_terminal_claim_input\<close> of
  \<open>kernel/fs/devtmpfs/tty.c\<close>. Each takes the surroundings \<open>e\<close> of theory \<open>Syscall\<close>; the variables of a
  call that lie on the kernel stack are at \<open>e_loc e 0\<close>, \<open>e_loc e 1\<close>, \<dots>.
\<close>

unbundle bit_operations_syntax

abbreviation (input) WUNTRACED :: int where "WUNTRACED \<equiv> 2"
abbreviation (input) SIG_BLOCK :: int where "SIG_BLOCK \<equiv> 0"
abbreviation (input) SIG_UNBLOCK :: int where "SIG_UNBLOCK \<equiv> 1"
abbreviation (input) SIG_SETMASK :: int where "SIG_SETMASK \<equiv> 2"

section \<open>Processes\<close>

definition sys_fork :: "'a tty_state_scheme sysenv \<Rightarrow> 'a tty_state_scheme \<Rightarrow> (u64 blocking \<times> 'a tty_state_scheme) outcome" where
  "sys_fork e s = bnd (fork (e_call e) (e_usertrapret e) s) (\<lambda>(r, s). ret r s)"

text \<open>\<open>exit\<close> gives up the CPU for good.\<close>

definition sys_exit :: "'a tty_state_scheme sysenv \<Rightarrow> 'a tty_state_scheme \<Rightarrow> (u64 blocking \<times> 'a tty_state_scheme) outcome" where
  "sys_exit e s = bnd (exit (e_ops e) (argint 0 s) s) (\<lambda>s. Ok (Sleeping, s))"

definition sys_wait4 :: "'a tty_state_scheme sysenv \<Rightarrow> 'a tty_state_scheme \<Rightarrow> (u64 blocking \<times> 'a tty_state_scheme) outcome" where
  "sys_wait4 e s =
     (let wanted = argint 0 s; wstatus = argaddr 1 s; options = argint 2 s in
      if wanted = 0 \<or> wanted < - 1 then ret (- EOPNOTSUPP) s
      else if options AND NOT (WNOHANG OR WUNTRACED) \<noteq> 0 then ret (- EINVAL) s
      else bnd (wait4 (e_rd e) (e_loc e 0) wanted wstatus options s) (\<lambda>(b, s). ret_blocking b s))"

definition sys_getpid :: "'a tty_state_scheme \<Rightarrow> (u64 blocking \<times> 'a tty_state_scheme) outcome" where
  "sys_getpid s = ret (pid (get_proc s)) s"

definition sys_set_tid_address :: "'a tty_state_scheme \<Rightarrow> (u64 blocking \<times> 'a tty_state_scheme) outcome" where
  "sys_set_tid_address s = ret (pid (get_proc s)) s"

definition sys_getuid :: "'a tty_state_scheme \<Rightarrow> (u64 blocking \<times> 'a tty_state_scheme) outcome" where
  "sys_getuid s = ret 0 s"

definition sys_getgid :: "'a tty_state_scheme \<Rightarrow> (u64 blocking \<times> 'a tty_state_scheme) outcome" where
  "sys_getgid s = ret 0 s"

definition sys_setgid :: "'a tty_state_scheme \<Rightarrow> (u64 blocking \<times> 'a tty_state_scheme) outcome" where
  "sys_setgid s = ret 0 s"

definition sys_setuid :: "'a tty_state_scheme \<Rightarrow> (u64 blocking \<times> 'a tty_state_scheme) outcome" where
  "sys_setuid s = ret 0 s"

definition sys_setpriority :: "'a tty_state_scheme \<Rightarrow> (u64 blocking \<times> 'a tty_state_scheme) outcome" where
  "sys_setpriority s = ret 0 s"

definition sys_brk :: "'a tty_state_scheme \<Rightarrow> (u64 blocking \<times> 'a tty_state_scheme) outcome" where
  "sys_brk s = bnd (brk (argaddr 0 s) s) (\<lambda>(r, s). Ok (Done r, s))"

definition sys_getppid :: "'a tty_state_scheme \<Rightarrow> (u64 blocking \<times> 'a tty_state_scheme) outcome" where
  "sys_getppid s = ret (case parent (get_proc s) of None \<Rightarrow> 0 | Some p \<Rightarrow> pid (proc s p)) s"

definition sys_sched_yield :: "'a tty_state_scheme \<Rightarrow> (u64 blocking \<times> 'a tty_state_scheme) outcome" where
  "sys_sched_yield s =
     (if state (get_proc s) = RUNNING then bnd (yield s) (\<lambda>s. Ok (Sleeping, s)) else bnd (yield s) (ret 0))"

text \<open>The rest of \<open>yield\<close> and of the call, once the scheduler has chosen the process again.\<close>

definition sys_sched_yield_resume :: "'a tty_state_scheme \<Rightarrow> (u64 blocking \<times> 'a tty_state_scheme) outcome" where
  "sys_sched_yield_resume s = bnd (release (ProcLock (cur_proc s)) s) (ret 0)"

definition sys_kill :: "'a tty_state_scheme \<Rightarrow> (u64 blocking \<times> 'a tty_state_scheme) outcome" where
  "sys_kill s = bnd (kill (argint 0 s) (argint 1 s) s) (\<lambda>(r, s). ret r s)"

definition sys_terminal_claim_input :: "'a tty_state_scheme \<Rightarrow> (u64 blocking \<times> 'a tty_state_scheme) outcome" where
  "sys_terminal_claim_input s = bnd (terminal_claim_input (argint 0 s) s) (ret 0)"

section \<open>Data for the user\<close>

text \<open>\<open>copyout\<close> to the current process of the \<open>n\<close> bytes at \<open>src\<close>: 0 or \<open>-EFAULT\<close>.\<close>

definition put_user ::
  "'a tty_state_scheme sysenv \<Rightarrow> u64 \<Rightarrow> u64 \<Rightarrow> int \<Rightarrow> 'a tty_state_scheme \<Rightarrow> (u64 blocking \<times> 'a tty_state_scheme) outcome" where
  "put_user e dst src n s =
     bnd (in_kern (copyout (e_rd e) (pagetable (get_proc s)) dst src n) s) (\<lambda>(r, s). ret (if r < 0 then - EFAULT else 0) s)"

definition sys_gettimeofday :: "'a tty_state_scheme sysenv \<Rightarrow> 'a tty_state_scheme \<Rightarrow> (u64 blocking \<times> 'a tty_state_scheme) outcome" where
  "sys_gettimeofday e s =
     (let tv_addr = argaddr 0 s; tv = e_loc e 0; time = e_time e 0 in
      if tv_addr \<noteq> 0 then
        put_user e tv_addr tv 16 (s\<lparr>mem := store64 (store64 (mem s) tv (time div 1000000)) (tv + 8) (time mod 1000000)\<rparr>)
      else ret 0 s)"

definition sys_clock_gettime :: "'a tty_state_scheme sysenv \<Rightarrow> 'a tty_state_scheme \<Rightarrow> (u64 blocking \<times> 'a tty_state_scheme) outcome" where
  "sys_clock_gettime e s =
     (let tp_addr = argaddr 1 s; ts = e_loc e 0; time = e_time e 0 in
      if tp_addr = 0 then ret (- EFAULT) s
      else
        put_user e tp_addr ts 16
          (s\<lparr>mem := store64 (store64 (mem s) ts (time div 1000000)) (ts + 8) ((time mod 1000000) * 1000)\<rparr>))"

definition sys_times :: "'a tty_state_scheme sysenv \<Rightarrow> 'a tty_state_scheme \<Rightarrow> (u64 blocking \<times> 'a tty_state_scheme) outcome" where
  "sys_times e s =
     (let tms_addr = argaddr 0 s; tms = e_loc e 0 in
      bnd (if tms_addr \<noteq> 0 then
             in_kern (copyout (e_rd e) (pagetable (get_proc s)) tms_addr tms 32) (s\<lparr>mem := memset (mem s) tms 0 32\<rparr>)
           else Ok (0, s)) (\<lambda>(r, s).
      if r < 0 then ret (- EFAULT) s else Ok (Done (e_time e 0 div 10000), s)))"

definition put_str :: "memory \<Rightarrow> u64 \<Rightarrow> string \<Rightarrow> memory" where
  "put_str m a str = (\<lambda>x. if unat (x - a) < length str then of_nat (of_char (str ! unat (x - a)))
     else if unat (x - a) = length str then 0 else m x)"

definition sys_uname :: "'a tty_state_scheme sysenv \<Rightarrow> 'a tty_state_scheme \<Rightarrow> (u64 blocking \<times> 'a tty_state_scheme) outcome" where
  "sys_uname e s =
     (let uts = e_loc e 0;
          m = memset (mem s) uts 0 390;
          m = put_str m uts ''FrostVistaOS'';
          m = put_str m (uts + 65) ''frostvista'';
          m = put_str m (uts + 130) ''0.6'';
          m = put_str m (uts + 195) ''oscomp'';
          m = put_str m (uts + 260) ''riscv64'';
          m = put_str m (uts + 325) ''local''
      in put_user e (argaddr 0 s) uts 390 (s\<lparr>mem := m\<rparr>))"

section \<open>Sleeping\<close>

definition timer_subsystem_init :: "'a tty_state_scheme \<Rightarrow> 'a tty_state_scheme" where
  "timer_subsystem_init s = initlock_held TimerLock s"

definition timerintr :: "'a tty_state_scheme \<Rightarrow> 'a tty_state_scheme outcome" where
  "timerintr s = bnd (acquire TimerLock s) (\<lambda>s. bnd (wakeup TimerChan s) (release TimerLock))"

text \<open>
  The deadline of a request at time \<open>now\<close>, or the error: \<open>sec\<close> and \<open>nsec\<close> are the fields of the request.
\<close>

definition nanosleep_deadline :: "u64 \<Rightarrow> u64 \<Rightarrow> u64 \<Rightarrow> int + u64" where
  "nanosleep_deadline sec nsec now =
     (if sint sec < 0 \<or> nsec \<ge> 1000000000 then Inl (- EINVAL)
      else
        let fraction_us = (nsec + 999) div 1000 in
        if sec > (NOT 0 - fraction_us) div 1000000 then Inl (- 1)
        else
          let delta = sec * 1000000 + fraction_us in
          if delta > NOT 0 - now then Inl (- 1) else Inr (now + delta))"

text \<open>One round of the loop with the timer lock held, \<open>now\<close> being the time it reads.\<close>

definition nanosleep_round ::
  "u64 \<Rightarrow> u64 \<Rightarrow> 'a tty_state_scheme \<Rightarrow> (u64 blocking \<times> 'a tty_state_scheme) outcome" where
  "nanosleep_round deadline now s =
     (if now < deadline then
        let p = cur_proc s in
        bnd (acquire (ProcLock p) s) (\<lambda>s.
        let pending = signal_pending (proc s p) in
        bnd (release (ProcLock p) s) (\<lambda>s.
        if pending then bnd (release TimerLock s) (ret (- EINTR))
        else bnd (sleep_begin TimerChan TimerLock s) (\<lambda>s. Ok (Sleeping, s))))
      else bnd (release TimerLock s) (ret 0))"

definition nanosleep_resume ::
  "u64 \<Rightarrow> u64 \<Rightarrow> 'a tty_state_scheme \<Rightarrow> (u64 blocking \<times> 'a tty_state_scheme) outcome" where
  "nanosleep_resume deadline now s = bnd (sleep_end TimerLock s) (nanosleep_round deadline now)"

definition sys_nanosleep :: "'a tty_state_scheme sysenv \<Rightarrow> 'a tty_state_scheme \<Rightarrow> (u64 blocking \<times> 'a tty_state_scheme) outcome" where
  "sys_nanosleep e s =
     (let req_addr = argaddr 0 s; req = e_loc e 0 in
      if req_addr = 0 then ret (- EFAULT) s
      else bnd (in_kern (copyin (e_rd e) (pagetable (get_proc s)) req req_addr 16) s) (\<lambda>(r, s).
        if r < 0 then ret (- EFAULT) s
        else case nanosleep_deadline (load64 (mem s) req) (load64 (mem s) (req + 8)) (e_time e 0) of
          Inl err \<Rightarrow> ret err s
        | Inr deadline \<Rightarrow> bnd (acquire TimerLock s) (nanosleep_round deadline (e_time e 1))))"

section \<open>Signals\<close>

text \<open>A \<open>struct sigaction\<close> in memory.\<close>

definition load_action :: "memory \<Rightarrow> u64 \<Rightarrow> sigaction" where
  "load_action m a = \<lparr>sa_handler = load64 m a, sa_flags = load64 m (a + 8), sa_restorer = load64 m (a + 16),
     sa_mask = load64 m (a + 24)\<rparr>"

definition store_action :: "memory \<Rightarrow> u64 \<Rightarrow> sigaction \<Rightarrow> memory" where
  "store_action m a act =
     store64 (store64 (store64 (store64 m a (sa_handler act)) (a + 8) (sa_flags act)) (a + 16) (sa_restorer act)) (a + 24) (sa_mask act)"

text \<open>
  The action table of the process is not raw memory; the entry that is copied out is written to
  \<open>e_loc e 0\<close>, which stands for its place in the process structure.
\<close>

definition sys_rt_sigaction :: "'a tty_state_scheme sysenv \<Rightarrow> 'a tty_state_scheme \<Rightarrow> (u64 blocking \<times> 'a tty_state_scheme) outcome" where
  "sys_rt_sigaction e s =
     (let sig = argint 0 s; act_addr = argaddr 1 s; old_act_addr = argaddr 2 s; sigsetsize = argint 3 s in
      if sig < 1 \<or> sig \<ge> int NSIG then ret (- EINVAL) s
      else if sigsetsize \<noteq> 8 then ret (- EINVAL) s
      else if sig = int SIGKILL \<or> sig = int SIGSTOP then ret (- EINVAL) s
      else
        let p = cur_proc s; k = nat sig in
        bnd (kmalloc (e_call e) 32 s) (\<lambda>(act, s).
        if act = 0 then ret (- ENOMEM) s
        else bnd (if act_addr \<noteq> 0 then in_kern (copyin (e_rd e) (pagetable (proc s p)) act act_addr 32) s else Ok (0, s)) (\<lambda>(r, s).
          if r < 0 then bnd (kmfree act s) (ret (- EFAULT))
          else bnd (acquire (ProcLock p) s) (\<lambda>s.
            bnd (if old_act_addr \<noteq> 0 then
                   in_kern (copyout (e_rd e) (pagetable (proc s p)) old_act_addr (e_loc e 0) 32)
                     (s\<lparr>mem := store_action (mem s) (e_loc e 0) (actions (proc_sighand (proc s p)) k)\<rparr>)
                 else Ok (0, s)) (\<lambda>(r, s).
            if r < 0 then bnd (release (ProcLock p) s) (\<lambda>s. bnd (kmfree act s) (ret (- EFAULT)))
            else
              let s = (if act_addr \<noteq> 0 then
                         set_sighand p (\<lambda>h. h\<lparr>actions := (actions h)(k := load_action (mem s) act)\<rparr>) s
                       else s)
              in bnd (release (ProcLock p) s) (\<lambda>s. bnd (kmfree act s) (ret 0)))))))"

text \<open>The new mask; \<open>how\<close> has been checked.\<close>

definition new_mask :: "int \<Rightarrow> u64 \<Rightarrow> u64 \<Rightarrow> u64" where
  "new_mask how old new_set =
     (let new_set = new_set AND NOT (SIGMASK SIGKILL OR SIGMASK SIGSTOP) in
      if how = SIG_BLOCK then old OR new_set else if how = SIG_UNBLOCK then old AND NOT new_set else new_set)"

definition sys_rt_sigprocmask :: "'a tty_state_scheme sysenv \<Rightarrow> 'a tty_state_scheme \<Rightarrow> (u64 blocking \<times> 'a tty_state_scheme) outcome" where
  "sys_rt_sigprocmask e s =
     (let how = argint 0 s; set_addr = argaddr 1 s; old_set_addr = argaddr 2 s; sigsetsize = argint 3 s in
      if sigsetsize \<noteq> 8 then ret (- EINVAL) s
      else if set_addr \<noteq> 0 \<and> (how < SIG_BLOCK \<or> how > SIG_SETMASK) then ret (- EINVAL) s
      else
        let p = cur_proc s; old = sig_blocked (proc_sighand (proc s p)) in
        bnd (if set_addr \<noteq> 0 then
               bnd (in_kern (copyin (e_rd e) (pagetable (proc s p)) (e_loc e 0) set_addr 8) s) (\<lambda>(r, s).
               if r < 0 then Ok (r, s)
               else
                 let new_set = load64 (mem s) (e_loc e 0) in
                 bnd (acquire (ProcLock p) s) (\<lambda>s.
                 bnd (release (ProcLock p) (set_sighand p (\<lambda>h. h\<lparr>sig_blocked := new_mask how (sig_blocked h) new_set\<rparr>) s)) (\<lambda>s.
                 Ok (0, s))))
             else Ok (0, s)) (\<lambda>(r, s).
        if r < 0 then ret (- EFAULT) s
        else if old_set_addr \<noteq> 0 then
          put_user e old_set_addr (e_loc e 1) 8 (s\<lparr>mem := store64 (mem s) (e_loc e 1) old\<rparr>)
        else ret 0 s))"

text \<open>The signal frame: the saved trap frame, and behind it the saved mask.\<close>

definition sys_rt_sigreturn :: "'a tty_state_scheme sysenv \<Rightarrow> 'a tty_state_scheme \<Rightarrow> (u64 blocking \<times> 'a tty_state_scheme) outcome" where
  "sys_rt_sigreturn e s =
     (let p = cur_proc s; frame = e_loc e 0; tf = trapframe (proc s p); frame_addr = load64 (mem s) (tf_sp tf) in
      bnd (in_kern (copyin (e_rd e) (pagetable (proc s p)) frame frame_addr 264) s) (\<lambda>(r, s).
      if r < 0 then ret (- EFAULT) s
      else if load64 (mem s) (tf_epc frame) = 0 \<or> load64 (mem s) (tf_sp frame) = 0 then ret (- EINVAL) s
      else
        bnd (acquire (ProcLock p) s) (\<lambda>s.
        let s = s\<lparr>mem := memmove (mem s) tf frame 256\<rparr>;
            s = set_sighand p (\<lambda>h. h\<lparr>sig_blocked := load64 (mem s) (frame + 256)\<rparr>) s
        in bnd (release (ProcLock p) s) (ret 0))))"

definition sys_rt_sigpending :: "'a tty_state_scheme sysenv \<Rightarrow> 'a tty_state_scheme \<Rightarrow> (u64 blocking \<times> 'a tty_state_scheme) outcome" where
  "sys_rt_sigpending e s =
     (let set_addr = argaddr 0 s; p = cur_proc s in
      if set_addr = 0 then ret (- EFAULT) s
      else
        bnd (acquire (ProcLock p) s) (\<lambda>s.
        let pending = sig_pending (proc_sighand (proc s p)) in
        bnd (release (ProcLock p) s) (\<lambda>s.
        put_user e set_addr (e_loc e 0) 8 (s\<lparr>mem := store64 (mem s) (e_loc e 0) pending\<rparr>))))"

end
