(* ===== verification/Sysfile.thy ===== *)
theory Sysfile
  imports Exec Sysproc
begin

text \<open>
  The system calls of \<open>kernel/core/sysfile.c\<close>. The buffers on the kernel stack are at \<open>e_loc e 0\<close>,
  \<open>e_loc e 1\<close>, \<dots>; an open file is an index into \<open>ftable[]\<close>, and an operation of the file gets the
  structure and returns it updated.
\<close>

unbundle bit_operations_syntax

abbreviation (input) SEEK_SET :: int where "SEEK_SET \<equiv> 0"
abbreviation (input) SEEK_CUR :: int where "SEEK_CUR \<equiv> 1"
abbreviation (input) SEEK_END :: int where "SEEK_END \<equiv> 2"
abbreviation (input) MAX_IOV :: int where "MAX_IOV \<equiv> 16"
abbreviation (input) F_DUPFD :: int where "F_DUPFD \<equiv> 0"
abbreviation (input) F_GETFD :: int where "F_GETFD \<equiv> 1"
abbreviation (input) F_SETFD :: int where "F_SETFD \<equiv> 2"
abbreviation (input) F_GETFL :: int where "F_GETFL \<equiv> 3"
abbreviation (input) F_SETFL :: int where "F_SETFL \<equiv> 4"
abbreviation (input) F_DUPFD_CLOEXEC :: int where "F_DUPFD_CLOEXEC \<equiv> 1030"

section \<open>Files and their operations\<close>

definition fd_valid :: "int \<Rightarrow> bool" where
  "fd_valid fd \<longleftrightarrow> 0 \<le> fd \<and> fd < int PROCESS_MAX_OPEN_FILES"

text \<open>\<open>file->node->default_f_ops->op\<close>, with the null checks.\<close>

definition file_op ::
  "('a file_state_scheme vfs_file_ops \<Rightarrow> 'f option) \<Rightarrow> 'a file_state_scheme vfs_tables \<Rightarrow> nat \<Rightarrow> 'a file_state_scheme \<Rightarrow> 'f option" where
  "file_op op ops f s =
     (case f_node (ftable s f) of
        None \<Rightarrow> None
      | Some n \<Rightarrow> (case vi_f_ops (vnodes s n) of None \<Rightarrow> None | Some t \<Rightarrow> op (file_tab ops t)))"

text \<open>The error of a file without the operation.\<close>

definition no_op_error :: "nat \<Rightarrow> 'a file_state_scheme \<Rightarrow> int" where
  "no_op_error f s =
     (case f_node (ftable s f) of Some n \<Rightarrow> if vi_type (vnodes s n) = VFS_DIR then - EISDIR else - EINVAL | None \<Rightarrow> - EINVAL)"

text \<open>A call of the operation \<open>op\<close> on the open file \<open>f\<close>.\<close>

definition call_op ::
  "(kfile \<Rightarrow> u64 \<Rightarrow> u32 \<Rightarrow> 'a file_state_scheme \<Rightarrow> (int \<times> kfile \<times> 'a file_state_scheme) outcome) option \<Rightarrow>
    nat \<Rightarrow> u64 \<Rightarrow> int \<Rightarrow> 'a file_state_scheme \<Rightarrow> (int \<times> 'a file_state_scheme) outcome" where
  "call_op op f buf n s =
     (case op of
        None \<Rightarrow> Fault ''file operation: null pointer''
      | Some g \<Rightarrow> bnd (g (ftable s f) buf (word_of_int n) s) (\<lambda>(r, k, s). Ok (r, upd_file f (\<lambda>_. k) s)))"

definition advance :: "nat \<Rightarrow> int \<Rightarrow> 'a file_state_scheme \<Rightarrow> 'a file_state_scheme" where
  "advance f n s = upd_file f (\<lambda>k. k\<lparr>f_offset := f_offset k + word_of_int n\<rparr>) s"

section \<open>write and read\<close>

function write_loop ::
  "'a tty_state_scheme sysenv \<Rightarrow> nat \<Rightarrow> u64 \<Rightarrow> int \<Rightarrow> int \<Rightarrow> u64 \<Rightarrow> int \<Rightarrow> 'a tty_state_scheme \<Rightarrow> (int \<times> 'a tty_state_scheme) outcome" where
  "write_loop e f buf capacity tot user_ptr reset s =
     (if \<not> reset > 0 then Ok (tot - reset, s)
      else
        let output = (if reset > capacity then capacity else reset) in
        bnd (in_kern (copyin (e_rd e) (pagetable (get_proc s)) buf user_ptr output) s) (\<lambda>(r, s).
        if r < 0 then Ok (if tot \<noteq> reset then tot - reset else - EFAULT, s)
        else bnd (call_op (file_op op_write (e_ops e) f s) f buf output s) (\<lambda>(len, s).
          if len < 0 then Ok (if tot \<noteq> reset then tot - reset else if len = - 1 then - EIO else len, s)
          else if len = 0 then Ok (tot - reset, s)
          else write_loop e f buf capacity tot (user_ptr + word_of_int len) (reset - len) (advance f len s))))"
  by pat_completeness auto
termination
  by (relation "measure (\<lambda>(e, f, buf, capacity, tot, user_ptr, reset, s). nat reset)") auto

declare write_loop.simps [simp del]

definition write_file ::
  "'a tty_state_scheme sysenv \<Rightarrow> nat \<Rightarrow> u64 \<Rightarrow> int \<Rightarrow> 'a tty_state_scheme \<Rightarrow> (u64 blocking \<times> 'a tty_state_scheme) outcome" where
  "write_file e f user_ptr tot s =
     (if file_op op_write (e_ops e) f s = None then ret (no_op_error f s) s
      else if tot > 256 then
        bnd (kalloc s) (\<lambda>(buf, s).
        if buf = 0 then ret (- ENOMEM) s
        else bnd (write_loop e f buf 4096 tot user_ptr tot s) (\<lambda>(r, s). bnd (kfree buf s) (ret r)))
      else bnd (write_loop e f (e_loc e 0) 256 tot user_ptr tot s) (\<lambda>(r, s). ret r s))"

definition sys_write :: "'a tty_state_scheme sysenv \<Rightarrow> 'a tty_state_scheme \<Rightarrow> (u64 blocking \<times> 'a tty_state_scheme) outcome" where
  "sys_write e s =
     (let fd = argint 0 s; user_ptr = argaddr 1 s; tot = argint 2 s in
      if tot < 0 then ret (- EINVAL) s
      else if \<not> fd_valid fd then ret (- EBADF) s
      else case ofile (get_proc s) (nat fd) of
        None \<Rightarrow> ret (- EBADF) s
      | Some f \<Rightarrow>
          if \<not> f_writable (ftable s f) then ret (- EBADF) s
          else
            bnd (acquire FtableLock s) (\<lambda>s.
            bnd (if f_append (ftable s f) then
                   case f_node (ftable s f) of
                     None \<Rightarrow> Fault ''sys_write: null pointer''
                   | Some n \<Rightarrow> Ok (upd_file f (\<lambda>k. k\<lparr>f_offset := vi_size (vnodes s n)\<rparr>) s)
                 else Ok s) (\<lambda>s.
            bnd (release FtableLock s) (\<lambda>s.
            if f_type (ftable s f) = FILE_PIPE then
              if f_pipe (ftable s f) = 0 then ret (- EBADF) s
              else bnd (pipe_write (e_rd e) (e_loc e 1) (f_pipe (ftable s f)) user_ptr (word_of_int tot) s) (\<lambda>(b, i, s).
                ret_blocking b s)
            else write_file e f user_ptr tot s))))"

function read_loop ::
  "'a tty_state_scheme sysenv \<Rightarrow> nat \<Rightarrow> bool \<Rightarrow> u64 \<Rightarrow> int \<Rightarrow> int \<Rightarrow> 'a tty_state_scheme \<Rightarrow> (int \<times> 'a tty_state_scheme) outcome" where
  "read_loop e f is_stream dest reset total_read s =
     (if \<not> reset > 0 then Ok (total_read, s)
      else
        let output = (if reset \<ge> 256 then 255 else reset); buf = e_loc e 0 in
        bnd (call_op (file_op op_read (e_ops e) f s) f buf output s) (\<lambda>(len, s).
        if len < 0 then Ok (if total_read > 0 then total_read else if len = - 1 then - EIO else len, s)
        else if len = 0 then Ok (total_read, s)
        else if len \<ge> 256 then Fault ''sys_read: index out of range''
        else
          let s = advance f len s;
              s = s\<lparr>mem := (mem s)(buf + word_of_int len := 0)\<rparr>
          in bnd (in_kern (copyout (e_rd e) (pagetable (get_proc s)) dest buf len) s) (\<lambda>(r, s).
             if r < 0 then Ok (if total_read > 0 then total_read else - EFAULT, s)
             else if is_stream then Ok (total_read + len, s)
             else read_loop e f is_stream (dest + word_of_int len) (reset - len) (total_read + len) s)))"
  by pat_completeness auto
termination
  by (relation "measure (\<lambda>(e, f, is_stream, dest, reset, total_read, s). nat reset)") auto

declare read_loop.simps [simp del]

definition sys_read :: "'a tty_state_scheme sysenv \<Rightarrow> 'a tty_state_scheme \<Rightarrow> (u64 blocking \<times> 'a tty_state_scheme) outcome" where
  "sys_read e s =
     (let fd = argint 0 s; dest = argaddr 1 s; sz = argint 2 s;
          s = s\<lparr>mem := memset (mem s) (e_loc e 0) 0 256\<rparr> in
      if sz < 0 then ret (- EINVAL) s
      else if \<not> fd_valid fd then ret (- EBADF) s
      else case ofile (get_proc s) (nat fd) of
        None \<Rightarrow> ret (- EBADF) s
      | Some f \<Rightarrow>
          if \<not> f_readable (ftable s f) then ret (- EBADF) s
          else if f_type (ftable s f) = FILE_PIPE then
            if f_pipe (ftable s f) = 0 then ret (- EBADF) s
            else bnd (pipe_read (e_rd e) (e_loc e 1) (f_pipe (ftable s f)) dest (word_of_int sz) s) (\<lambda>(b, s). ret_blocking b s)
          else if file_op op_read (e_ops e) f s = None then ret (no_op_error f s) s
          else
            let is_stream = (case f_node (ftable s f) of Some n \<Rightarrow> vi_type (vnodes s n) = VFS_DEV | None \<Rightarrow> False)
            in bnd (read_loop e f is_stream dest sz 0 s) (\<lambda>(r, s). ret r s))"

section \<open>readv and writev\<close>

definition file_read_chunk ::
  "'a tty_state_scheme sysenv \<Rightarrow> nat \<Rightarrow> u64 \<Rightarrow> int \<Rightarrow> 'a tty_state_scheme \<Rightarrow> (int blocking \<times> 'a tty_state_scheme) outcome" where
  "file_read_chunk e f buf n s =
     (if f_type (ftable s f) = FILE_PIPE then
        if f_pipe (ftable s f) = 0 then Ok (Done (- EBADF), s)
        else pipe_read (e_rd e) (e_loc e 1) (f_pipe (ftable s f)) buf (word_of_int n) s
      else if file_op op_read (e_ops e) f s = None then Ok (Done (no_op_error f s), s)
      else bnd (call_op (file_op op_read (e_ops e) f s) f buf n s) (\<lambda>(r, s). Ok (Done r, s)))"

definition file_write_chunk ::
  "'a tty_state_scheme sysenv \<Rightarrow> nat \<Rightarrow> u64 \<Rightarrow> int \<Rightarrow> 'a tty_state_scheme \<Rightarrow> (int blocking \<times> 'a tty_state_scheme) outcome" where
  "file_write_chunk e f buf n s =
     (if f_type (ftable s f) = FILE_PIPE then
        if f_pipe (ftable s f) = 0 then Ok (Done (- EBADF), s)
        else bnd (pipe_write (e_rd e) (e_loc e 1) (f_pipe (ftable s f)) buf (word_of_int n) s) (\<lambda>(b, i, s). Ok (b, s))
      else if file_op op_write (e_ops e) f s = None then Ok (Done (no_op_error f s), s)
      else bnd (call_op (file_op op_write (e_ops e) f s) f buf n s) (\<lambda>(r, s). Ok (Done r, s)))"

text \<open>
  The inner loops: the data of one iovec. \<open>Inl\<close> is the result of the system call where the loop
  returns from it, \<open>Inr\<close> the running total. A chunk has at most 256 bytes, the size of the buffer; a file
  operation that returns more than it was asked for has overrun it, which is a fault.
\<close>

function readv_loop ::
  "'a tty_state_scheme sysenv \<Rightarrow> nat \<Rightarrow> u64 \<Rightarrow> u64 \<Rightarrow> int \<Rightarrow> 'a tty_state_scheme \<Rightarrow> ((int blocking + int) \<times> 'a tty_state_scheme) outcome" where
  "readv_loop e f dst left tot s =
     (if left = 0 then Ok (Inr tot, s)
      else
        let chunk = (if left > 256 then 256 else uint left); buf = e_loc e 0 in
        bnd (file_read_chunk e f buf chunk s) (\<lambda>(b, s).
        case b of
          Sleeping \<Rightarrow> Ok (Inl Sleeping, s)
        | Done n \<Rightarrow>
            if n < 0 then Ok (Inl (Done (if tot > 0 then tot else if n = - 1 then - EIO else n)), s)
            else if n = 0 then Ok (Inl (Done tot), s)
            else if n > chunk then Fault ''readv: more bytes than the buffer holds''
            else
              bnd (in_kern (copyout (e_rd e) (pagetable (get_proc s)) dst buf n) (advance f n s)) (\<lambda>(r, s).
              if r < 0 then Ok (Inl (Done (if tot > 0 then tot else - EFAULT)), s)
              else readv_loop e f (dst + word_of_int n) (left - word_of_int n) (tot + n) s)))"
  by pat_completeness auto

lemma left_decreases:
  assumes "left \<noteq> (0 :: u64)" "0 < n" "n \<le> (if left > 256 then 256 else uint left)"
  shows "unat (left - word_of_int n) < unat left"
proof -
  have n: "n \<le> uint left" using assms(3) by (simp add: word_less_def split: if_splits)
  then have "uint (word_of_int n :: u64) = n" using assms(2) uint_lt2p [of left] by (simp add: uint_word_of_int)
  then have "uint (left - word_of_int n) = uint left - n" using n by (subst uint_sub_lem [THEN iffD1]) simp_all
  then show ?thesis using assms(2) n by (simp flip: nat_uint_eq add: nat_less_iff)
qed

termination readv_loop
proof (relation "measure (\<lambda>(e, f, dst, left, tot, s). unat left)", goal_cases)
  case (2 e f dst left tot s chunk buf b)
  then show ?case using left_decreases [of left] by (simp add: not_less not_le)
qed simp

declare readv_loop.simps [simp del]

function writev_loop ::
  "'a tty_state_scheme sysenv \<Rightarrow> nat \<Rightarrow> u64 \<Rightarrow> u64 \<Rightarrow> int \<Rightarrow> 'a tty_state_scheme \<Rightarrow> ((int blocking + int) \<times> 'a tty_state_scheme) outcome" where
  "writev_loop e f src left tot s =
     (if left = 0 then Ok (Inr tot, s)
      else
        let chunk = (if left > 256 then 256 else uint left); buf = e_loc e 0 in
        bnd (in_kern (copyin (e_rd e) (pagetable (get_proc s)) buf src chunk) s) (\<lambda>(r, s).
        if r < 0 then Ok (Inl (Done (if tot > 0 then tot else - EFAULT)), s)
        else bnd (file_write_chunk e f buf chunk s) (\<lambda>(b, s).
          case b of
            Sleeping \<Rightarrow> Ok (Inl Sleeping, s)
          | Done n \<Rightarrow>
              if n < 0 then Ok (Inl (Done (if tot > 0 then tot else if n = - 1 then - EIO else n)), s)
              else if n = 0 then Ok (Inl (Done tot), s)
              else if n > chunk then Fault ''writev: more bytes than the buffer holds''
              else writev_loop e f (src + word_of_int n) (left - word_of_int n) (tot + n) (advance f n s))))"
  by pat_completeness auto
termination
proof (relation "measure (\<lambda>(e, f, src, left, tot, s). unat left)", goal_cases)
  case (2 e f src left tot s chunk buf)
  then show ?case using left_decreases [of left] by (simp add: not_less not_le)
qed simp

declare writev_loop.simps [simp del]

text \<open>The loop over the iovecs, which are copied to \<open>e_loc e 2\<close> one after the other.\<close>

fun iov_loop ::
  "'a tty_state_scheme sysenv \<Rightarrow> (u64 \<Rightarrow> u64 \<Rightarrow> int \<Rightarrow> 'a tty_state_scheme \<Rightarrow> ((int blocking + int) \<times> 'a tty_state_scheme) outcome) \<Rightarrow>
    nat \<Rightarrow> u64 \<Rightarrow> int \<Rightarrow> 'a tty_state_scheme \<Rightarrow> (int blocking \<times> 'a tty_state_scheme) outcome" where
  "iov_loop e body 0 iov_addr tot s = Ok (Done tot, s)"
| "iov_loop e body (Suc n) iov_addr tot s =
     bnd (in_kern (copyin (e_rd e) (pagetable (get_proc s)) (e_loc e 2) iov_addr 16) s) (\<lambda>(r, s).
     if r < 0 then Ok (Done (if tot > 0 then tot else - EFAULT), s)
     else bnd (body (load64 (mem s) (e_loc e 2)) (load64 (mem s) (e_loc e 2 + 8)) tot s) (\<lambda>(x, s).
       case x of Inl b \<Rightarrow> Ok (b, s) | Inr tot \<Rightarrow> iov_loop e body n (iov_addr + 16) tot s))"

definition sys_readv :: "'a tty_state_scheme sysenv \<Rightarrow> 'a tty_state_scheme \<Rightarrow> (u64 blocking \<times> 'a tty_state_scheme) outcome" where
  "sys_readv e s =
     (let fd = argint 0 s; iov_addr = argaddr 1 s; iovcnt = argint 2 s in
      if iovcnt < 0 \<or> iovcnt > MAX_IOV then ret (- EINVAL) s
      else if \<not> fd_valid fd then ret (- EBADF) s
      else case ofile (get_proc s) (nat fd) of
        None \<Rightarrow> ret (- EBADF) s
      | Some f \<Rightarrow>
          if \<not> f_readable (ftable s f) then ret (- EBADF) s
          else bnd (iov_loop e (readv_loop e f) (nat iovcnt) iov_addr 0 s) (\<lambda>(b, s). ret_blocking b s))"

definition sys_writev :: "'a tty_state_scheme sysenv \<Rightarrow> 'a tty_state_scheme \<Rightarrow> (u64 blocking \<times> 'a tty_state_scheme) outcome" where
  "sys_writev e s =
     (let fd = argint 0 s; iov_addr = argaddr 1 s; iovcnt = argint 2 s in
      if iovcnt < 0 \<or> iovcnt > MAX_IOV then ret (- EINVAL) s
      else if \<not> fd_valid fd then ret (- EBADF) s
      else case ofile (get_proc s) (nat fd) of
        None \<Rightarrow> ret (- EBADF) s
      | Some f \<Rightarrow>
          if \<not> f_writable (ftable s f) then ret (- EBADF) s
          else bnd (iov_loop e (writev_loop e f) (nat iovcnt) iov_addr 0 s) (\<lambda>(b, s). ret_blocking b s))"

section \<open>Descriptors\<close>

definition sys_close :: "'a tty_state_scheme sysenv \<Rightarrow> 'a tty_state_scheme \<Rightarrow> (u64 blocking \<times> 'a tty_state_scheme) outcome" where
  "sys_close e s =
     (let fd = argint 0 s; p = cur_proc s in
      if \<not> fd_valid fd \<or> ofile (proc s p) (nat fd) = None then ret (- EBADF) s
      else
        bnd (acquire (ProcLock p) s) (\<lambda>s.
        case ofile (proc s p) (nat fd) of
          None \<Rightarrow> bnd (release (ProcLock p) s) (ret (- EBADF))
        | Some f \<Rightarrow>
            let s = upd_proc p (\<lambda>q. q\<lparr>ofile := (ofile q)(nat fd := None)\<rparr>) s in
            bnd (release (ProcLock p) s) (\<lambda>s. bnd (fileclose (e_ops e) f s) (ret 0))))"

definition sys_dup :: "'a tty_state_scheme \<Rightarrow> (u64 blocking \<times> 'a tty_state_scheme) outcome" where
  "sys_dup s = bnd (dup (argint 0 s) s) (\<lambda>(r, s). ret r s)"

definition sys_dup3 :: "'a tty_state_scheme sysenv \<Rightarrow> 'a tty_state_scheme \<Rightarrow> (u64 blocking \<times> 'a tty_state_scheme) outcome" where
  "sys_dup3 e s =
     (let oldfd = argint 0 s; newfd = argint 1 s; flags = argint 2 s; p = cur_proc s in
      if \<not> fd_valid oldfd \<or> ofile (proc s p) (nat oldfd) = None then ret (- EBADF) s
      else if \<not> fd_valid newfd then ret (- EBADF) s
      else if newfd = oldfd then ret (- EINVAL) s
      else if flags \<noteq> 0 then ret (- EINVAL) s
      else
        bnd (acquire (ProcLock p) s) (\<lambda>s.
        let oldfile = ofile (proc s p) (nat oldfd); newfile = ofile (proc s p) (nat newfd) in
        if newfile = oldfile then bnd (release (ProcLock p) s) (ret newfd)
        else case oldfile of
          None \<Rightarrow> Fault ''sys_dup3: null pointer''
        | Some f \<Rightarrow>
            bnd (acquire FtableLock s) (\<lambda>s.
            bnd (release FtableLock (upd_file f (\<lambda>k. k\<lparr>ref_count := ref_count k + 1\<rparr>) s)) (\<lambda>s.
            let s = upd_proc p (\<lambda>q. q\<lparr>ofile := (ofile q)(nat newfd := Some f)\<rparr>) s in
            bnd (release (ProcLock p) s) (\<lambda>s.
            bnd (case newfile of None \<Rightarrow> Ok s | Some g \<Rightarrow> fileclose (e_ops e) g s) (ret newfd))))))"

definition sys_fcntl :: "'a tty_state_scheme \<Rightarrow> (u64 blocking \<times> 'a tty_state_scheme) outcome" where
  "sys_fcntl s =
     (let fd = argint 0 s; cmd = argint 1 s; arg = argint 2 s in
      if \<not> fd_valid fd then ret (- EBADF) s
      else case ofile (get_proc s) (nat fd) of
        None \<Rightarrow> ret (- EBADF) s
      | Some f \<Rightarrow>
          if cmd = F_DUPFD \<or> cmd = F_DUPFD_CLOEXEC then
            if arg < 0 \<or> arg \<ge> int PROCESS_MAX_OPEN_FILES then ret (- EINVAL) s
            else bnd (dup_from fd arg s) (\<lambda>(r, s). ret r s)
          else if cmd = F_GETFD \<or> cmd = F_SETFD then ret 0 s
          else if cmd = F_GETFL then
            let k = ftable s f;
                flags = (if f_readable k \<and> f_writable k then O_RDWR else if f_writable k then O_WRONLY else O_RDONLY)
            in ret (if f_append k then flags OR O_APPEND else flags) s
          else if cmd = F_SETFL then ret 0 s
          else ret (- EINVAL) s)"

text \<open>
  \<open>sys_lseek\<close>: the sums are of type \<open>int64\<close>, and their overflow is undefined behaviour.
\<close>

definition lseek_next :: "int \<Rightarrow> int \<Rightarrow> kfile \<Rightarrow> 'a vfs_state_scheme \<Rightarrow> (int option) outcome" where
  "lseek_next off whence k s =
     (let sum = (\<lambda>base. let n = base + off in
            if n < - (2 ^ 63) \<or> n \<ge> 2 ^ 63 then Fault ''sys_lseek: signed overflow'' else Ok (Some n)) in
      if whence = SEEK_SET then Ok (Some off)
      else if whence = SEEK_CUR then sum (sint (f_offset k))
      else if whence = SEEK_END then
        (case f_node k of None \<Rightarrow> Ok None | Some n \<Rightarrow> sum (sint (vi_size (vnodes s n))))
      else Ok None)"

definition sys_lseek :: "'a tty_state_scheme \<Rightarrow> (u64 blocking \<times> 'a tty_state_scheme) outcome" where
  "sys_lseek s =
     (let fd = argint 0 s; off = sint (argaddr 1 s); whence = argint 2 s in
      if \<not> fd_valid fd then ret (- EBADF) s
      else case ofile (get_proc s) (nat fd) of
        None \<Rightarrow> ret (- EBADF) s
      | Some f \<Rightarrow>
          let k = ftable s f in
          if f_type k = FILE_PIPE \<or> (case f_node k of None \<Rightarrow> False | Some n \<Rightarrow> vi_type (vnodes s n) = VFS_DEV) then ret (- ESPIPE) s
          else bnd (lseek_next off whence k s) (\<lambda>r.
            case r of
              None \<Rightarrow> ret (- EINVAL) s
            | Some n \<Rightarrow> if n < 0 then ret (- EINVAL) s else ret n (upd_file f (\<lambda>k. k\<lparr>f_offset := word_of_int n\<rparr>) s)))"

section \<open>Pipes\<close>

definition clear_fd :: "nat \<Rightarrow> int \<Rightarrow> 'a kern_scheme \<Rightarrow> 'a kern_scheme" where
  "clear_fd p fd s = (if fd \<ge> 0 then upd_proc p (\<lambda>q. q\<lparr>ofile := (ofile q)(nat fd := None)\<rparr>) s else s)"

definition pipe2_fail ::
  "'a tty_state_scheme vfs_tables \<Rightarrow> nat \<Rightarrow> int \<Rightarrow> int \<Rightarrow> nat \<Rightarrow> nat \<Rightarrow> int \<Rightarrow> 'a tty_state_scheme \<Rightarrow>
    (u64 blocking \<times> 'a tty_state_scheme) outcome" where
  "pipe2_fail ops p fd0 fd1 r w err s =
     bnd (acquire (ProcLock p) s) (\<lambda>s.
     bnd (release (ProcLock p) (clear_fd p fd1 (clear_fd p fd0 s))) (\<lambda>s.
     bnd (fileclose ops r s) (\<lambda>s. bnd (fileclose ops w s) (ret err))))"

definition sys_pipe2 :: "'a tty_state_scheme sysenv \<Rightarrow> 'a tty_state_scheme \<Rightarrow> (u64 blocking \<times> 'a tty_state_scheme) outcome" where
  "sys_pipe2 e s =
     (let fdaddr = argaddr 0 s; flags = argint 1 s; p = cur_proc s; fd = e_loc e 0 in
      if flags \<noteq> 0 then ret (- EINVAL) s
      else bnd (pipe_alloc (e_call e) (e_ops e) s) (\<lambda>(r, rf, wf, s).
        if r < 0 then ret r s
        else case (rf, wf) of
          (Some rd, Some wr) \<Rightarrow>
            bnd (alloc_fd p rd s) (\<lambda>(fd0, s).
            if fd0 < 0 then pipe2_fail (e_ops e) p fd0 (- 1) rd wr (- EMFILE) s
            else bnd (alloc_fd p wr s) (\<lambda>(fd1, s).
              if fd1 < 0 then pipe2_fail (e_ops e) p fd0 fd1 rd wr (- EMFILE) s
              else
                let s = s\<lparr>mem := store32 (store32 (mem s) fd (word_of_int fd0)) (fd + 4) (word_of_int fd1)\<rparr> in
                bnd (in_kern (copyout (e_rd e) (pagetable (proc s p)) fdaddr fd 8) s) (\<lambda>(r, s).
                if r < 0 then pipe2_fail (e_ops e) p fd0 fd1 rd wr (- EFAULT) s else ret 0 s)))
        | _ \<Rightarrow> Fault ''sys_pipe2: null pointer''))"

section \<open>Names\<close>

definition sys_fstat :: "'a tty_state_scheme sysenv \<Rightarrow> 'a tty_state_scheme \<Rightarrow> (u64 blocking \<times> 'a tty_state_scheme) outcome" where
  "sys_fstat e s = bnd (filestat (e_rd e) (e_ops e) (e_loc e 0) (argint 0 s) (argaddr 1 s) s) (\<lambda>(r, s). ret r s)"

definition sys_open :: "'a tty_state_scheme sysenv \<Rightarrow> 'a tty_state_scheme \<Rightarrow> (u64 blocking \<times> 'a tty_state_scheme) outcome" where
  "sys_open e s =
     (let flags = argint 1 s in
      with_path e 0 (e_loc e 0) (\<lambda>path s. bnd (open_file (e_ops e) (Some path) flags s) (\<lambda>(b, s). ret_blocking b s)) s)"

definition sys_openat :: "'a tty_state_scheme sysenv \<Rightarrow> 'a tty_state_scheme \<Rightarrow> (u64 blocking \<times> 'a tty_state_scheme) outcome" where
  "sys_openat e s =
     (let dirfd = argint 0 s; flags = argint 2 s;
          s = s\<lparr>mem := memset (mem s) (e_loc e 0) 0 128\<rparr> in
      with_path e 1 (e_loc e 0) (\<lambda>path s. bnd (openat (e_ops e) dirfd (Some path) flags s) (\<lambda>(b, s). ret_blocking b s)) s)"

definition sys_mkdirat :: "'a tty_state_scheme sysenv \<Rightarrow> 'a tty_state_scheme \<Rightarrow> (u64 blocking \<times> 'a tty_state_scheme) outcome" where
  "sys_mkdirat e s =
     (let dirfd = argint 0 s; mode = argint 2 s in
      with_path e 1 (e_loc e 0) (\<lambda>path s. bnd (mkdirat (e_ops e) dirfd (Some path) mode s) (\<lambda>(r, s). ret r s)) s)"

definition sys_unlinkat :: "'a tty_state_scheme sysenv \<Rightarrow> 'a tty_state_scheme \<Rightarrow> (u64 blocking \<times> 'a tty_state_scheme) outcome" where
  "sys_unlinkat e s =
     (let dirfd = argint 0 s; flags = argint 2 s in
      with_path e 1 (e_loc e 0) (\<lambda>path s. bnd (unlinkat (e_ops e) dirfd (Some path) flags s) (\<lambda>(r, s). ret r s)) s)"

definition sys_linkat :: "'a tty_state_scheme \<Rightarrow> (u64 blocking \<times> 'a tty_state_scheme) outcome" where
  "sys_linkat s = ret (- ENOSYS) s"

definition sys_ioctl :: "'a tty_state_scheme \<Rightarrow> (u64 blocking \<times> 'a tty_state_scheme) outcome" where
  "sys_ioctl s = ret (- ENOSYS) s"

definition sys_mount :: "'a tty_state_scheme \<Rightarrow> (u64 blocking \<times> 'a tty_state_scheme) outcome" where
  "sys_mount s = ret (- ENOSYS) s"

definition sys_umount2 :: "'a tty_state_scheme \<Rightarrow> (u64 blocking \<times> 'a tty_state_scheme) outcome" where
  "sys_umount2 s = ret (- ENOSYS) s"

definition sys_newfstatat :: "'a tty_state_scheme sysenv \<Rightarrow> 'a tty_state_scheme \<Rightarrow> (u64 blocking \<times> 'a tty_state_scheme) outcome" where
  "sys_newfstatat e s =
     (let dirfd = argint 0 s; st_ptr = argaddr 2 s in
      if st_ptr = 0 then ret (- EFAULT) s
      else with_path e 1 (e_loc e 0) (\<lambda>path s.
        bnd (openat (e_ops e) dirfd (Some path) O_RDONLY s) (\<lambda>(b, s).
        case b of
          Sleeping \<Rightarrow> Ok (Sleeping, s)
        | Done fd \<Rightarrow>
            if fd < 0 then ret fd s
            else bnd (filestat (e_rd e) (e_ops e) (e_loc e 1) fd st_ptr s) (\<lambda>(r, s).
              let p = cur_proc s; f = ofile (proc s p) (nat fd);
                  s = upd_proc p (\<lambda>q. q\<lparr>ofile := (ofile q)(nat fd := None)\<rparr>) s
              in bnd (close_opt (e_ops e) f s) (ret r)))) s)"

definition sys_getcwd :: "'a tty_state_scheme sysenv \<Rightarrow> 'a tty_state_scheme \<Rightarrow> (u64 blocking \<times> 'a tty_state_scheme) outcome" where
  "sys_getcwd e s =
     (let buf = argaddr 0 s; sz = argint 1 s; dir = cwd (get_proc s); len = int (length dir) + 1 in
      if sz \<le> 0 then ret (- EINVAL) s
      else if buf = 0 then ret (- EFAULT) s
      else if len > sz then ret (- ERANGE) s
      else
        bnd (in_kern (copyout (e_rd e) (pagetable (get_proc s)) buf (e_loc e 0) len)
          (s\<lparr>mem := put_str (mem s) (e_loc e 0) dir\<rparr>)) (\<lambda>(r, s).
        if r < 0 then ret (- EFAULT) s else Ok (Done buf, s)))"

definition sys_chdir :: "'a tty_state_scheme sysenv \<Rightarrow> 'a tty_state_scheme \<Rightarrow> (u64 blocking \<times> 'a tty_state_scheme) outcome" where
  "sys_chdir e s =
     with_path e 0 (e_loc e 0) (\<lambda>path s.
       if path = [] then ret (- ENOENT) s
       else
         let p = cur_proc s; fullpath = vfs_make_absolute_path s path;
             enter = upd_proc p (\<lambda>q. q\<lparr>cwd := take (PATH_MAX - 1) fullpath\<rparr>)
         in if fullpath = ''/'' then ret 0 (enter s)
            else case vfs_root s of
              None \<Rightarrow> Fault ''sys_chdir: null pointer''
            | Some root \<Rightarrow>
                bnd (vfs_lookup_at (e_ops e) root fullpath s) (\<lambda>(node, s).
                case node of
                  None \<Rightarrow> ret (- ENOENT) s
                | Some n \<Rightarrow>
                    if vi_type (vnodes s n) = VFS_DIR then bnd (vfs_iput (e_ops e) node (enter s)) (ret 0)
                    else bnd (vfs_iput (e_ops e) node s) (ret (- ENOTDIR)))) s"

section \<open>Directories\<close>

definition dirent_type :: "int \<Rightarrow> u8" where
  "dirent_type t = (if t = VFS_DIR then 4 else if t = VFS_DEV then 2 else 8)"

definition dirent_reclen :: "string \<Rightarrow> u64" where
  "dirent_reclen name = ALIGN_UP (19 + of_nat (length name) + 1) 8"

text \<open>The \<open>struct linux_dirent64\<close> at \<open>a\<close>.\<close>

definition store_dirent :: "memory \<Rightarrow> u64 \<Rightarrow> vfs_dirent \<Rightarrow> u64 \<Rightarrow> memory" where
  "store_dirent m a de off =
     (let m = memset m a 0 256;
          m = store64 m a (ucast (de_ino de));
          m = m(a + 18 := dirent_type (de_type de));
          m = put_str m (a + 19) (de_name de);
          m = store_le 2 m (a + 16) (dirent_reclen (de_name de))
      in store64 m (a + 8) off)"

text \<open>
  The loop of \<open>sys_getdents64\<close>. A record has at least 24 bytes, so that \<open>used\<close> grows; the guard for a
  record of length 0 is never taken.
\<close>

function getdents_loop ::
  "'a tty_state_scheme sysenv \<Rightarrow> nat \<Rightarrow> u64 \<Rightarrow> nat \<Rightarrow> nat \<Rightarrow> 'a tty_state_scheme \<Rightarrow> (int \<times> 'a tty_state_scheme) outcome" where
  "getdents_loop e f buf cnt usd s =
     (let old_off = f_offset (ftable s f) in
      case file_op op_readdir (e_ops e) f s of
        None \<Rightarrow> Fault ''sys_getdents64: null pointer''
      | Some readdir \<Rightarrow>
          bnd (readdir (ftable s f) s) (\<lambda>(r, de, k, s).
          let s = upd_file f (\<lambda>_. k) s in
          if r = 0 then Ok (int usd, s)
          else if r < 0 then Ok (if usd \<noteq> 0 then int usd else if r = - 1 then - EIO else r, s)
          else bnd (kmalloc (e_call e) 256 s) (\<lambda>(d, s).
            if d = 0 then Ok (if usd \<noteq> 0 then int usd else - ENOMEM, s)
            else
              let s = s\<lparr>mem := store_dirent (mem s) d de (f_offset (ftable s f))\<rparr>;
                  reclen = unat (dirent_reclen (de_name de))
              in if usd + reclen > cnt then
                   bnd (kmfree d (upd_file f (\<lambda>k. k\<lparr>f_offset := old_off\<rparr>) s)) (\<lambda>s.
                   Ok (if usd = 0 then - EINVAL else int usd, s))
                 else if reclen = 0 then Fault ''sys_getdents64: no progress''
                 else bnd (in_kern (copyout (e_rd e) (pagetable (get_proc s)) (buf + of_nat usd) d (int reclen)) s) (\<lambda>(r, s).
                   if r < 0 then bnd (kmfree d s) (\<lambda>s. Ok (if usd \<noteq> 0 then int usd else - EFAULT, s))
                   else bnd (kmfree d s) (\<lambda>s. getdents_loop e f buf cnt (usd + reclen) s)))))"
  by pat_completeness auto
termination
  by (relation "measure (\<lambda>(e, f, buf, cnt, usd, s). cnt - usd)") auto

declare getdents_loop.simps [simp del]

definition sys_getdents64 :: "'a tty_state_scheme sysenv \<Rightarrow> 'a tty_state_scheme \<Rightarrow> (u64 blocking \<times> 'a tty_state_scheme) outcome" where
  "sys_getdents64 e s =
     (let fd = argint 0 s; buf = argaddr 1 s; cnt = argint 2 s in
      if cnt < 0 then ret (- EINVAL) s
      else if \<not> fd_valid fd then ret (- EBADF) s
      else case ofile (get_proc s) (nat fd) of
        None \<Rightarrow> ret (- EBADF) s
      | Some f \<Rightarrow>
          (case f_node (ftable s f) of
             None \<Rightarrow> ret (- ENOTDIR) s
           | Some n \<Rightarrow>
               if vi_type (vnodes s n) \<noteq> VFS_DIR then ret (- ENOTDIR) s
               else if file_op op_readdir (e_ops e) f s = None then ret (- ENOTDIR) s
               else bnd (getdents_loop e f buf (nat cnt) 0 s) (\<lambda>(r, s). ret r s)))"

section \<open>Memory areas\<close>

definition sys_mmap :: "'a tty_state_scheme \<Rightarrow> (u64 blocking \<times> 'a tty_state_scheme) outcome" where
  "sys_mmap s =
     bnd (do_mmap (argaddr 0 s) (argaddr 1 s) (argint 2 s) (argint 3 s) (argint 4 s) (argaddr 5 s) s) (\<lambda>(r, s). Ok (Done r, s))"

definition sys_munmap :: "'a tty_state_scheme sysenv \<Rightarrow> 'a tty_state_scheme \<Rightarrow> (u64 blocking \<times> 'a tty_state_scheme) outcome" where
  "sys_munmap e s = bnd (do_munmap (e_ops e) (argaddr 0 s) (argaddr 1 s) s) (\<lambda>(r, s). ret r s)"

section \<open>exec\<close>

text \<open>
  The loop of \<open>sys_exec\<close> over the argument pointers: the number of arguments, or an error. \<open>uargp\<close> is at
  \<open>e_loc e 1\<close>; \<open>n\<close> counts down from \<open>EXEC_MAX_ARGS\<close>.
\<close>

fun exec_args ::
  "'a tty_state_scheme sysenv \<Rightarrow> u64 \<Rightarrow> u64 \<Rightarrow> nat \<Rightarrow> nat \<Rightarrow> 'a tty_state_scheme \<Rightarrow> ((int + nat) \<times> 'a tty_state_scheme) outcome" where
  "exec_args e kargv uargv 0 argc s = Ok (Inr argc, s)"
| "exec_args e kargv uargv (Suc n) argc s =
     bnd (in_kern (copyin (e_rd e) (pagetable (get_proc s)) (e_loc e 1) (uargv + 8 * of_nat argc) 8) s) (\<lambda>(r, s).
     if r < 0 then Ok (Inl (- EFAULT), s)
     else
       let uargp = load64 (mem s) (e_loc e 1) in
       if uargp = 0 then Ok (Inr argc, s)
       else bnd (fetch_user_str (e_rd e) (pagetable (get_proc s)) (kargv + 128 * of_nat argc) uargp PATH_MAX s) (\<lambda>(r, s).
         if r < 0 then Ok (Inl (if r = - ENAMETOOLONG then - E2BIG else r), s)
         else exec_args e kargv uargv n (argc + 1) s))"

definition exec_end ::
  "'a tty_state_scheme sysenv \<Rightarrow> string \<Rightarrow> u64 \<Rightarrow> nat \<Rightarrow> 'a tty_state_scheme \<Rightarrow> (u64 blocking \<times> 'a tty_state_scheme) outcome" where
  "exec_end e path kargv argc s =
     bnd (execve_kernel e (Some path) kargv (int argc) s) (\<lambda>(r, s).
     bnd (kmfree kargv s) (ret (if r < 0 then r else int argc)))"

definition sys_exec :: "'a tty_state_scheme sysenv \<Rightarrow> 'a tty_state_scheme \<Rightarrow> (u64 blocking \<times> 'a tty_state_scheme) outcome" where
  "sys_exec e s =
     (let uargv = argaddr 1 s;
          s = s\<lparr>mem := memset (mem s) (e_loc e 0) 0 128\<rparr> in
      bnd (kmalloc (e_call e) 2048 s) (\<lambda>(kargv, s).
      if kargv = 0 then ret (- ENOMEM) s
      else bnd (argstr (e_rd e) 0 (e_loc e 0) PATH_MAX s) (\<lambda>(r, s).
        if r < 0 then bnd (kmfree kargv s) (ret r)
        else
          let path = str_at (mem s) (e_loc e 0) PATH_MAX in
          if uargv = 0 then
            exec_end e path kargv 1
              (s\<lparr>mem := (strncpy (mem s) kargv (e_loc e 0) 128)(kargv + 127 := 0)\<rparr>)
          else bnd (exec_args e kargv uargv EXEC_MAX_ARGS 0 s) (\<lambda>(r, s).
            case r of
              Inl err \<Rightarrow> bnd (kmfree kargv s) (ret err)
            | Inr argc \<Rightarrow>
                if argc = 0 \<or> argc \<ge> EXEC_MAX_ARGS then
                  bnd (kmfree kargv s) (ret (if argc = 0 then - EINVAL else - E2BIG))
                else exec_end e path kargv argc s))))"

end
