(* ===== verification/Dispatch.thy ===== *)
theory Dispatch
  imports Sysfile
begin

text \<open>
  The table of system calls and \<open>syscall\<close>, \<open>kernel/core/syscall.c\<close>. \<open>arch_shutdown\<close> turns the machine
  off, so \<open>sys_shutdown\<close> does not come back.
\<close>

definition sys_shutdown :: "'a tty_state_scheme \<Rightarrow> (u64 blocking \<times> 'a tty_state_scheme) outcome" where
  "sys_shutdown s = Ok (Sleeping, s)"

definition syscall_table ::
  "'a tty_state_scheme sysenv \<Rightarrow> (nat \<times> ('a tty_state_scheme \<Rightarrow> (u64 blocking \<times> 'a tty_state_scheme) outcome)) list" where
  "syscall_table e =
     [(64, sys_write e), (220, sys_fork e), (93, sys_exit e), (94, sys_exit e), (96, sys_set_tid_address),
      (144, sys_setgid), (146, sys_setuid), (260, sys_wait4 e), (172, sys_getpid), (174, sys_getuid), (176, sys_getgid),
      (214, sys_brk), (56, sys_openat e), (63, sys_read e), (65, sys_readv e), (66, sys_writev e), (57, sys_close e),
      (23, sys_dup), (80, sys_fstat e), (221, sys_exec e), (12, sys_shutdown), (173, sys_getppid),
      (169, sys_gettimeofday e), (113, sys_clock_gettime e), (153, sys_times e), (160, sys_uname e),
      (101, sys_nanosleep e), (124, sys_sched_yield), (17, sys_getcwd e), (49, sys_chdir e), (34, sys_mkdirat e),
      (35, sys_unlinkat e), (37, sys_linkat), (61, sys_getdents64 e), (59, sys_pipe2 e), (62, sys_lseek),
      (79, sys_newfstatat e), (222, sys_mmap), (215, sys_munmap e), (40, sys_mount), (39, sys_umount2), (24, sys_dup3 e),
      (140, sys_setpriority), (25, sys_fcntl), (29, sys_ioctl), (129, sys_kill), (134, sys_rt_sigaction e),
      (135, sys_rt_sigprocmask e), (139, sys_rt_sigreturn e), (136, sys_rt_sigpending e), (13, sys_terminal_claim_input)]"

definition syscalls ::
  "'a tty_state_scheme sysenv \<Rightarrow> nat \<Rightarrow> ('a tty_state_scheme \<Rightarrow> (u64 blocking \<times> 'a tty_state_scheme) outcome) option" where
  "syscalls e = map_of (syscall_table e)"

text \<open>\<open>ARRAY_SIZE(syscalls)\<close> is 261.\<close>

definition syscall :: "'a tty_state_scheme sysenv \<Rightarrow> 'a tty_state_scheme \<Rightarrow> (unit blocking \<times> 'a tty_state_scheme) outcome" where
  "syscall e s =
     (let tf = trapframe (get_proc s); num = load64 (mem s) (tf_a7 tf) in
      case (if 0 < num \<and> num < 261 then syscalls e (unat num) else None) of
        Some h \<Rightarrow>
          bnd (h s) (\<lambda>(b, s).
          case b of
            Sleeping \<Rightarrow> Ok (Sleeping, s)
          | Done r \<Rightarrow> Ok (Done (), if num \<noteq> 139 then s\<lparr>mem := store64 (mem s) (tf_a0 tf) r\<rparr> else s))
      | None \<Rightarrow> Ok (Done (), s\<lparr>mem := store64 (mem s) (tf_a0 tf) (word_of_int (- ENOSYS))\<rparr>))"

end
