(* ===== verification/Sysfacts.thy ===== *)
theory Sysfacts
  imports Frames Dispatch Procfacts
begin

text \<open>
  What the system calls guarantee: \<open>execve\<close> either fails and leaves the process as it was or replaces its
  program, SIGKILL and SIGSTOP cannot be blocked by \<open>rt_sigprocmask\<close>, and the deadline of \<open>nanosleep\<close>
  is exact or refused.
\<close>

unbundle bit_operations_syntax

section \<open>The process that makes the call\<close>

definition own :: "'a kern_scheme \<Rightarrow> nat \<times> Process" where
  "own s = (cur_proc s, proc s (cur_proc s))"

named_theorems owns "operations that keep the process that makes the call"

lemma own_outside: "outside s' = outside s \<Longrightarrow> own s' = own s"
  by (simp add: outside_def own_def)

lemma own_procD: "own s' = own s \<Longrightarrow> cur_proc s' = cur_proc s \<and> get_proc s' = get_proc s"
  by (auto simp: own_def get_proc_def)

lemma own_upd [simp]:
  "own (s\<lparr>mem := m\<rparr>) = own s" "own (s\<lparr>held := h\<rparr>) = own s" "own (store_pte p v s) = own s" "own (switch_to_process pt s) = own s"
  by (simp_all add: own_def store_pte_def switch_to_process_def)

lemma own_upd_more [simp]:
  fixes s :: "'a file_state_scheme"
  shows "own (upd_file f g s) = own s" "own (upd_pipe pi h s) = own s" "own (upd_vnode n k s) = own s" "own (upd_sleeplock l j s) = own s"
  by (simp_all add: own_def upd_file_def upd_pipe_def upd_vnode_def upd_sleeplock_def)

lemma own_upd_vnode [simp]: "own (upd_vnode n k s) = own s"
  by (simp add: own_def upd_vnode_def)

lemma in_kern_outside:
  assumes "in_kern f s = Ok (r, s')" "\<And>k r k'. f k = Ok (r, k') \<Longrightarrow> outside k' = outside k"
  shows "outside s' = outside s"
  using assms by (auto simp: in_kern_def outcome_simps outside_def kern.defs)

lemma copyin_own: "read_keeps rd \<Longrightarrow> in_kern (copyin rd pt dst src n) s = Ok (r, s') \<Longrightarrow> own s' = own s"
  by (rule own_outside, erule in_kern_outside, erule copyin_frame)

lemma copyout_own: "read_keeps rd \<Longrightarrow> in_kern (copyout rd pt dst src n) s = Ok (r, s') \<Longrightarrow> own s' = own s"
  by (rule own_outside, erule in_kern_outside, erule copyout_frame)

lemmas mem_owns [owns] =
  kalloc_frame [THEN own_outside] kfree_frame [THEN own_outside] acquire_frame [THEN own_outside] release_frame [THEN own_outside]
  walk_addr_frame [THEN own_outside] uvmalloc_frame [THEN own_outside] uvmunmap_frame [THEN own_outside] kvmunmap_frame [THEN own_outside]
  freewalk_frame [THEN own_outside] uvmcreate_frame [THEN own_outside]

lemma for_each_own:
  assumes "for_each body is t = Ok (r, t')" "\<And>i t r t'. i \<in> set is \<Longrightarrow> body i t = Ok (r, t') \<Longrightarrow> g t' = g t"
  shows "g t' = g t"
  using assms
proof (induction "is" arbitrary: t)
  case (Cons i "is")
  from Cons.prems(1) obtain q u where b: "body i t = Ok (q, u)" and k: "q \<noteq> None \<and> u = t' \<or> for_each body is u = Ok (r, t')"
    by (auto simp: outcome_simps split: option.splits)
  have "g u = g t" using Cons.prems(2) [OF _ b] by simp
  moreover have "g t' = g u" using k Cons.IH [of u] Cons.prems(2) by auto
  ultimately show ?case by simp
qed auto

lemma wakeup_own [owns]: "wakeup ch s = Ok s' \<Longrightarrow> own s' = own s"
proof -
  have one: "own t' = own t" if "wakeup_one ch i t = Ok t'" for i and t t' :: "'a sched_state_scheme"
    using that by (auto simp: wakeup_one_def outcome_simps Let_def own_def upd_proc_def split: if_splits)
  assume "wakeup ch s = Ok s'"
  then show ?thesis unfolding wakeup_def
    by (auto simp: outcome_simps dest!: for_each_own [where g = own] one)
qed

lemma kmem_cache_free_own [owns]: "kmem_cache_free cp buf s = Ok s' \<Longrightarrow> own s' = own s"
  by (auto simp: kmem_cache_free_def outcome_simps Let_def split: if_splits dest!: owns)

lemma kmfree_own [owns]: "kmfree ptr s = Ok s' \<Longrightarrow> own s' = own s"
  by (auto simp: kmfree_def Let_def split: if_splits dest!: owns)

lemma pipe_close_own [owns]: "pipe_close pi w s = Ok s' \<Longrightarrow> own s' = own s"
  by (auto simp: pipe_close_def elim!: bndE split: if_split_asm dest!: owns)

section \<open>File systems that leave the process alone\<close>

text \<open>
  The hypotheses on the parameters of a call: reading a mapped file keeps the process table, and the
  operations of file systems keep the process that makes the call.
\<close>

definition tables_keep :: "'a tty_state_scheme vfs_tables \<Rightarrow> bool" where
  "tables_keep ops \<longleftrightarrow>
     (\<forall>t f n name s r s'. op_lookup (inode_tab ops t) = Some f \<longrightarrow> f n name s = Ok (r, s') \<longrightarrow> own s' = own s) \<and>
     (\<forall>t f k a n s r k' s'. op_read (file_tab ops t) = Some f \<longrightarrow> f k a n s = Ok (r, k', s') \<longrightarrow> own s' = own s) \<and>
     (\<forall>t f n s s'. destroy_tab ops t = Some f \<longrightarrow> f n s = Ok s' \<longrightarrow> own s' = own s)"

definition env_keeps :: "'a tty_state_scheme sysenv \<Rightarrow> bool" where
  "env_keeps e \<longleftrightarrow> read_keeps (e_rd e) \<and> tables_keep (e_ops e)"

lemma env_keeps_rd: "env_keeps e \<Longrightarrow> read_keeps (e_rd e)"
  by (simp add: env_keeps_def)

lemma env_keeps_ops: "env_keeps e \<Longrightarrow> tables_keep (e_ops e)"
  by (simp add: env_keeps_def)

lemma lookup_own: "tables_keep ops \<Longrightarrow> op_lookup (inode_tab ops t) = Some f \<Longrightarrow> f n name s = Ok (r, s') \<Longrightarrow> own s' = own s"
  by (simp add: tables_keep_def)

lemma read_own: "tables_keep ops \<Longrightarrow> op_read (file_tab ops t) = Some f \<Longrightarrow> f k a n s = Ok (r, k', s') \<Longrightarrow> own s' = own s"
  by (simp add: tables_keep_def)

lemma destroy_own: "tables_keep ops \<Longrightarrow> destroy_tab ops t = Some f \<Longrightarrow> f n s = Ok s' \<Longrightarrow> own s' = own s"
  by (simp add: tables_keep_def)

lemma kfree_node_own [owns]: "kfree_node n s = Ok s' \<Longrightarrow> own s' = own s"
  by (auto simp: kfree_node_def split: vnode.split_asm dest!: owns)

lemma vfs_iput_own:
  assumes "tables_keep ops" "vfs_iput ops n s = Ok s'"
  shows "own s' = own s"
  using assms(2) by (auto simp: vfs_iput_def elim!: bndE split: option.split_asm if_split_asm dest!: owns destroy_own [OF assms(1)])

lemma fileclose_own:
  assumes "tables_keep ops" "fileclose ops f s = Ok s'"
  shows "own s' = own s"
  using assms(2) by (auto simp: fileclose_def Let_def elim!: bndE split: if_split_asm file_type.split_asm option.split_asm
    dest!: owns vfs_iput_own [OF assms(1)])

lemma vfs_walk_own: "tables_keep ops \<Longrightarrow> vfs_walk ops path w n s = Ok (r, s') \<Longrightarrow> own s' = own s"
proof (induction ops path w n s rule: vfs_walk.induct)
  case (1 ops path w n s)
  note k = "1.prems"(1)
  show ?case
  proof (cases "skipelem path")
    case None
    then show ?thesis using "1.prems"(2) by (auto simp: vfs_walk.simps [of ops path w n s] Let_def split: if_splits)
  next
    case (Some x)
    obtain name rest where x: "skipelem path = Some (name, rest)" using Some by (cases x) auto
    show ?thesis
    proof (cases "vi_type (vnodes s n) AND VFS_DIR = 0")
      case True
      then show ?thesis using "1.prems"(2) x by (simp add: vfs_walk.simps [of ops path w n s])
    next
      case False
      then show ?thesis using "1.prems"(2) x "1.IH"(2) [OF x refl False _ k] "1.IH"(1) [OF x refl False _ _ _ refl _ k]
        by (auto simp: vfs_walk.simps [of ops path w n s] node_op_def outcome_simps split: option.split_asm dest!: lookup_own [OF k])
    qed
  qed
qed

lemma vfs_namei_own:
  assumes "tables_keep ops" "vfs_namei ops path s = Ok (r, s')"
  shows "own s' = own s"
  using assms(2) by (auto simp: vfs_namei_def vfs_lookup_at_def split: if_splits option.split_asm dest!: vfs_walk_own [OF assms(1)])

lemma vfs_read_at_own:
  assumes "tables_keep ops" "vfs_read_at ops n off dst k s = Ok (r, s')"
  shows "own s' = own s"
  using assms(2)
  by (auto simp: vfs_read_at_def Let_def elim!: bndE split: if_splits option.split_asm prod.split_asm dest!: read_own [OF assms(1)])

section \<open>Loading a program\<close>

lemma read_elf_own:
  assumes "env_keeps e" "read_elf e reader dst off sz s = Ok (r, s')"
  shows "own s' = own s"
  using assms by (auto simp: read_elf_def env_keeps_def split: elf_reader.split_asm if_split_asm dest: vfs_read_at_own)

lemma loadseg_own: "env_keeps e \<Longrightarrow> loadseg e pt va reader off sz i s = Ok (r, s') \<Longrightarrow> own s' = own s"
proof (induction "unat (sz - i)" arbitrary: i s rule: less_induct)
  case less
  show ?case
  proof (cases "i < sz")
    case False
    then show ?thesis using less.prems(2) by (simp add: loadseg.simps [of e pt va reader off sz i s])
  next
    case True
    let ?a = "va + i"
    define n where "n = (if PGSIZE - (?a - PGROUNDDOWN ?a) > sz - i then sz - i else PGSIZE - (?a - PGROUNDDOWN ?a))"
    have IH: "own s' = own t" if "loadseg e pt va reader off sz (i + m) t = Ok (r, s')" "n = m" for t m
      using less.hyps [OF loadseg_step [OF True n_def] less.prems(1)] that by simp
    from less.prems(2) True show ?thesis unfolding loadseg.simps [of e pt va reader off sz i s] Let_def n_def [symmetric]
      by (auto simp only: if_True not_True_eq_False if_False prod.case outcome.inject prod.inject elim!: bndE
        split: if_split_asm prod.split_asm dest!: owns read_elf_own [OF less.prems(1)] IH)
  qed
qed

lemma load_segment_own:
  assumes "env_keeps e" "load_segment e reader pt i t = Ok (r, t')"
  shows "own (snd (snd t')) = own (snd (snd t))"
  using assms(2) by (cases t) (auto simp: load_segment_def Let_def elim!: bndE split: if_split_asm prod.split_asm
    dest!: owns loadseg_own [OF assms(1)])

lemma free_user_layout_own [owns]: "free_user_layout pt h b t s = Ok s' \<Longrightarrow> own s' = own s"
proof -
  assume "free_user_layout pt h b t s = Ok s'"
  moreover have "own t' = own t" if "for_each (\<lambda>i s. Ok (None :: unit option, store_pte (pt + 8 * of_nat i) 0 s)) [256..<512] t = Ok (r, t')"
    for r and t t' :: "'a kern_scheme"
    by (rule for_each_own [OF that, where g = own]) auto
  ultimately show ?thesis unfolding free_user_layout_def
    by (auto simp del: upt_rec_numeral elim!: bndE split: if_split_asm prod.split_asm dest!: owns)
qed

lemma exec_bad_own:
  assumes "env_keeps e" "exec_bad e node pt vend h b t err s = Ok (r, s')"
  shows "own s' = own s \<and> r = err"
  using assms(2) by (auto simp: exec_bad_def elim!: bndE split: if_split_asm dest!: owns vfs_iput_own [OF env_keeps_ops [OF assms(1)]])

lemma push_arg_own:
  assumes "env_keeps e" "push_arg e pt argv i t = Ok (r, t')"
  shows "own (snd (snd t')) = own (snd (snd t))"
  using assms(2) by (cases t) (auto simp: push_arg_def Let_def elim!: bndE split: option.split_asm if_split_asm prod.split_asm
    dest!: copyout_own [OF env_keeps_rd [OF assms(1)]])

lemma exec_stack_own:
  assumes "env_keeps e" "exec_stack e pt argv argc bias s = Ok (r, s')"
  shows "own s' = own s"
proof -
  have p: "own (snd (snd t')) = own (snd (snd t))" if "for_each (push_arg e pt argv) xs t = Ok (q, t')" for xs t q t'
    by (rule for_each_own [OF that, where g = "\<lambda>t. own (snd (snd t))"]) (rule push_arg_own [OF assms(1)])
  from assms(2) show ?thesis unfolding exec_stack_def Let_def
    by (auto elim!: bndE split: if_split_asm prod.split_asm dest!: p copyout_own [OF env_keeps_rd [OF assms(1)]])
qed


lemma for_each_Some:
  assumes "for_each body is t = Ok (Some x, t')"
  shows "\<exists>i u. i \<in> set is \<and> body i u = Ok (Some x, t')"
  using assms
proof (induction "is" arbitrary: t)
  case (Cons i "is")
  then show ?case by (fastforce simp: outcome_simps split: option.split_asm)
qed auto

lemma load_segment_error: "load_segment e reader pt i t = Ok (Some err, t') \<Longrightarrow> err < 0"
  by (cases t) (auto simp: load_segment_def Let_def elim!: bndE split: if_split_asm prod.split_asm)

section \<open>The switch to the new program\<close>

text \<open>The signal state of a program that starts: no signals are pending and no handlers are left.\<close>

definition reset_signals :: "sighand \<Rightarrow> sighand" where
  "reset_signals h = h\<lparr>sig_pending := 0, actions := (\<lambda>k.
     if 1 \<le> k \<and> k < NSIG \<and> sa_handler (actions h k) \<noteq> SIG_IGN
     then \<lparr>sa_handler = SIG_DFL, sa_flags = 0, sa_restorer = 0, sa_mask = 0\<rparr> else actions h k)\<rparr>"

abbreviation reset_action :: "nat \<Rightarrow> nat \<Rightarrow> 'a kern_scheme \<Rightarrow> 'a kern_scheme" where
  "reset_action i k s \<equiv>
     (if sa_handler (actions (proc_sighand (proc s i)) k) \<noteq> SIG_IGN then
        set_sighand i (\<lambda>h. h\<lparr>actions := (actions h)(k := \<lparr>sa_handler = SIG_DFL, sa_flags = 0, sa_restorer = 0, sa_mask = 0\<rparr>)\<rparr>) s
      else s)"

lemma set_sighand_twice: "set_sighand i f (set_sighand i g s) = set_sighand i (\<lambda>h. f (g h)) s"
  by (simp add: set_sighand_def upd_proc_def)

lemma reset_action_eq:
  "reset_action i k s = set_sighand i (\<lambda>h. if sa_handler (actions h k) \<noteq> SIG_IGN
     then h\<lparr>actions := (actions h)(k := \<lparr>sa_handler = SIG_DFL, sa_flags = 0, sa_restorer = 0, sa_mask = 0\<rparr>)\<rparr> else h) s"
  by (simp add: set_sighand_def upd_proc_def)

lemma reset_actions:
  "foldl (\<lambda>s k. reset_action i k s) s ks =
     set_sighand i (\<lambda>h. h\<lparr>actions := (\<lambda>k. if k \<in> set ks \<and> sa_handler (actions h k) \<noteq> SIG_IGN
       then \<lparr>sa_handler = SIG_DFL, sa_flags = 0, sa_restorer = 0, sa_mask = 0\<rparr> else actions h k)\<rparr>) s"
proof (induction ks arbitrary: s)
  case Nil
  show ?case by (simp add: set_sighand_def upd_proc_def)
next
  case (Cons k ks)
  show ?case unfolding foldl.simps Cons.IH unfolding reset_action_eq set_sighand_twice
    by (rule arg_cong [where f = "\<lambda>f. set_sighand i f s"]) (auto simp: fun_eq_iff intro!: sighand.equality)
qed

lemma set_sighand_sel [simp]:
  "proc (set_sighand i f s) = (proc s)(i := (proc s i)\<lparr>proc_sighand := f (proc_sighand (proc s i))\<rparr>)"
  "cur_proc (set_sighand i f s) = cur_proc s" "held (set_sighand i f s) = held s"
  by (simp_all add: set_sighand_def upd_proc_def)

lemma signal_reset_on_exec_effect:
  assumes "signal_reset_on_exec i s = Ok s'"
  shows "proc s' = (proc s)(i := (proc s i)\<lparr>proc_sighand := reset_signals (proc_sighand (proc s i))\<rparr>)" "cur_proc s' = cur_proc s"
  using assms unfolding signal_reset_on_exec_def Let_def reset_actions set_sighand_twice
  by (auto simp: outcome_simps reset_signals_def cong: if_cong)

lemma eachE:
  assumes "each f is s = Ok s'"
  obtains r where "for_each (\<lambda>i s. bnd (f i s) (\<lambda>s. Ok (None :: unit option, s))) is s = Ok (r, s')"
  using assms by (auto simp: each_def outcome_simps)

lemma free_pagetable_vma_own:
  assumes "tables_keep ops" "p = cur_proc s" "free_pagetable_vma ops p pt s = Ok s'"
  shows "\<exists>v. own s' = (cur_proc s, (proc s p)\<lparr>vm_area := v\<rparr>) \<and> (\<forall>i < NVMA. \<not> used (v i))"
proof -
  let ?f = "\<lambda>i s. let vma = vm_area (proc s p) i in
       if \<not> used vma then Ok s
       else
         bnd (kvmunmap pt (va_start vma) (va_end vma - va_start vma) True s) (\<lambda>s.
         bnd (case vma_file vma of None \<Rightarrow> Ok s | Some f \<Rightarrow> fileclose ops f s) (\<lambda>s.
         Ok (upd_proc p (\<lambda>q. q\<lparr>vm_area := (vm_area q)(i := (vm_area q i)\<lparr>used := False\<rparr>)\<rparr>) s)))"
  have step: "\<exists>v. own t' = (p, (proc t p)\<lparr>vm_area := v\<rparr>) \<and> \<not> used (v i) \<and> (\<forall>j. \<not> used (vm_area (proc t p) j) \<longrightarrow> \<not> used (v j))"
    if "?f i t = Ok t'" "cur_proc t = p" for i t t'
  proof (cases "used (vm_area (proc t p) i)")
    case False
    then show ?thesis using that by (intro exI [of _ "vm_area (proc t p)"]) (simp add: own_def)
  next
    case True
    note h = that(1)
    from True obtain u w where k: "kvmunmap pt (va_start (vm_area (proc t p) i)) (va_end (vm_area (proc t p) i) - va_start (vm_area (proc t p) i)) True t = Ok u"
        "(case vma_file (vm_area (proc t p) i) of None \<Rightarrow> Ok u | Some f \<Rightarrow> fileclose ops f u) = Ok w"
        "t' = upd_proc p (\<lambda>q. q\<lparr>vm_area := (vm_area q)(i := (vm_area q i)\<lparr>used := False\<rparr>)\<rparr>) w"
      using h unfolding Let_def by (auto elim!: bndE)
    have "own w = own t" using k(1,2) fileclose_own [OF assms(1)] by (auto split: option.split_asm dest!: owns)
    then show ?thesis using that(2) k(3)
      by (intro exI [of _ "(vm_area (proc t p))(i := (vm_area (proc t p) i)\<lparr>used := False\<rparr>)"]) (auto simp: own_def upd_proc_def)
  qed
  have all: "\<exists>v. own t' = (p, (proc t p)\<lparr>vm_area := v\<rparr>) \<and> (\<forall>i \<in> set is. \<not> used (v i)) \<and> (\<forall>j. \<not> used (vm_area (proc t p) j) \<longrightarrow> \<not> used (v j))"
    if "for_each (\<lambda>i s. bnd (?f i s) (\<lambda>s. Ok (None :: unit option, s))) is t = Ok (r, t')" "cur_proc t = p" for "is" t r t'
    using that
  proof (induction "is" arbitrary: t)
    case Nil
    then show ?case by (intro exI [of _ "vm_area (proc t p)"]) (simp add: own_def)
  next
    case (Cons i "is")
    from Cons.prems(1) obtain u where u: "?f i t = Ok u" "for_each (\<lambda>i s. bnd (?f i s) (\<lambda>s. Ok (None :: unit option, s))) is u = Ok (r, t')"
      unfolding for_each.simps bnd_Ok_iff by auto
    obtain v where v: "own u = (p, (proc t p)\<lparr>vm_area := v\<rparr>)" "\<not> used (v i)" "\<forall>j. \<not> used (vm_area (proc t p) j) \<longrightarrow> \<not> used (v j)"
      using step [OF u(1) Cons.prems(2)] by blast
    then have cu: "cur_proc u = p" "proc u p = (proc t p)\<lparr>vm_area := v\<rparr>" by (auto simp: own_def)
    obtain v' where v': "own t' = (p, (proc u p)\<lparr>vm_area := v'\<rparr>)" "\<forall>i \<in> set is. \<not> used (v' i)" "\<forall>j. \<not> used (vm_area (proc u p) j) \<longrightarrow> \<not> used (v' j)"
      using Cons.IH [OF u(2) cu(1)] by blast
    show ?case using v(2,3) v' by (intro exI [of _ v']) (auto simp: cu(2))
  qed
  from assms(3) obtain r where "for_each (\<lambda>i s. bnd (?f i s) (\<lambda>s. Ok (None :: unit option, s))) [0..<NVMA] s = Ok (r, s')"
    unfolding free_pagetable_vma_def by (rule eachE)
  from all [OF this assms(2) [symmetric]] obtain v where
    v: "own s' = (p, (proc s p)\<lparr>vm_area := v\<rparr>)" "\<forall>i \<in> set [0..<NVMA]. \<not> used (v i)" by blast
  show ?thesis by (rule exI [of _ v]) (use v assms(2) in \<open>simp del: upt_rec_numeral\<close>)
qed


text \<open>
  A process \<open>new\<close> that runs a new program in place of \<open>old\<close>: only the address space, its layout, the
  signal state and the memory areas differ, and a process that had user memory has no memory areas left.
\<close>

definition new_program :: "Process \<Rightarrow> Process \<Rightarrow> bool" where
  "new_program old new \<longleftrightarrow>
     (\<exists>pt heap v. new = old\<lparr>pagetable := pt, heap_bottom := heap, heap_top := heap, stack_bottom := USER_STACK_BOTTOM,
        stack_top := USER_VA_TOP, proc_sighand := reset_signals (proc_sighand old), vm_area := v\<rparr> \<and>
        (heap_top old > 0 \<or> stack_top old > stack_bottom old \<longrightarrow> (\<forall>i < NVMA. \<not> used (v i))))"

lemma new_programI:
  "new = old\<lparr>pagetable := pt, heap_bottom := heap, heap_top := heap, stack_bottom := USER_STACK_BOTTOM,
        stack_top := USER_VA_TOP, proc_sighand := reset_signals (proc_sighand old), vm_area := v\<rparr> \<Longrightarrow>
   (heap_top old > 0 \<or> stack_top old > stack_bottom old \<Longrightarrow> \<forall>i < NVMA. \<not> used (v i)) \<Longrightarrow> new_program old new"
  unfolding new_program_def by blast

lemma exec_switch_own:
  assumes "env_keeps e" "signal_reset_on_exec p t = Ok u"
    and k: "(if heap_top old > 0 \<or> stack_top old > stack_bottom old then
           bnd (free_pagetable_vma (e_ops e) p (pagetable old) u) (\<lambda>s.
           bnd (free_user_layout (pagetable old) (heap_top old) (stack_bottom old) (stack_top old) s) (\<lambda>s. Ok (0, s)))
         else Ok (0, u)) = Ok (r, s')"
    and t: "cur_proc t = p" "proc t p = old\<lparr>pagetable := pt, heap_bottom := heap, heap_top := heap,
      stack_bottom := USER_STACK_BOTTOM, stack_top := USER_VA_TOP\<rparr>"
  shows "r = 0 \<and> fst (own s') = p \<and> new_program old (snd (own s'))"
proof -
  let ?q = "old\<lparr>pagetable := pt, heap_bottom := heap, heap_top := heap, stack_bottom := USER_STACK_BOTTOM, stack_top := USER_VA_TOP\<rparr>"
  have uq: "cur_proc u = p" "proc u p = ?q\<lparr>proc_sighand := reset_signals (proc_sighand old)\<rparr>"
    using signal_reset_on_exec_effect [OF assms(2)] t by simp_all
  show ?thesis
  proof (cases "heap_top old > 0 \<or> stack_top old > stack_bottom old")
    case True
    then obtain w where w: "free_pagetable_vma (e_ops e) p (pagetable old) u = Ok w"
        "free_user_layout (pagetable old) (heap_top old) (stack_bottom old) (stack_top old) w = Ok s'" "r = 0"
      using k by (auto elim!: bndE)
    obtain v where v: "own w = (p, (proc u p)\<lparr>vm_area := v\<rparr>)" "\<forall>i < NVMA. \<not> used (v i)"
      using free_pagetable_vma_own [OF env_keeps_ops [OF assms(1)] uq(1) [symmetric] w(1)] uq(1) by auto
    have "own s' = (p, ?q\<lparr>proc_sighand := reset_signals (proc_sighand old), vm_area := v\<rparr>)"
      using free_user_layout_own [OF w(2)] v(1) uq(2) by simp
    then show ?thesis using v(2) w(3) by (auto simp: new_program_def)
  next
    case False
    have "own s' = (p, ?q\<lparr>proc_sighand := reset_signals (proc_sighand old), vm_area := vm_area old\<rparr>)" "r = 0"
      using k uq False by (auto simp: own_def)
    moreover have "new_program old (snd (own s'))"
      by (rule new_programI [where pt = pt and heap = heap and v = "vm_area old"]) (use calculation False in \<open>simp_all\<close>)
    ultimately show ?thesis by simp
  qed
qed

lemma exec_commit_own:
  assumes "env_keeps e" "exec_commit e pt heap sp argc s = Ok (r, s')"
  shows "r = 0 \<and> fst (own s') = fst (own s) \<and> new_program (snd (own s)) (snd (own s'))"
  using assms(2) unfolding exec_commit_def Let_def own_def [of s] fst_conv snd_conv
  apply (elim bndE)
  apply (erule (1) exec_switch_own [OF assms(1)])
   apply (simp_all add: upd_proc_def switch_to_process_def)
  done

lemma exec_finish_own:
  assumes "env_keeps e" "exec_finish e pt vend bias argv argc s = Ok (r, s')"
  shows "r < 0 \<and> own s' = own s \<or> r = 0 \<and> fst (own s') = fst (own s) \<and> new_program (snd (own s)) (snd (own s'))"
proof -
  note k = assms(1)
  from assms(2) show ?thesis unfolding exec_finish_def Let_def
    by (auto elim!: bndE split: if_split_asm option.split_asm prod.split_asm
      dest!: owns exec_bad_own [OF k] exec_stack_own [OF k] exec_commit_own [OF k])
qed

lemma exec_load_own:
  assumes "env_keeps e" "exec_load e reader node argv argc s = Ok (r, s')"
  shows "r < 0 \<and> own s' = own s \<or> r = 0 \<and> fst (own s') = fst (own s) \<and> new_program (snd (own s)) (snd (own s'))"
proof -
  note k = assms(1)
  have ph: "own t' = own t" if "read_phdrs e reader off n t = Ok (q, t')" for off n t q t'
    using that unfolding read_phdrs_def Let_def
    by (rule for_each_own [where g = own]) (auto elim!: bndE split: if_split_asm dest!: read_elf_own [OF k])
  have seg: "own (snd (snd t')) = own (snd (snd t)) \<and> (\<forall>err. q = Some err \<longrightarrow> err < 0)"
    if "for_each (load_segment e reader pt) xs t = Ok (q, t')" for pt xs t q t'
    using for_each_own [OF that, where g = "\<lambda>t. own (snd (snd t))"] load_segment_own [OF k]
      for_each_Some [of "load_segment e reader pt" xs t _ t'] that load_segment_error by blast
  from assms(2) show ?thesis unfolding exec_load_def Let_def
    by (auto elim!: bndE split: if_split_asm option.split_asm prod.split_asm
      dest!: owns read_elf_own [OF k] exec_bad_own [OF k] ph seg vfs_iput_own [OF env_keeps_ops [OF k]] exec_finish_own [OF k])
qed



text \<open>File systems without operations, and an embedded image that is no program.\<close>

definition exec_env :: "tty_state sysenv" where
  "exec_env = \<lparr>e_rd = (\<lambda>_ _ _ _ s. Ok (0, s)), e_call = (\<lambda>_ _ _ s. Ok s),
     e_ops = \<lparr>inode_tab = (\<lambda>_. undefined\<lparr>op_lookup := None\<rparr>), file_tab = (\<lambda>_. undefined\<lparr>op_read := None\<rparr>), destroy_tab = (\<lambda>_. None)\<rparr>,
     e_usertrapret = 0, e_loc = (\<lambda>i. 0x1000 * of_nat i), e_time = (\<lambda>_. 0), e_init = Some (replicate 64 0)\<rparr>"

lemma exec_env_keeps: "env_keeps exec_env"
  by (simp add: env_keeps_def exec_env_def read_keeps_def tables_keep_def)

definition exec_ex :: tty_state where
  "exec_ex = undefined\<lparr>mem := \<lambda>_. 1, held := [], cur_proc := 3\<rparr>"

lemma load32_zeros: "load32 (store_bytes (replicate 64 0) a m) a = 0"
proof (rule bit_word_eqI)
  fix n assume "n < LENGTH(32)"
  then have "unat (a + of_nat (n div 8) - a) < 64" by (simp add: unat_of_nat)
  then show "bit (load32 (store_bytes (replicate 64 0) a m) a) n = bit (0 :: 32 word) n"
    by (simp add: load32_def bit_load_le store_bytes_def)
qed

lemma exec_ex_fails: "\<exists>s'. execve_kernel exec_env (Some ''/init'') 0x500 1 exec_ex = Ok (- ENOEXEC, s')"
  by (simp add: execve_kernel_def exec_env_def exec_ex_def exec_load_def read_elf_def exec_bad_def to_c_int_def load32_zeros)


section \<open>Masks of signals\<close>

text \<open>
  C15. \<open>rt_sigprocmask\<close> changes nothing of the process but its mask, and never adds SIGKILL or SIGSTOP to it.
\<close>

theorem sys_rt_sigprocmask_safe:
  assumes "env_keeps e" and "sys_rt_sigprocmask e s = Ok (r, s')"
  shows "cur_proc s' = cur_proc s \<and>
    (\<exists>b. get_proc s' = (get_proc s)\<lparr>proc_sighand := (proc_sighand (get_proc s))\<lparr>sig_blocked := b\<rparr>\<rparr> \<and>
      b AND (SIGMASK SIGKILL OR SIGMASK SIGSTOP) AND NOT (sig_blocked (proc_sighand (get_proc s))) = 0)"
proof -
  let ?km = "SIGMASK SIGKILL OR SIGMASK SIGSTOP"
  define R where "R t = (fst (own t) = fst (own s) \<and>
    (\<exists>b. snd (own t) = (snd (own s))\<lparr>proc_sighand := (proc_sighand (snd (own s)))\<lparr>sig_blocked := b\<rparr>\<rparr> \<and>
      b AND ?km AND NOT (sig_blocked (proc_sighand (snd (own s)))) = 0))" for t :: "'a tty_state_scheme"
  have mask: "new_mask how old new AND ?km AND NOT old = 0" for how old new
    by (rule bit_word_eqI) (auto simp: new_mask_def Let_def bit_simps split: if_splits)
  have R0: "R t" if "own t = own s" for t
    unfolding R_def that by (rule conjI [OF refl exI [of _ "sig_blocked (proc_sighand (snd (own s)))"]])
      (auto intro: bit_word_eqI simp: bit_simps)
  have R1: "R u" if "own u = own (set_sighand (cur_proc s) (\<lambda>h. h\<lparr>sig_blocked := new_mask how (sig_blocked h) n\<rparr>) t)" "own t = own s"
    for t u how n
    using that mask by (auto simp: R_def own_def)
  note k = env_keeps_rd [OF assms(1)]
  have "R s'" using assms(2) unfolding sys_rt_sigprocmask_def put_user_def ret_def Let_def
    by (auto elim!: bndE split: if_split_asm prod.split_asm dest!: owns copyin_own [OF k] copyout_own [OF k]) ((rule R0, assumption | rule R1, assumption, assumption | rule R0, simp)+)
  then show ?thesis by (auto simp: R_def own_def get_proc_def)
qed

definition mask_ex :: tty_state where
  "mask_ex = undefined\<lparr>mem := store64 (\<lambda>_. 0) 0x1060 8, held := [], cur_proc := 3, proc := \<lambda>_. undefined\<lparr>trapframe := 0x1000,
     proc_sighand := \<lparr>sig_pending = 0, sig_blocked = 5, actions = undefined\<rparr>\<rparr>\<rparr>"

lemma mask_ex_call: "sys_rt_sigprocmask exec_env mask_ex = Ok (Done 0, mask_ex)"
proof -
  have r: "argraw 3 mask_ex = 8" by (simp add: argraw_def mask_ex_def get_proc_def)
  have z: "load64 (store64 (\<lambda>_. 0) 0x1060 8) a = 0" if "a \<in> {0x1048, 0x1050, 0x1058}" for a
  proof -
    have "load64 (\<lambda>_. 0) a = 0" by (rule bit_word_eqI) (simp add: load64_def bit_load_le)
    then show ?thesis using that by (auto simp: load64_store64 aligned_def)
  qed
  have "argraw 0 mask_ex = 0" "argraw 1 mask_ex = 0" "argraw 2 mask_ex = 0"
    using z by (simp_all add: argraw_def mask_ex_def get_proc_def)
  then show ?thesis using r by (simp add: sys_rt_sigprocmask_def argint_def argaddr_def ret_def to_c_int_def)
qed

theorem sys_rt_sigprocmask_safe_witness:
  "\<exists>s'. sys_rt_sigprocmask exec_env mask_ex = Ok (Done 0, s') \<and> cur_proc s' = cur_proc mask_ex \<and>
     sig_blocked (proc_sighand (get_proc s')) AND (SIGMASK SIGKILL OR SIGMASK SIGSTOP) AND
       NOT (sig_blocked (proc_sighand (get_proc mask_ex))) = 0"
proof -
  obtain b where b: "get_proc mask_ex = (get_proc mask_ex)\<lparr>proc_sighand := (proc_sighand (get_proc mask_ex))\<lparr>sig_blocked := b\<rparr>\<rparr>"
    "b AND (SIGMASK SIGKILL OR SIGMASK SIGSTOP) AND NOT (sig_blocked (proc_sighand (get_proc mask_ex))) = 0"
    using sys_rt_sigprocmask_safe [OF exec_env_keeps mask_ex_call] by blast
  have "sig_blocked (proc_sighand (get_proc mask_ex)) = b" by (subst b(1)) simp
  then show ?thesis using b(2) mask_ex_call by blast
qed

section \<open>The deadline of a sleep\<close>

text \<open>
  C16. The deadline of \<open>nanosleep\<close> is exact: it is the sum of the current time and the request, in
  microseconds rounded up, computed without wrap-around; a request whose deadline does not fit into
  64 bits is refused.
\<close>

theorem nanosleep_deadline_exact:
  "nanosleep_deadline sec nsec now =
     (if sint sec < 0 \<or> unat nsec \<ge> 10 ^ 9 then Inl (- EINVAL)
      else
        let deadline = unat now + unat sec * 10 ^ 6 + (unat nsec + 999) div 1000
        in if deadline < 2 ^ 64 then Inr (of_nat deadline) else Inl (- 1))"
proof (cases "sint sec < 0 \<or> unat nsec \<ge> 10 ^ 9")
  case True
  then show ?thesis by (auto simp: nanosleep_deadline_def word_le_nat_alt)
next
  case False
  define f where "f = (nsec + 999) div 1000"
  define c where "c = (unat nsec + 999) div 1000"
  have "unat (nsec + 999) = unat nsec + 999" using False by (subst unat_plus_simple [THEN iffD1]) (auto simp: word_le_nat_alt unat_word_ariths)
  then have uf: "unat f = c" by (simp add: f_def c_def unat_div_distrib)
  have cb: "c < 2 ^ 21" using False unfolding c_def by (simp add: div_less_iff_less_mult)
  have um: "unat (- 1 - v :: u64) = 2 ^ 64 - 1 - unat v" for v
    by (subst unat_sub) (simp_all add: word_order.extremum unsigned_minus_1_eq_mask mask_eq_exp_minus_1)
  have ge: "sec > (NOT 0 - f) div 1000000 \<longleftrightarrow> unat sec * 10 ^ 6 + c \<ge> 2 ^ 64"
    using cb by (simp add: word_less_nat_alt unat_div_distrib um uf div_less_iff_less_mult not_less) linarith
  show ?thesis
  proof (cases "unat sec * 10 ^ 6 + c \<ge> 2 ^ 64")
    case True
    then have "\<not> unat now + unat sec * 10 ^ 6 + c < 2 ^ 64" by linarith
    then show ?thesis using False ge True
      by (simp add: nanosleep_deadline_def word_le_nat_alt Let_def flip: f_def c_def)
  next
    case ok: False
    have ud: "unat (sec * 1000000 + f) = unat sec * 10 ^ 6 + c"
      using ok by (simp add: unat_word_ariths uf)
    have nb: "unat now < 2 ^ 64" by (rule order_less_le_trans [OF unsigned_less]) simp
    have le: "sec * 1000000 + f > NOT 0 - now \<longleftrightarrow> \<not> unat now + unat sec * 10 ^ 6 + c < 2 ^ 64"
      using um [of now] nb ok by (simp add: word_less_nat_alt ud) linarith
    have sum: "now + (sec * 1000000 + f) = of_nat (unat now + unat sec * 10 ^ 6 + c)"
      by (simp flip: uf)
    show ?thesis using False ge ok le sum
      by (simp add: nanosleep_deadline_def word_le_nat_alt Let_def flip: f_def c_def)
  qed
qed

end
