(* ===== verification/Tmpfs.thy ===== *)
theory Tmpfs
  imports Dispatch Icache Devtmpfs
begin

text \<open>
  The memory file system, \<open>kernel/fs/tmpfs/inode.c\<close> and \<open>mount.c\<close>. Its inodes and directory entries are
  objects of \<open>kmalloc\<close> and its blocks pages of \<open>kalloc\<close>, all in raw memory. A function that has to wait
  for a sleep lock ends with \<open>Sleeping\<close>: the model follows it up to the first point where it waits.
\<close>

unbundle bit_operations_syntax

section \<open>State and layout\<close>

text \<open>
  \<open>tmp_root_dir\<close> and \<open>tmp_root_inode\<close> are the addresses of the static \<open>root_dir\<close> and \<open>root_inode\<close>.
\<close>

record tmpfs_state = tty_state +
  tmpfs_next_ino :: u32
  tmpfs_inited :: bool
  tmpfs_root_mounted :: bool
  tmp_root_dir :: u64
  tmp_root_inode :: u64

abbreviation TMPFS_DEV :: u32 where "TMPFS_DEV \<equiv> 0x0b11"
abbreviation (input) TMPFS_ROOT_INO :: u32 where "TMPFS_ROOT_INO \<equiv> 1"
abbreviation TMPFS_NDIRECT :: nat where "TMPFS_NDIRECT \<equiv> 10"
abbreviation TMPFS_NINDIRECT :: nat where "TMPFS_NINDIRECT \<equiv> 512"
abbreviation TMPFS_MAXSIZE :: u64 where "TMPFS_MAXSIZE \<equiv> 1075879936"

text \<open>\<open>struct tmpfs_inode\<close> (120 bytes) and \<open>struct tmpfs_dir_entry\<close> (56 bytes).\<close>

abbreviation (input) ti_type :: "u64 \<Rightarrow> u64" where "ti_type p \<equiv> p"
abbreviation ti_nlinks :: "u64 \<Rightarrow> u64" where "ti_nlinks p \<equiv> p + 2"
abbreviation ti_ino :: "u64 \<Rightarrow> u64" where "ti_ino p \<equiv> p + 4"
abbreviation ti_size :: "u64 \<Rightarrow> u64" where "ti_size p \<equiv> p + 8"
abbreviation ti_dir :: "u64 \<Rightarrow> u64" where "ti_dir p \<equiv> p + 16"
abbreviation ti_block :: "u64 \<Rightarrow> nat \<Rightarrow> u64" where "ti_block p i \<equiv> p + 24 + 8 * of_nat i"

abbreviation (input) te_inode :: "u64 \<Rightarrow> u64" where "te_inode p \<equiv> p"
abbreviation te_name :: "u64 \<Rightarrow> u64" where "te_name p \<equiv> p + 8"
abbreviation te_type :: "u64 \<Rightarrow> u64" where "te_type p \<equiv> p + 32"
abbreviation te_next :: "u64 \<Rightarrow> u64" where "te_next p \<equiv> p + 40"
abbreviation te_child :: "u64 \<Rightarrow> u64" where "te_child p \<equiv> p + 48"

definition store16 :: "memory \<Rightarrow> u64 \<Rightarrow> u16 \<Rightarrow> memory" where
  "store16 = store_le 2"

text \<open>The indices that stand for the addresses of the tables of operations, the superblock and the lock of the root.\<close>

abbreviation tmpfs_ops_ix :: nat where "tmpfs_ops_ix \<equiv> 2"
abbreviation tmpfs_sb_ix :: nat where "tmpfs_sb_ix \<equiv> 2"
abbreviation tmp_lock :: nat where "tmp_lock \<equiv> 120"

text \<open>Sequencing of functions that may wait.\<close>

definition bndb ::
  "('r blocking \<times> 's) outcome \<Rightarrow> ('r \<Rightarrow> 's \<Rightarrow> ('t blocking \<times> 's) outcome) \<Rightarrow> ('t blocking \<times> 's) outcome" where
  "bndb m f = bnd m (\<lambda>(b, s). case b of Done r \<Rightarrow> f r s | Sleeping \<Rightarrow> Ok (Sleeping, s))"

definition fin :: "'r \<Rightarrow> 's \<Rightarrow> ('r blocking \<times> 's) outcome" where
  "fin r s = Ok (Done r, s)"

section \<open>mount.c\<close>

definition tmpfs_init :: "'a tmpfs_state_scheme \<Rightarrow> 'a tmpfs_state_scheme" where
  "tmpfs_init s =
     (if tmpfs_inited s then s
      else
        let rd = tmp_root_dir s; ri = tmp_root_inode s;
            m = store64 (mem s) (te_child rd) 0;
            m = store64 m (te_next rd) 0;
            m = store64 m (te_inode rd) ri;
            s = s\<lparr>mem := m\<rparr>;
            s = upd_vnode TmpRoot (\<lambda>_. (zero_inode tmp_lock)\<lparr>vi_type := VFS_DIR, vi_ino := TMPFS_ROOT_INO, vi_nlinks := 1,
                  vi_count := 1, vi_dev := TMPFS_DEV, vi_sb := Some tmpfs_sb_ix, vi_ops := Some tmpfs_ops_ix,
                  vi_f_ops := Some tmpfs_ops_ix, vi_private := ri, vi_size := 0\<rparr>) s;
            s = initsleeplock tmp_lock s;
            s = upd_vnode TmpRoot (\<lambda>v. v\<lparr>vi_name := ''tmp''\<rparr>) s;
            m = store16 (mem s) (ti_type ri) (word_of_int VFS_DIR);
            m = store16 m (ti_nlinks ri) 1;
            m = store32 m (ti_ino ri) TMPFS_ROOT_INO;
            m = store64 m (ti_dir ri) rd;
            m = store64 m (ti_size ri) 0;
            m = store64 m (te_inode rd) ri
        in s\<lparr>mem := m, tmpfs_root_mounted := True, tmpfs_inited := True\<rparr>)"

definition tmpfs_root :: "'a tmpfs_state_scheme \<Rightarrow> vnode \<times> 'a tmpfs_state_scheme" where
  "tmpfs_root s = (TmpRoot, tmpfs_init s)"

definition tmpfs_get_root_dir_entry :: "'a tmpfs_state_scheme \<Rightarrow> u64" where
  "tmpfs_get_root_dir_entry s = (if tmpfs_root_mounted s then tmp_root_dir s else 0)"

definition tmpfs_get_root_sb :: "'a tmpfs_state_scheme \<Rightarrow> nat option" where
  "tmpfs_get_root_sb s = (if tmpfs_root_mounted s then Some tmpfs_sb_ix else None)"

section \<open>Cached inodes\<close>

definition tmpfs_vfs_stat :: "vnode \<Rightarrow> 'a tmpfs_state_scheme \<Rightarrow> (int \<times> kstat \<times> 'a tmpfs_state_scheme) outcome" where
  "tmpfs_vfs_stat node s =
     (let p = vi_private (vnodes s node); m = mem s in
      if p = 0 then Ok (- 1, \<lparr>st_addr = 0, st_type = 0, st_nlink = 0, st_size = 0\<rparr>, s)
      else Ok (0, \<lparr>st_addr = 0, st_type = uint (load16 m (ti_type p)), st_nlink = uint (load16 m (ti_nlinks p)),
        st_size = load64 m (ti_size p)\<rparr>, s))"

definition tmpfs_inode_open :: "u32 \<Rightarrow> 'a tmpfs_state_scheme \<Rightarrow> bool" where
  "tmpfs_inode_open ino s \<longleftrightarrow>
     list_ex (\<lambda>i. vi_dev (vnodes s (Cached i)) = TMPFS_DEV \<and> vi_ino (vnodes s (Cached i)) = ino \<and> vi_count (vnodes s (Cached i)) > 0)
       [0..<NINODES]"

text \<open>A loop over the slots of the inode cache that hold the inode \<open>ino\<close> of tmpfs.\<close>

definition upd_slots :: "u32 \<Rightarrow> (vfs_inode \<Rightarrow> vfs_inode) \<Rightarrow> 'a tmpfs_state_scheme \<Rightarrow> 'a tmpfs_state_scheme" where
  "upd_slots ino f s =
     foldl (\<lambda>s i. if vi_dev (vnodes s (Cached i)) = TMPFS_DEV \<and> vi_ino (vnodes s (Cached i)) = ino then upd_vnode (Cached i) f s else s)
       s [0..<NINODES]"

definition tmpfs_sync_nlinks :: "u64 \<Rightarrow> 'a tmpfs_state_scheme \<Rightarrow> 'a tmpfs_state_scheme" where
  "tmpfs_sync_nlinks p s = upd_slots (load32 (mem s) (ti_ino p)) (\<lambda>v. v\<lparr>vi_nlinks := ucast (load16 (mem s) (ti_nlinks p))\<rparr>) s"

definition put_node :: "vnode \<Rightarrow> bool \<Rightarrow> 'a vfs_state_scheme \<Rightarrow> 'a vfs_state_scheme outcome" where
  "put_node n free s = (case n of Cached i \<Rightarrow> put_inode i free s | _ \<Rightarrow> Fault ''put_inode: not in the cache'')"

definition tmpfs_fill_vfs_inode ::
  "u32 \<Rightarrow> u64 \<Rightarrow> u8 \<Rightarrow> 'a tmpfs_state_scheme \<Rightarrow> (vnode option \<times> 'a tmpfs_state_scheme) outcome" where
  "tmpfs_fill_vfs_inode ino p file_type s =
     (if p = 0 then Ok (None, s)
      else bnd (get_inode TMPFS_DEV ino False s) (\<lambda>(vip, s).
        case vip of
          None \<Rightarrow> Ok (None, s)
        | Some n \<Rightarrow>
            let s = upd_vnode n (\<lambda>v. v\<lparr>vi_dev := TMPFS_DEV, vi_ino := ino, vi_type := uint file_type,
                  vi_size := load64 (mem s) (ti_size p), vi_nlinks := ucast (load16 (mem s) (ti_nlinks p)),
                  vi_ops := Some tmpfs_ops_ix, vi_f_ops := Some tmpfs_ops_ix, vi_private := p, vi_pd_owned := False,
                  vi_sb := tmpfs_get_root_sb s\<rparr>) s
            in if vi_sb (vnodes s n) = None then bnd (put_node n False s) (\<lambda>s. Ok (None, s))
               else Ok (Some n, s)))"

definition tmpfs_mount_root :: "'a tmpfs_state_scheme \<Rightarrow> (int \<times> 'a tmpfs_state_scheme) outcome" where
  "tmpfs_mount_root s =
     (let s = (if \<not> tmpfs_inited s then tmpfs_init s else s) in
      if tmpfs_root_mounted s then Ok (- 1, s)
      else
        let s = s\<lparr>tmpfs_root_mounted := True\<rparr> in
        bnd (tmpfs_fill_vfs_inode TMPFS_ROOT_INO (tmp_root_inode s) (word_of_int VFS_DIR) s) (\<lambda>(n, s).
        Ok (0, s\<lparr>vfs_root := n\<rparr>)))"

section \<open>Blocks\<close>

text \<open>Free the page that the slot at \<open>a\<close> points to, if there is one, and clear the slot.\<close>

definition free_slot :: "u64 \<Rightarrow> 'a kern_scheme \<Rightarrow> 'a kern_scheme outcome" where
  "free_slot a s =
     (let p = load64 (mem s) a in
      if p \<noteq> 0 then bnd (kfree p s) (\<lambda>s. Ok (s\<lparr>mem := store64 (mem s) a 0\<rparr>)) else Ok s)"

definition free_indirect :: "u64 \<Rightarrow> 'a kern_scheme \<Rightarrow> 'a kern_scheme outcome" where
  "free_indirect ind s = each (\<lambda>i. free_slot (ind + 8 * of_nat i)) [0..<TMPFS_NINDIRECT] s"

definition tmpfs_free_blocks :: "u64 \<Rightarrow> 'a kern_scheme \<Rightarrow> 'a kern_scheme outcome" where
  "tmpfs_free_blocks p s =
     bnd (each (\<lambda>i. free_slot (ti_block p i)) [0..<TMPFS_NDIRECT] s) (\<lambda>s.
     bnd (let ind = load64 (mem s) (ti_block p 10) in
          if ind \<noteq> 0 then bnd (free_indirect ind s) (free_slot (ti_block p 10)) else Ok s) (\<lambda>s.
     let dind = load64 (mem s) (ti_block p 11) in
     if dind \<noteq> 0 then
       bnd (each (\<lambda>i s.
              let ind = load64 (mem s) (dind + 8 * of_nat i) in
              if ind = 0 then Ok s
              else bnd (free_indirect ind s) (free_slot (dind + 8 * of_nat i))) [0..<TMPFS_NINDIRECT] s)
         (free_slot (ti_block p 11))
     else Ok s))"

definition tmpfs_vfs_truncate :: "vnode \<Rightarrow> u64 \<Rightarrow> 'a tmpfs_state_scheme \<Rightarrow> (int \<times> 'a tmpfs_state_scheme) outcome" where
  "tmpfs_vfs_truncate node sz s =
     (let p = vi_private (vnodes s node) in
      if sz \<noteq> 0 \<or> p = 0 then Ok (- 1, s)
      else bnd (tmpfs_free_blocks p s) (\<lambda>s. Ok (0, s\<lparr>mem := store64 (mem s) (ti_size p) 0\<rparr>)))"

text \<open>The page that the slot at \<open>a\<close> points to; with \<open>alloc\<close>, a missing page is allocated.\<close>

definition slot_page :: "u64 \<Rightarrow> bool \<Rightarrow> 'a kalloc_state_scheme \<Rightarrow> (u64 \<times> 'a kalloc_state_scheme) outcome" where
  "slot_page a alloc s =
     (let p = load64 (mem s) a in
      if p = 0 \<and> alloc then
        bnd (kalloc s) (\<lambda>(q, s). if q = 0 then Ok (0, s) else Ok (q, s\<lparr>mem := store64 (mem s) a q\<rparr>))
      else Ok (p, s))"

definition tmpfs_bmap :: "u64 \<Rightarrow> u32 \<Rightarrow> bool \<Rightarrow> 'a kalloc_state_scheme \<Rightarrow> (u64 \<times> 'a kalloc_state_scheme) outcome" where
  "tmpfs_bmap p bn alloc s =
     (if bn < 10 then slot_page (ti_block p (unat bn)) alloc s
      else
        let bn = bn - 10 in
        if bn < 512 then
          bnd (slot_page (ti_block p 10) alloc s) (\<lambda>(ind, s).
          if ind = 0 then Ok (0, s) else slot_page (ind + 8 * of_nat (unat bn)) alloc s)
        else
          let bn = bn - 512 in
          if bn < 512 * 512 then
            bnd (slot_page (ti_block p 11) alloc s) (\<lambda>(dind, s).
            if dind = 0 then Ok (0, s)
            else bnd (slot_page (dind + 8 * of_nat (unat (bn div 512))) alloc s) (\<lambda>(ind, s).
              if ind = 0 then Ok (0, s) else slot_page (ind + 8 * of_nat (unat (bn mod 512))) alloc s))
          else Ok (0, s))"

section \<open>Reading and writing\<close>

text \<open>\<open>min_u64(PGSIZE - off % PGSIZE, tot - off)\<close>.\<close>

definition page_rest :: "u64 \<Rightarrow> u64 \<Rightarrow> u64" where
  "page_rest off tot = (if PGSIZE - off mod PGSIZE < tot - off then PGSIZE - off mod PGSIZE else tot - off)"

lemma unat_page_rest:
  assumes "off < tot"
  shows "unat (page_rest off tot) = min (4096 - unat off mod 4096) (unat tot - unat off)"
proof -
  have o: "unat (off mod PGSIZE) = unat off mod 4096" by (simp only: unat_mod_distrib) simp
  have p: "unat (PGSIZE - off mod PGSIZE) = 4096 - unat off mod 4096"
    using o by (subst unat_sub) (simp_all only: word_le_nat_alt, simp_all)
  have d: "unat (tot - off) = unat tot - unat off"
    by (rule unat_sub) (use assms in \<open>simp only: order_less_imp_le\<close>)
  show ?thesis by (simp only: page_rest_def if_distrib [of unat] p d word_less_nat_alt min_def) auto
qed

lemma page_rest_step:
  assumes "off < tot"
  shows "unat (tot - (off + page_rest off tot)) < unat (tot - off)"
proof -
  have l: "unat off < unat tot" using assms by (simp only: word_less_nat_alt)
  have n: "unat (page_rest off tot) \<le> unat (tot - off)" "0 < unat (page_rest off tot)"
    unfolding unat_page_rest [OF assms] unat_sub [OF order_less_imp_le [OF assms]] using l by simp_all
  have "unat (tot - (off + page_rest off tot)) = unat (tot - off) - unat (page_rest off tot)"
    unfolding diff_diff_eq [symmetric] by (rule unat_sub) (use n(1) in \<open>simp only: word_le_nat_alt\<close>)
  then show ?thesis using n by linarith
qed

text \<open>The loop of \<open>tmpfs_vfs_read\<close>; it returns the offset behind the last byte that was read.\<close>

function tmpfs_read_loop :: "u64 \<Rightarrow> u64 \<Rightarrow> u64 \<Rightarrow> u64 \<Rightarrow> 'a kalloc_state_scheme \<Rightarrow> (u64 \<times> 'a kalloc_state_scheme) outcome" where
  "tmpfs_read_loop p buffer off tot s =
     (if \<not> off < tot then Ok (off, s)
      else bnd (tmpfs_bmap p (ucast (off div PGSIZE)) False s) (\<lambda>(addr, s).
        if addr = 0 then Ok (off, s)
        else
          let len = page_rest off tot in
          tmpfs_read_loop p (buffer + len) (off + len) tot (s\<lparr>mem := memmove (mem s) buffer (addr + off mod PGSIZE) (sint len)\<rparr>)))"
  by pat_completeness auto
termination
  by (relation "measure (\<lambda>(p, buffer, off, tot, s). unat (tot - off))") (auto simp only: in_measure prod.case not_not intro: page_rest_step)

declare tmpfs_read_loop.simps [simp del]

definition tmpfs_vfs_read ::
  "kfile \<Rightarrow> u64 \<Rightarrow> u32 \<Rightarrow> 'a tmpfs_state_scheme \<Rightarrow> (int blocking \<times> 'a tmpfs_state_scheme) outcome" where
  "tmpfs_vfs_read f buffer sz s =
     (case f_node f of
        None \<Rightarrow> fin (- 1) s
      | Some vip \<Rightarrow>
          let off = f_offset f; tot = off + ucast sz; p = vi_private (vnodes s vip) in
          if buffer = 0 \<or> tot < off \<or> tot > TMPFS_MAXSIZE \<or> p = 0 then fin (- 1) s
          else bndb (acquiresleep (vi_lock (vnodes s vip)) s) (\<lambda>_ s.
            if off \<ge> load64 (mem s) (ti_size p) then bnd (releasesleep (vi_lock (vnodes s vip)) s) (fin 0)
            else
              let tot = (if tot > load64 (mem s) (ti_size p) then load64 (mem s) (ti_size p) else tot) in
              bnd (tmpfs_read_loop p buffer off tot s) (\<lambda>(off', s).
              bnd (releasesleep (vi_lock (vnodes s vip)) s) (fin (to_c_int (uint (off' - off)))))))"

text \<open>The loop of \<open>tmpfs_vfs_write\<close>: \<open>False\<close> if a block cannot be allocated.\<close>

function tmpfs_write_loop :: "u64 \<Rightarrow> u64 \<Rightarrow> u64 \<Rightarrow> u64 \<Rightarrow> 'a kalloc_state_scheme \<Rightarrow> (bool \<times> 'a kalloc_state_scheme) outcome" where
  "tmpfs_write_loop p buffer off tot s =
     (if \<not> off < tot then Ok (True, s)
      else bnd (tmpfs_bmap p (ucast (off div PGSIZE)) True s) (\<lambda>(addr, s).
        if addr = 0 then Ok (False, s)
        else
          let len = page_rest off tot in
          tmpfs_write_loop p (buffer + len) (off + len) tot (s\<lparr>mem := memmove (mem s) (addr + off mod PGSIZE) buffer (sint len)\<rparr>)))"
  by pat_completeness auto
termination
  by (relation "measure (\<lambda>(p, buffer, off, tot, s). unat (tot - off))") (auto simp only: in_measure prod.case not_not intro: page_rest_step)

declare tmpfs_write_loop.simps [simp del]

definition tmpfs_vfs_write ::
  "kfile \<Rightarrow> u64 \<Rightarrow> u32 \<Rightarrow> 'a tmpfs_state_scheme \<Rightarrow> (int blocking \<times> 'a tmpfs_state_scheme) outcome" where
  "tmpfs_vfs_write f buffer sz s =
     (case f_node f of
        None \<Rightarrow> fin (- 1) s
      | Some vip \<Rightarrow>
          let off = f_offset f; tot = off + ucast sz; p = vi_private (vnodes s vip) in
          if buffer = 0 \<or> tot < off \<or> tot > TMPFS_MAXSIZE \<or> p = 0 then fin (- 1) s
          else bndb (acquiresleep (vi_lock (vnodes s vip)) s) (\<lambda>_ s.
            bnd (tmpfs_write_loop p buffer off tot s) (\<lambda>(ok, s).
            if \<not> ok then bnd (releasesleep (vi_lock (vnodes s vip)) s) (fin (- 1))
            else
              let sz = load64 (mem s) (ti_size p);
                  s = s\<lparr>mem := store64 (mem s) (ti_size p) (if sz > tot then sz else tot)\<rparr>
              in bnd (releasesleep (vi_lock (vnodes s vip)) s) (fin (to_c_int (uint (tot - off)))))))"

section \<open>Directories\<close>

text \<open>
  The walk over the entries of a directory: the entry with the name, or 0, and the entry before it. A
  list of entries that never ends is \<open>None\<close>.
\<close>

partial_function (option) find_entry :: "memory \<Rightarrow> string \<Rightarrow> u64 \<Rightarrow> u64 \<Rightarrow> (u64 \<times> u64) option" where
  "find_entry m name entry prev =
     (if entry = 0 \<or> namecmp name (str_at m (te_name entry) DIRSIZ) = 0 then Some (entry, prev)
      else find_entry m name (load64 m (te_next entry)) entry)"

text \<open>Skip the entries before the offset of the file; every entry counts 56 bytes.\<close>

function skip_entries :: "memory \<Rightarrow> u64 \<Rightarrow> nat \<Rightarrow> nat \<Rightarrow> u64 outcome" where
  "skip_entries m de sz off =
     (if de \<noteq> 0 \<and> sz < off then
        if sz + 56 \<ge> 2 ^ 31 then Fault ''tmpfs_vfs_readdir: signed overflow''
        else skip_entries m (load64 m (te_next de)) (sz + 56) off
      else Ok de)"
  by pat_completeness auto
termination
  by (relation "measure (\<lambda>(m, de, sz, off). 2 ^ 31 - sz)") auto

declare skip_entries.simps [simp del]

text \<open>A string that ends somewhere in memory.\<close>

definition terminated_str :: "memory \<Rightarrow> u64 \<Rightarrow> string option" where
  "terminated_str m a = map_option (\<lambda>n. str_at m a (nat n)) (strlen m a)"

definition tmpfs_vfs_readdir ::
  "kfile \<Rightarrow> vfs_dirent \<Rightarrow> 'a tmpfs_state_scheme \<Rightarrow> ((int \<times> vfs_dirent \<times> kfile) blocking \<times> 'a tmpfs_state_scheme) outcome" where
  "tmpfs_vfs_readdir f dirent s =
     (case f_node f of
        None \<Rightarrow> fin (- 1, dirent, f) s
      | Some dp \<Rightarrow>
          let p = vi_private (vnodes s dp) in
          if f_type f \<noteq> FILE_VFS_NODE \<or> vi_type (vnodes s dp) \<noteq> VFS_DIR \<or> p = 0 then fin (- 1, dirent, f) s
          else
            let de = load64 (mem s) (ti_dir p); lk = vi_lock (vnodes s dp) in
            bndb (acquiresleep lk s) (\<lambda>_ s.
            if de = 0 then Fault ''tmpfs_vfs_readdir: null pointer''
            else bnd (skip_entries (mem s) (load64 (mem s) (te_child de)) 0 (unat (f_offset f))) (\<lambda>de.
              if de = 0 then bnd (releasesleep lk s) (fin (0, dirent, f))
              else
                let ip = load64 (mem s) (te_inode de) in
                case terminated_str (mem s) (te_name de) of
                  None \<Rightarrow> Fault ''strcpy: no end''
                | Some name \<Rightarrow>
                    if length name \<ge> 28 then Fault ''strcpy: buffer overflow''
                    else
                    let dirent = \<lparr>de_name = take DIRSIZ name, de_ino = load32 (mem s) (ti_ino ip), de_type = uint (load16 (mem s) (ti_type ip))\<rparr>
                    in bnd (releasesleep lk s) (fin (1, dirent, f\<lparr>f_offset := f_offset f + 56\<rparr>)))))"

definition tmpfs_vfs_lookup ::
  "vnode \<Rightarrow> string \<Rightarrow> 'a tmpfs_state_scheme \<Rightarrow> (vnode option blocking \<times> 'a tmpfs_state_scheme) outcome" where
  "tmpfs_vfs_lookup dir name s =
     (let p = vi_private (vnodes s dir) in
      if vi_type (vnodes s dir) \<noteq> VFS_DIR \<or> p = 0 then fin None s
      else bndb (vfs_ilock (Some dir) s) (\<lambda>_ s.
        let entry = load64 (mem s) (ti_dir p) in
        if entry = 0 then Fault ''tmpfs_vfs_lookup: null pointer''
        else case find_entry (mem s) name (load64 (mem s) (te_child entry)) 0 of
          None \<Rightarrow> Fault ''tmpfs_vfs_lookup: entries without end''
        | Some (de, prev) \<Rightarrow>
            if de = 0 then bnd (vfs_iunlock (Some dir) s) (fin None)
            else
              let ip = load64 (mem s) (te_inode de) in
              bnd (tmpfs_fill_vfs_inode (load32 (mem s) (ti_ino ip)) ip (ucast (load16 (mem s) (ti_type ip))) s) (\<lambda>(n, s).
              bnd (vfs_iunlock (Some dir) s) (fin n))))"

definition tmpfs_destroy_inode :: "vnode \<Rightarrow> 'a tmpfs_state_scheme \<Rightarrow> 'a tmpfs_state_scheme outcome" where
  "tmpfs_destroy_inode node s =
     (let (root, s) = tmpfs_root s in
      if node = root then Ok s
      else
        bnd (if vi_count (vnodes s node) = 1 \<and> vi_nlinks (vnodes s node) = 0 then
               let ti = vi_private (vnodes s node) in
               if ti \<noteq> 0 then bnd (tmpfs_free_blocks ti s) (kmfree ti) else Ok s
             else Ok s) (put_node node False))"

definition tmpfs_vfs_unlink :: "vnode \<Rightarrow> string \<Rightarrow> 'a tmpfs_state_scheme \<Rightarrow> (int blocking \<times> 'a tmpfs_state_scheme) outcome" where
  "tmpfs_vfs_unlink dir name s =
     (if name = [] then fin (- 1) s
      else
        let lk = vi_lock (vnodes s dir) in
        bndb (acquiresleep lk s) (\<lambda>_ s.
        let p = vi_private (vnodes s dir); fail = (\<lambda>s. bnd (releasesleep lk s) (fin (- 1))) in
        if p = 0 \<or> load64 (mem s) (ti_dir p) = 0 then fail s
        else
          let d = load64 (mem s) (ti_dir p) in
          case find_entry (mem s) name (load64 (mem s) (te_child d)) 0 of
            None \<Rightarrow> Fault ''tmpfs_vfs_unlink: entries without end''
          | Some (de, prev) \<Rightarrow>
              if de = 0 then fail s
              else if mem s (te_type de) = word_of_int VFS_DIR then fail s
              else
                let child = load64 (mem s) (te_inode de); links = load16 (mem s) (ti_nlinks child) - 1;
                    s = s\<lparr>mem := store16 (mem s) (ti_nlinks child) links\<rparr>
                in if links \<noteq> 0 then bnd (releasesleep lk s) (fin 0)
                else
                  let nxt = load64 (mem s) (te_next de);
                      s = s\<lparr>mem := store64 (mem s) (if prev = 0 then te_child d else te_next prev) nxt\<rparr>;
                      ino = load32 (mem s) (ti_ino child)
                  in bnd (if tmpfs_inode_open ino s then Ok (tmpfs_sync_nlinks child s)
                          else bnd (tmpfs_free_blocks child (upd_slots ino (\<lambda>v. v\<lparr>vi_private := 0, vi_pd_owned := False\<rparr>) s)) (kmfree child)) (\<lambda>s.
                     bnd (kmfree de s) (\<lambda>s. bnd (releasesleep lk s) (fin 0)))))"

text \<open>\<open>n\<close> bytes of the name and the NUL behind them.\<close>

definition put_name :: "memory \<Rightarrow> u64 \<Rightarrow> string \<Rightarrow> memory" where
  "put_name m a name = put_str m a (if length name \<ge> DIRSIZ then take (DIRSIZ - 1) name else name)"

definition tmpfs_vfs_create ::
  "'a tmpfs_state_scheme call \<Rightarrow> vnode \<Rightarrow> string \<Rightarrow> int \<Rightarrow> 'a tmpfs_state_scheme \<Rightarrow>
    (int blocking \<times> 'a tmpfs_state_scheme) outcome" where
  "tmpfs_vfs_create call dir name type s =
     (if name = [] then fin (- 1) s
      else
        bndb (tmpfs_vfs_lookup dir name s) (\<lambda>existing s.
        bndb (vfs_ilock (Some dir) s) (\<lambda>_ s.
        let fail = (\<lambda>s. bnd (vfs_iunlock (Some dir) s) (fin (- 1))) in
        case existing of
          Some n \<Rightarrow> bnd (put_node n False s) fail
        | None \<Rightarrow>
            bnd (kmalloc call 56 s) (\<lambda>(de, s).
            if de = 0 then fail s
            else
              let m = (mem s)(te_type de := word_of_int type);
                  s = s\<lparr>mem := put_name m (te_name de) name\<rparr>
              in bnd (kmalloc call 120 s) (\<lambda>(ip, s).
                 let s = s\<lparr>mem := store64 (mem s) (te_inode de) ip\<rparr>; p = vi_private (vnodes s dir) in
                 if ip = 0 then bnd (kmfree de s) fail
                 else if type = VFS_DIR \<and> p = 0 then bnd (kmfree ip s) (\<lambda>s. bnd (kmfree de s) fail)
                 else
                   let m = mem s;
                       m = (if type = VFS_DIR then store16 m (ti_nlinks p) (load16 m (ti_nlinks p) + 1) else m);
                       m = store16 m (ti_nlinks ip) 1;
                       m = store16 m (ti_type ip) (word_of_int type);
                       m = store32 m (ti_ino ip) (tmpfs_next_ino s);
                       m = store64 m (ti_size ip) 0;
                       m = store64 m (ti_dir ip) de;
                       m = store64 m (te_child de) 0;
                       m = store64 m (te_next de) 0;
                       m = memset m (ti_block ip 0) 0 96
                   in if p = 0 then Fault ''tmpfs_vfs_create: null pointer''
                   else
                     let d = load64 m (ti_dir p);
                         nxt = load64 m (te_child d);
                         m = store64 m (te_child d) de;
                         m = store64 m (te_next de) nxt;
                         s = s\<lparr>mem := m, tmpfs_next_ino := tmpfs_next_ino s + 1\<rparr>
                     in if d = 0 then Fault ''tmpfs_vfs_create: null pointer''
                        else bnd (vfs_iunlock (Some dir) s) (fin 0))))))"

definition tmpfs_vfs_mkdir ::
  "'a tmpfs_state_scheme call \<Rightarrow> vnode \<Rightarrow> string \<Rightarrow> int \<Rightarrow> 'a tmpfs_state_scheme \<Rightarrow>
    (int blocking \<times> 'a tmpfs_state_scheme) outcome" where
  "tmpfs_vfs_mkdir call dir name mode s = tmpfs_vfs_create call dir name VFS_DIR s"

end
