(* ===== verification/Tmpfile.thy ===== *)
theory Tmpfile
  imports Tmpfs Example
begin

text \<open>
  The content of a tmpfs file. The blocks of an inode form a tree of pages: ten direct blocks, a block of
  pointers and a block of pointers to such blocks. The tree stays a tree whatever is allocated, and
  reading and writing are reading and updating of an array of bytes.
\<close>

section \<open>Paths in the tree\<close>

abbreviation MAXB :: nat where "MAXB \<equiv> 262666"

text \<open>The offsets of the pointers that lead from the inode to block \<open>n\<close>.\<close>

definition bpath :: "nat \<Rightarrow> nat list" where
  "bpath n = (if n < 10 then [24 + 8 * n] else if n < 522 then [104, 8 * (n - 10)]
     else [112, 8 * ((n - 522) div 512), 8 * ((n - 522) mod 512)])"

fun walk_path :: "memory \<Rightarrow> u64 \<Rightarrow> nat list \<Rightarrow> u64" where
  "walk_path m b [] = b"
| "walk_path m b (x # os) = (let q = load64 m (b + of_nat x) in if q = 0 then 0 else walk_path m q os)"

fun walk_alloc :: "nat list \<Rightarrow> u64 \<Rightarrow> bool \<Rightarrow> 'a kalloc_state_scheme \<Rightarrow> (u64 \<times> 'a kalloc_state_scheme) outcome" where
  "walk_alloc [] b alloc s = Ok (b, s)"
| "walk_alloc (x # os) b alloc s =
     bnd (slot_page (b + of_nat x) alloc s) (\<lambda>(q, s). if q = 0 then Ok (0, s) else walk_alloc os q alloc s)"

definition tnode :: "nat list \<Rightarrow> bool" where
  "tnode os \<longleftrightarrow> (\<exists>n < MAXB. prefix os (bpath n))"

lemma walk_alloc_last: "walk_alloc [x] b alloc s = slot_page (b + of_nat x) alloc s"
proof -
  have "bnd (m :: (u64 \<times> 'a kalloc_state_scheme) outcome) (\<lambda>(q, s). if q = 0 then Ok (0, s) else Ok (q, s)) = m" for m
    by (cases m) (auto split: prod.split)
  then show ?thesis by (simp cong: if_cong)
qed

lemma tmpfs_bmap_path:
  assumes "unat bn < MAXB"
  shows "tmpfs_bmap p bn alloc s = walk_alloc (bpath (unat bn)) p alloc s"
proof (cases "bn < 10")
  case True
  then have "bpath (unat bn) = [24 + 8 * unat bn]" by (simp add: bpath_def word_less_nat_alt)
  then show ?thesis using True by (simp only: walk_alloc_last) (simp add: tmpfs_bmap_def add.assoc cong: if_cong)
next
  case False
  then have u: "unat (bn - 10) = unat bn - 10" by (subst unat_sub) (simp_all add: word_le_nat_alt word_less_nat_alt)
  show ?thesis
  proof (cases "bn - 10 < 512")
    case True
    then have "bpath (unat bn) = [104, 8 * unat (bn - 10)]" using False u by (simp add: bpath_def word_less_nat_alt)
    then show ?thesis using False True
      by (simp only: walk_alloc.simps(2) [of _ "[_]"] walk_alloc_last) (simp add: tmpfs_bmap_def add.assoc cong: if_cong)
  next
    case n2: False
    then have v: "unat (bn - 10 - 512) = unat bn - 522"
      by (subst unat_sub) (simp_all add: word_le_nat_alt word_less_nat_alt u)
    let ?b = "bn - 10 - 512"
    have d: "unat (?b div 512) = (unat bn - 522) div 512" "unat (?b mod 512) = (unat bn - 522) mod 512"
      by (simp_all only: unat_div_distrib unat_mod_distrib v) simp_all
    have "\<not> unat bn < 522" using False n2 u by (simp add: word_less_nat_alt)
    then have "bpath (unat bn) = [112, 8 * unat (?b div 512), 8 * unat (?b mod 512)]" using d by (simp add: bpath_def)
    moreover have "?b < 512 * 512" using assms v by (simp add: word_less_nat_alt)
    ultimately show ?thesis using False n2
      by (simp only: walk_alloc.simps(2) [of _ "_ # _"] walk_alloc_last) (simp add: tmpfs_bmap_def add.assoc Let_def cong: if_cong)
  qed
qed

lemma tnode_snocD: "tnode (os @ [x]) \<Longrightarrow> tnode os"
  unfolding tnode_def by (blast dest: append_prefixD)

lemma tnode_bpath: "n < MAXB \<Longrightarrow> bpath n = os @ ys \<Longrightarrow> tnode os"
  unfolding tnode_def by auto

lemma tnode_offset:
  assumes "tnode (os @ [x])"
  shows "8 dvd x" "os = [] \<Longrightarrow> 24 \<le> x \<and> x < 120" "x < 4096"
proof -
  obtain n ys where n: "n < MAXB" "bpath n = os @ x # ys" using assms by (auto simp: tnode_def prefix_def)
  then have "8 dvd x \<and> (os = [] \<longrightarrow> 24 \<le> x \<and> x < 120) \<and> x < 4096"
    by (auto simp: bpath_def Cons_eq_append_conv append_eq_Cons_conv split: if_splits)
  then show "8 dvd x" "os = [] \<Longrightarrow> 24 \<le> x \<and> x < 120" "x < 4096" by auto
qed

lemma bpath_leaf: "\<not> tnode (bpath n @ [x])"
proof
  assume "tnode (bpath n @ [x])"
  then obtain k ys where "bpath k = bpath n @ x # ys" by (auto simp: tnode_def prefix_def)
  then show False by (cases "k < 10"; cases "k < 522"; cases "n < 10"; cases "n < 522") (simp_all add: bpath_def)
qed

lemma bpath_inj: "n < MAXB \<Longrightarrow> k < MAXB \<Longrightarrow> bpath n = bpath k \<Longrightarrow> n = k"
proof -
  assume a: "n < MAXB" "k < MAXB" "bpath n = bpath k"
  have "n = k" if "\<not> n < 522" "\<not> k < 522"
  proof -
    have "(n - 522) div 512 = (k - 522) div 512" "(n - 522) mod 512 = (k - 522) mod 512" using a(3) that by (simp_all add: bpath_def)
    then have "n - 522 = k - 522" by (metis div_mult_mod_eq)
    then show ?thesis using that by simp
  qed
  then show ?thesis using a by (auto simp: bpath_def split: if_splits)
qed

lemma bpath_ne [simp]: "bpath n \<noteq> []"
  by (simp add: bpath_def)

lemma walk_snoc:
  "b \<noteq> 0 \<Longrightarrow> walk_path m b (os @ [x]) = (if walk_path m b os = 0 then 0 else load64 m (walk_path m b os + of_nat x))"
  by (induction os arbitrary: b) (auto simp: Let_def)

section \<open>The invariant\<close>

text \<open>
  The inode at \<open>p\<close> lies in the page \<open>h\<close>, which is not free. The pages of the tree are allocated, differ
  from \<open>h\<close>, and each of them has one place in the tree.
\<close>

definition tree_ok :: "'a kalloc_state_scheme \<Rightarrow> u64 list \<Rightarrow> u64 \<Rightarrow> u64 \<Rightarrow> bool" where
  "tree_ok s xs h p \<longleftrightarrow> kalloc_ready s xs \<and> aligned 12 h \<and> h \<notin> set xs \<and> aligned 3 p \<and> p \<noteq> 0 \<and> unat (p - h) + 120 \<le> 4096 \<and>
     (\<forall>os. tnode os \<longrightarrow> os \<noteq> [] \<longrightarrow> walk_path (mem s) p os \<noteq> 0 \<longrightarrow>
       kpage s (walk_path (mem s) p os) \<and> walk_path (mem s) p os \<notin> set xs \<and> walk_path (mem s) p os \<noteq> h) \<and>
     (\<forall>os os'. tnode os \<longrightarrow> tnode os' \<longrightarrow> os \<noteq> [] \<longrightarrow> os' \<noteq> [] \<longrightarrow> walk_path (mem s) p os \<noteq> 0 \<longrightarrow>
       walk_path (mem s) p os = walk_path (mem s) p os' \<longrightarrow> os = os')"

text \<open>The page in which the pointers of a node are.\<close>

definition tbase :: "memory \<Rightarrow> u64 \<Rightarrow> u64 \<Rightarrow> nat list \<Rightarrow> u64" where
  "tbase m h p os = (if os = [] then h else walk_path m p os)"

lemma tree_okD:
  assumes "tree_ok s xs h p"
  shows "kalloc_ready s xs" "aligned 12 h" "h \<notin> set xs" "aligned 3 p" "p \<noteq> 0" "unat (p - h) + 120 \<le> 4096"
    "\<And>os. tnode os \<Longrightarrow> os \<noteq> [] \<Longrightarrow> walk_path (mem s) p os \<noteq> 0 \<Longrightarrow>
       kpage s (walk_path (mem s) p os) \<and> walk_path (mem s) p os \<notin> set xs \<and> walk_path (mem s) p os \<noteq> h"
    "\<And>os os'. tnode os \<Longrightarrow> tnode os' \<Longrightarrow> os \<noteq> [] \<Longrightarrow> os' \<noteq> [] \<Longrightarrow> walk_path (mem s) p os \<noteq> 0 \<Longrightarrow>
       walk_path (mem s) p os = walk_path (mem s) p os' \<Longrightarrow> os = os'"
  using assms unfolding tree_ok_def by blast+

lemma tbase_page:
  assumes "tree_ok s xs h p" "tnode os" "walk_path (mem s) p os \<noteq> 0"
  shows "aligned 12 (tbase (mem s) h p os)" "tbase (mem s) h p os \<notin> set xs"
  using assms tree_okD(2,3) [OF assms(1)] tree_okD(7) [OF assms(1,2)] by (auto simp: tbase_def kpage_def)

lemma tbase_inj:
  assumes "tree_ok s xs h p" "tnode os" "walk_path (mem s) p os \<noteq> 0" "tnode os'" "walk_path (mem s) p os' \<noteq> 0"
    "tbase (mem s) h p os = tbase (mem s) h p os'"
  shows "os = os'"
  using assms tree_okD(7) [OF assms(1,2)] tree_okD(7) [OF assms(1,4)] tree_okD(8) [OF assms(1,2,4)]
  by (auto simp: tbase_def split: if_splits)

lemma unat_add_nat:
  assumes "unat d + x < 2 ^ 64"
  shows "unat (d + of_nat x :: u64) = unat d + x"
proof -
  have "unat (of_nat x :: u64) = x" using assms by (intro unat_of_nat_small) simp
  then show ?thesis using assms by (simp only: unat_word_ariths) simp
qed

lemma slot_place:
  assumes "tree_ok s xs h p" "tnode (os @ [x])" "walk_path (mem s) p os \<noteq> 0"
  shows "aligned 3 (walk_path (mem s) p os + of_nat x)" "in_page (tbase (mem s) h p os) (walk_path (mem s) p os + of_nat x)"
proof -
  note D = tree_okD [OF assms(1)]
  note o = tnode_offset [OF assms(2)]
  have x3: "aligned 3 (of_nat x)" using o(1,3) by (simp add: aligned_def unat_of_nat)
  have w3: "aligned 3 (walk_path (mem s) p os)"
    using D(4) D(7) [OF tnode_snocD [OF assms(2)] _ assms(3)] kpage_aligned(2) by (cases "os = []") auto
  show "aligned 3 (walk_path (mem s) p os + of_nat x)" by (rule aligned_add [OF _ w3 x3]) simp
  show "in_page (tbase (mem s) h p os) (walk_path (mem s) p os + of_nat x)"
  proof (cases "os = []")
    case True
    have e: "p + of_nat x - h = (p - h) + of_nat x" by (simp only: diff_add_eq)
    have "unat ((p - h) + of_nat x) = unat (p - h) + x" using D(6) o(2) [OF True] by (intro unat_add_nat) simp
    then show ?thesis unfolding True tbase_def in_page_def walk_path.simps e if_P [OF refl] using D(6) o(2) [OF True] by linarith
  next
    case False
    then show ?thesis using o(3) by (simp add: tbase_def in_page_def unat_of_nat)
  qed
qed

lemma tslot_inj:
  assumes "tree_ok s xs h p" "tnode (os @ [x])" "walk_path (mem s) p os \<noteq> 0" "tnode (os' @ [x'])" "walk_path (mem s) p os' \<noteq> 0"
    "walk_path (mem s) p os + of_nat x = walk_path (mem s) p os' + of_nat x'"
  shows "os = os' \<and> x = x'"
proof -
  have "tbase (mem s) h p os = tbase (mem s) h p os'"
    using in_page_unique [OF tbase_page(1) [OF assms(1) tnode_snocD [OF assms(2)] assms(3)] tbase_page(1) [OF assms(1) tnode_snocD [OF assms(4)] assms(5)]]
      slot_place(2) [OF assms(1-3)] slot_place(2) [OF assms(1,4,5)] assms(6) by simp
  then have os: "os = os'" by (rule tbase_inj [OF assms(1) tnode_snocD [OF assms(2)] assms(3) tnode_snocD [OF assms(4)] assms(5)])
  then have "(of_nat x :: u64) = of_nat x'" using assms(6) by simp
  then have "unat (of_nat x :: u64) = unat (of_nat x' :: u64)" by simp
  then show ?thesis using os tnode_offset(3) [OF assms(2)] tnode_offset(3) [OF assms(4)] by (simp add: unat_of_nat)
qed

section \<open>What changes of memory keep\<close>

lemma walk_cong:
  assumes "b \<noteq> 0" "\<And>os x. tnode (os @ [x]) \<Longrightarrow> walk_path m b os \<noteq> 0 \<Longrightarrow> load64 m' (walk_path m b os + of_nat x) = load64 m (walk_path m b os + of_nat x)"
  shows "tnode os \<Longrightarrow> walk_path m' b os = walk_path m b os"
proof (induction os rule: rev_induct)
  case (snoc x os)
  then show ?case using assms tnode_snocD [OF snoc.prems] by (auto simp: walk_snoc)
qed simp

lemma load64_cong: "(\<And>i. i < 8 \<Longrightarrow> m (a + of_nat i) = m' (a + of_nat i)) \<Longrightarrow> load64 m a = load64 m' a"
  unfolding load64_def by (rule load_le_cong) simp

text \<open>A change outside the pages that hold pointers or are free keeps the tree.\<close>

lemma tree_ok_mem:
  assumes T: "tree_ok s xs h p" and c: "\<And>a. in_page q a \<or> m a = mem s a" and q: "aligned 12 q" "q \<notin> set xs"
    and n: "\<And>os x. tnode (os @ [x]) \<Longrightarrow> walk_path (mem s) p os \<noteq> 0 \<Longrightarrow> tbase (mem s) h p os \<noteq> q"
  shows "tree_ok (s\<lparr>mem := m\<rparr>) xs h p" "tnode os \<Longrightarrow> walk_path m p os = walk_path (mem s) p os"
proof -
  note D = tree_okD [OF T]
  have l: "load64 m a = load64 (mem s) a" if "aligned 12 b" "b \<noteq> q" "in_page b a" "aligned 3 a" for a b
  proof (rule load64_cong)
    fix i :: nat assume "i < 8"
    then have "in_page b (a + of_nat i)" using in_page_word [OF that(1,4)] that(3) by simp
    then have "\<not> in_page q (a + of_nat i)" using in_page_unique [OF that(1) q(1)] that(2) by blast
    then show "m (a + of_nat i) = mem s (a + of_nat i)" using c by blast
  qed
  have w: "walk_path m p os = walk_path (mem s) p os" if "tnode os" for os
  proof (rule walk_cong [OF D(5) _ that])
    fix os x assume t: "tnode (os @ [x])" "walk_path (mem s) p os \<noteq> 0"
    show "load64 m (walk_path (mem s) p os + of_nat x) = load64 (mem s) (walk_path (mem s) p os + of_nat x)"
      using l [OF tbase_page(1) [OF T tnode_snocD [OF t(1)] t(2)] n [OF t] slot_place(2,1) [OF T t]] .
  qed
  have "load64 m x = load64 (mem s) x" if "x \<in> set xs" for x
  proof (rule l [of x])
    have "kpage s x" using D(1) that by (auto simp: kalloc_ready_def dest: kalloc_invD(4))
    then show "aligned 12 x" "aligned 3 x" by (auto dest: kpage_aligned)
  qed (use that q(2) in auto)
  then have "kalloc_ready (s\<lparr>mem := m\<rparr>) xs"
    using D(1) free_path_cong [of xs m "mem s" "head_addr s" "head_next s"] by (simp add: kalloc_ready_def kalloc_inv_def kpage_def)
  then show "tree_ok (s\<lparr>mem := m\<rparr>) xs h p"
    using D(2-8) w unfolding tree_ok_def by (simp add: kpage_def)
  show "tnode os \<Longrightarrow> walk_path m p os = walk_path (mem s) p os" by (rule w)
qed

section \<open>Allocation\<close>

text \<open>The bytes of the file, and the addresses that do not belong to the file or to free memory.\<close>

definition content :: "memory \<Rightarrow> u64 \<Rightarrow> nat \<Rightarrow> u8" where
  "content m p i = (let b = walk_path m p (bpath (i div 4096)) in if b = 0 then 0 else m (b + of_nat (i mod 4096)))"

definition foreign :: "'a kalloc_state_scheme \<Rightarrow> u64 list \<Rightarrow> u64 \<Rightarrow> u64 \<Rightarrow> bool" where
  "foreign s xs p a \<longleftrightarrow> (\<forall>q \<in> set xs. \<not> in_page q a) \<and> \<not> (24 \<le> unat (a - p) \<and> unat (a - p) < 120) \<and>
     (\<forall>os. tnode os \<longrightarrow> os \<noteq> [] \<longrightarrow> walk_path (mem s) p os \<noteq> 0 \<longrightarrow> \<not> in_page (walk_path (mem s) p os) a)"

text \<open>
  What both allocation and writing keep: the tree only grows, and nothing outside of the file changes.
  Allocation also keeps the bytes of the file.
\<close>

definition keeps ::
  "u64 \<Rightarrow> u64 \<Rightarrow> 'a kalloc_state_scheme \<Rightarrow> u64 list \<Rightarrow> 'a kalloc_state_scheme \<Rightarrow> u64 list \<Rightarrow> bool" where
  "keeps h p s xs s' xs' \<longleftrightarrow> tree_ok s' xs' h p \<and> set xs' \<subseteq> set xs \<and> held s' = held s \<and> kalloc_state.more s' = kalloc_state.more s \<and>
     (\<forall>os. tnode os \<longrightarrow> walk_path (mem s) p os \<noteq> 0 \<longrightarrow> walk_path (mem s') p os = walk_path (mem s) p os) \<and>
     (\<forall>a. foreign s xs p a \<longrightarrow> mem s' a = mem s a \<and> foreign s' xs' p a)"

definition extends ::
  "u64 \<Rightarrow> u64 \<Rightarrow> 'a kalloc_state_scheme \<Rightarrow> u64 list \<Rightarrow> 'a kalloc_state_scheme \<Rightarrow> u64 list \<Rightarrow> bool" where
  "extends h p s xs s' xs' \<longleftrightarrow> keeps h p s xs s' xs' \<and> (\<forall>i < MAXB * 4096. content (mem s') p i = content (mem s) p i)"

lemma keeps_refl: "tree_ok s xs h p \<Longrightarrow> keeps h p s xs s xs"
  by (simp add: keeps_def)

lemma keeps_trans: "keeps h p s xs t ys \<Longrightarrow> keeps h p t ys u zs \<Longrightarrow> keeps h p s xs u zs"
  unfolding keeps_def by (simp; blast)

lemma extends_refl: "tree_ok s xs h p \<Longrightarrow> extends h p s xs s xs"
  by (simp add: extends_def keeps_refl)

lemma extends_trans: "extends h p s xs t ys \<Longrightarrow> extends h p t ys u zs \<Longrightarrow> extends h p s xs u zs"
  unfolding extends_def by (auto intro: keeps_trans)

lemma slot_page_new:
  assumes T: "tree_ok s (x0 # xs) h p" and N: "tnode (os @ [x])" and W: "walk_path (mem s) p os \<noteq> 0"
    and Z: "load64 (mem s) (walk_path (mem s) p os + of_nat x) = 0"
  defines "a \<equiv> walk_path (mem s) p os + of_nat x"
  defines "m1 \<equiv> memset (mem s) x0 0 4096"
  defines "m2 \<equiv> store64 m1 a x0"
  shows "extends h p s (x0 # xs) ((kalloc_take x0 s)\<lparr>mem := m2\<rparr>) xs" "walk_path m2 p (os @ [x]) = x0" "x0 \<noteq> 0"
proof -
  note D = tree_okD [OF T]
  have inv: "kalloc_inv s (x0 # xs)" using D(1) by (simp add: kalloc_ready_def)
  have kx: "kpage s x0" "aligned 12 x0" using kalloc_invD(4) [OF inv, of x0] kpage_aligned by auto
  show x0: "x0 \<noteq> 0" using kx(1) kalloc_invD(1) [OF inv] by (auto simp: kpage_def)
  have nx: "tbase (mem s) h p ys \<noteq> x0" if "tnode ys" "walk_path (mem s) p ys \<noteq> 0" for ys
    using tbase_page(2) [OF T that] by auto
  have m1: "m1 b = (if in_page x0 b then 0 else mem s b)" for b by (simp add: m1_def memset_page)
  note A = slot_place [OF T N W, folded a_def]
  have ab: "in_page (tbase (mem s) h p os) b" if "unat (b - a) < 8" for b
    using in_page_word [OF tbase_page(1) [OF T tnode_snocD [OF N] W] A(1) that] A(2) by simp
  have m2: "m2 b = m1 b" if "\<not> unat (b - a) < 8" for b using that by (simp add: m2_def store64_other)
  have l2: "load64 m2 b = (if b = a then x0 else load64 m1 b)" if "aligned 3 b" for b
    unfolding m2_def using load64_store64 [OF A(1) that] by auto
  have l1: "load64 m1 b = (if in_page x0 b then 0 else load64 (mem s) b)" if "aligned 3 b" for b
    unfolding m1_def by (rule load64_memset_page [OF kx(2) that])
  have w1: "walk_path m1 p ys = walk_path (mem s) p ys" if "tnode ys" for ys
  proof (rule walk_cong [OF D(5) _ that])
    fix ys y assume t: "tnode (ys @ [y])" "walk_path (mem s) p ys \<noteq> 0"
    have "\<not> in_page x0 (walk_path (mem s) p ys + of_nat y)"
      using in_page_unique [OF kx(2) tbase_page(1) [OF T tnode_snocD [OF t(1)] t(2)]] slot_place(2) [OF T t] nx [OF tnode_snocD [OF t(1)] t(2)] by auto
    then show "load64 m1 (walk_path (mem s) p ys + of_nat y) = load64 (mem s) (walk_path (mem s) p ys + of_nat y)"
      using l1 [OF slot_place(1) [OF T t]] by simp
  qed
  have w2: "walk_path m2 p ys = (if ys = os @ [x] then x0 else walk_path (mem s) p ys)" if "tnode ys" for ys
    using that
  proof (induction ys rule: rev_induct)
    case (snoc y ys)
    note t = tnode_snocD [OF snoc.prems]
    show ?case
    proof (cases "ys = os @ [x]")
      case True
      have "walk_path (mem s) p (os @ [x]) = 0" using Z W D(5) by (simp add: walk_snoc)
      then have r: "walk_path (mem s) p (ys @ [y]) = 0" unfolding True walk_snoc [OF D(5)] by simp
      have y: "in_page x0 (x0 + of_nat y)" "aligned 3 (x0 + of_nat y)"
        using tnode_offset [OF snoc.prems] aligned_add [of 3 x0 "of_nat y"] aligned_weaken [OF kx(2), of 3]
        by (auto simp: in_page_def unat_of_nat aligned_def)
      have "x0 + of_nat y \<noteq> a"
        using y(1) A(2) in_page_unique [OF kx(2) tbase_page(1) [OF T tnode_snocD [OF N] W]] nx [OF tnode_snocD [OF N] W] by auto
      then have "load64 m2 (x0 + of_nat y) = 0" using l2 [OF y(2)] l1 [OF y(2)] y(1) by simp
      moreover have "walk_path m2 p ys = x0" using snoc.IH [OF t] unfolding if_P [OF True] .
      ultimately have "walk_path m2 p (ys @ [y]) = 0" by (simp only: walk_snoc [OF D(5)]) simp
      then show ?thesis using r True by simp
    next
      case False
      then have i: "walk_path m2 p ys = walk_path (mem s) p ys" using snoc.IH [OF t] by simp
      show ?thesis
      proof (cases "walk_path (mem s) p ys = 0")
        case True
        then show ?thesis using i W by (auto simp: walk_snoc [OF D(5)])
      next
        case nz: False
        have e: "walk_path (mem s) p ys + of_nat y = a \<longleftrightarrow> ys @ [y] = os @ [x]"
          using tslot_inj [OF T snoc.prems nz N W] by (auto simp: a_def)
        have "load64 m2 (walk_path (mem s) p ys + of_nat y) = (if ys @ [y] = os @ [x] then x0 else load64 m1 (walk_path (mem s) p ys + of_nat y))"
          using l2 [OF slot_place(1) [OF T snoc.prems nz]] e by simp
        moreover have "load64 m1 (walk_path (mem s) p ys + of_nat y) = walk_path m1 p (ys @ [y])"
          using w1 [OF t] nz by (simp add: walk_snoc [OF D(5)])
        ultimately show ?thesis using i nz w1 [OF snoc.prems] by (simp add: walk_snoc [OF D(5)])
      qed
    qed
  qed simp
  show "walk_path m2 p (os @ [x]) = x0" using w2 [OF N] by simp
  let ?s = "(kalloc_take x0 s)\<lparr>mem := m2\<rparr>"
  have "load64 m2 y = load64 m1 y" if "y \<in> set xs" for y
  proof -
    have y: "aligned 12 y" using kalloc_invD(4) [OF inv, of y] that kpage_aligned by auto
    have "y \<noteq> a" using that tbase_page(2) [OF T tnode_snocD [OF N] W] A(2) in_page_unique [OF y tbase_page(1) [OF T tnode_snocD [OF N] W], of y] by auto
    then show ?thesis using l2 [OF aligned_weaken [OF y]] by simp
  qed
  then have kr: "kalloc_ready ?s xs"
    using kalloc_take_inv [OF inv] D(1) free_path_cong [of xs m2 m1 "head_addr s" "load64 (mem s) x0"]
    by (simp add: kalloc_ready_def kalloc_inv_def kpage_def kalloc_take_def m1_def)
  have ow: "walk_path m2 p ys \<in> {x0, walk_path (mem s) p ys}" if "tnode ys" for ys using w2 [OF that] by simp
  have t: "tree_ok ?s xs h p" unfolding tree_ok_def
  proof (intro conjI allI impI)
    fix ys assume ys: "tnode ys" "ys \<noteq> []" "walk_path (mem ?s) p ys \<noteq> 0"
    show "kpage ?s (walk_path (mem ?s) p ys)" "walk_path (mem ?s) p ys \<notin> set xs" "walk_path (mem ?s) p ys \<noteq> h"
      using ys w2 [OF ys(1)] D(7) [OF ys(1,2)] kx(1) D(3) kalloc_invD(3) [OF inv] by (auto simp: kpage_def)
  next
    fix ys zs assume ys: "tnode ys" "tnode zs" "ys \<noteq> []" "zs \<noteq> []" "walk_path (mem ?s) p ys \<noteq> 0" "walk_path (mem ?s) p ys = walk_path (mem ?s) p zs"
    show "ys = zs"
      using ys w2 [OF ys(1)] w2 [OF ys(2)] D(8) [OF ys(1-4)] D(7) [OF ys(1,3)] D(7) [OF ys(2,4)] x0 by (auto split: if_splits)
  qed (use kr D(2-6) in auto)
  have cn: "content m2 p i = content (mem s) p i" if "i < MAXB * 4096" for i
  proof -
    define n where "n = i div 4096"
    have n: "n < MAXB" "tnode (bpath n)" using that tnode_bpath [of n "bpath n" "[]"] by (auto simp: n_def)
    have j: "in_page b (b + of_nat (i mod 4096))" for b by (simp add: in_page_def unat_of_nat)
    have other: "m2 b = m1 b" if "in_page q b" "aligned 12 q" "q \<noteq> tbase (mem s) h p os" for q b
      using m2 [of b] ab [of b] in_page_unique [OF that(2) tbase_page(1) [OF T tnode_snocD [OF N] W] that(1)] that(3) by blast
    show ?thesis
    proof (cases "bpath n = os @ [x]")
      case True
      have z: "walk_path (mem s) p (bpath n) = 0" using Z W by (simp only: True walk_snoc [OF D(5)]) simp
      have "m2 (x0 + of_nat (i mod 4096)) = 0"
        using other [OF j kx(2)] nx [OF tnode_snocD [OF N] W] m1 j by metis
      then show ?thesis using z w2 [OF n(2)] True x0 by (simp only: content_def Let_def n_def [symmetric]) simp
    next
      case False
      then have e: "walk_path m2 p (bpath n) = walk_path (mem s) p (bpath n)" using w2 [OF n(2)] by simp
      let ?b = "walk_path (mem s) p (bpath n)"
      have "m2 (?b + of_nat (i mod 4096)) = mem s (?b + of_nat (i mod 4096))" if "?b \<noteq> 0"
      proof -
        note b = D(7) [OF n(2) bpath_ne that]
        have k: "kpage s ?b" "?b \<noteq> x0" using b by auto
        have "?b \<noteq> tbase (mem s) h p os"
          using b D(8) [OF n(2) tnode_snocD [OF N] bpath_ne _ that] N bpath_leaf [of n x] by (auto simp: tbase_def split: if_splits)
        then show ?thesis using other [OF j kpage_aligned(1) [OF k(1)]] m1 j in_page_unique [OF kpage_aligned(1) [OF k(1)] kx(2) j] k(2) by auto
      qed
      then show ?thesis using e by (simp add: content_def Let_def n_def [symmetric])
    qed
  qed
  have fo: "m2 b = mem s b \<and> foreign ?s xs p b" if "foreign s (x0 # xs) p b" for b
  proof -
    have f: "\<not> in_page x0 b" "\<And>q. q \<in> set xs \<Longrightarrow> \<not> in_page q b" "\<not> (24 \<le> unat (b - p) \<and> unat (b - p) < 120)"
      "\<And>ys. tnode ys \<Longrightarrow> ys \<noteq> [] \<Longrightarrow> walk_path (mem s) p ys \<noteq> 0 \<Longrightarrow> \<not> in_page (walk_path (mem s) p ys) b"
      using that by (auto simp: foreign_def)
    have "\<not> unat (b - a) < 8"
    proof
      assume l: "unat (b - a) < 8"
      show False
      proof (cases "os = []")
        case True
        have e: "b - p = (b - a) + of_nat x" using True by (simp add: a_def)
        have x: "24 \<le> x" "x < 120" "8 dvd x" using tnode_offset [OF N] True by auto
        have "unat (b - p) = unat (b - a) + x" unfolding e using l x by (intro unat_add_nat) simp
        moreover have "x \<le> 112" using x by (auto elim!: dvdE)
        ultimately show False using f(3) l x(1) by linarith
      next
        case False
        then show False using ab [OF l] f(4) [OF tnode_snocD [OF N] False W] by (simp add: tbase_def)
      qed
    qed
    then have "m2 b = mem s b" using m2 m1 f(1) by simp
    moreover have "foreign ?s xs p b" unfolding foreign_def using f w2 by auto
    ultimately show ?thesis by simp
  qed
  have wk: "walk_path m2 p ys = walk_path (mem s) p ys" if "tnode ys" "walk_path (mem s) p ys \<noteq> 0" for ys
    using w2 [OF that(1)] that(2) Z W by (auto simp: walk_snoc [OF D(5)])
  show "extends h p s (x0 # xs) ?s xs"
    unfolding extends_def keeps_def using t cn fo wk by (auto simp: kalloc_take_def)
qed

lemma slot_page_ok:
  assumes T: "tree_ok s xs h p" and N: "tnode (os @ [x])" and W: "walk_path (mem s) p os \<noteq> 0"
  shows "\<exists>s' xs'. slot_page (walk_path (mem s) p os + of_nat x) True s = Ok (walk_path (mem s') p (os @ [x]), s') \<and>
    extends h p s xs s' xs' \<and> (walk_path (mem s') p (os @ [x]) = 0 \<longrightarrow> xs' = [])"
proof (cases "load64 (mem s) (walk_path (mem s) p os + of_nat x) = 0")
  case False
  then show ?thesis using W extends_refl [OF T]
    by (intro exI [of _ s] exI [of _ xs]) (simp add: slot_page_def walk_snoc [OF tree_okD(5) [OF T]])
next
  case True
  have r: "kalloc_inv s xs" "MemLock \<notin> set (held s)" using tree_okD(1) [OF T] by (auto simp: kalloc_ready_def)
  show ?thesis
  proof (cases xs)
    case Nil
    then show ?thesis using True W r kalloc_Nil [of s] extends_refl [OF T]
      by (intro exI [of _ s] exI [of _ "[]"]) (simp add: slot_page_def walk_snoc [OF tree_okD(5) [OF T]])
  next
    case (Cons x0 ys)
    let ?s = "(kalloc_take x0 s)\<lparr>mem := store64 (memset (mem s) x0 0 4096) (walk_path (mem s) p os + of_nat x) x0\<rparr>"
    note n = slot_page_new [OF T [unfolded Cons] N W True]
    show ?thesis using True r n kalloc_Cons [OF r(1) [unfolded Cons] r(2)]
      by (intro exI [of _ ?s] exI [of _ ys]) (simp add: slot_page_def Cons)
  qed
qed

lemma walk_alloc_ok:
  assumes "tree_ok s xs h p" "n < MAXB" "bpath n = os @ ys" "walk_path (mem s) p os \<noteq> 0"
  shows "\<exists>s' xs'. walk_alloc ys (walk_path (mem s) p os) True s = Ok (walk_path (mem s') p (bpath n), s') \<and>
    extends h p s xs s' xs' \<and> (walk_path (mem s') p (bpath n) = 0 \<longrightarrow> xs' = [])"
  using assms
proof (induction ys arbitrary: os s xs)
  case Nil
  then show ?case using extends_refl by (intro exI [of _ s] exI [of _ xs]) simp
next
  case (Cons x ys)
  have N: "tnode (os @ [x])" using tnode_bpath [OF Cons.prems(2), of "os @ [x]" ys] Cons.prems(3) by simp
  obtain t zs where t: "slot_page (walk_path (mem s) p os + of_nat x) True s = Ok (walk_path (mem t) p (os @ [x]), t)"
      "extends h p s xs t zs" "walk_path (mem t) p (os @ [x]) = 0 \<longrightarrow> zs = []"
    using slot_page_ok [OF Cons.prems(1) N Cons.prems(4)] by blast
  have T: "tree_ok t zs h p" using t(2) by (simp add: extends_def keeps_def)
  show ?case
  proof (cases "walk_path (mem t) p (os @ [x]) = 0")
    case True
    have "walk_path m p (os @ x # ys) = 0" if "walk_path m p (os @ [x]) = 0" "p \<noteq> 0" for m :: memory
      using that by (induction os arbitrary: p) (auto simp: Let_def split: if_splits)
    then have "walk_path (mem t) p (bpath n) = 0" using True Cons.prems(3) tree_okD(5) [OF T] by simp
    then show ?thesis using t True by (intro exI [of _ t] exI [of _ zs]) simp
  next
    case False
    obtain u ws where u: "walk_alloc ys (walk_path (mem t) p (os @ [x])) True t = Ok (walk_path (mem u) p (bpath n), u)"
        "extends h p t zs u ws" "walk_path (mem u) p (bpath n) = 0 \<longrightarrow> ws = []"
      using Cons.IH [OF T Cons.prems(2) _ False] Cons.prems(3) by auto
    show ?thesis using t(1) False u extends_trans [OF t(2) u(2)] by (intro exI [of _ u] exI [of _ ws]) simp
  qed
qed

lemma tmpfs_bmap_alloc:
  assumes "tree_ok s xs h p" "unat bn < MAXB"
  shows "\<exists>s' xs'. tmpfs_bmap p bn True s = Ok (walk_path (mem s') p (bpath (unat bn)), s') \<and>
    extends h p s xs s' xs' \<and> (walk_path (mem s') p (bpath (unat bn)) = 0 \<longrightarrow> xs' = [])"
  unfolding tmpfs_bmap_path [OF assms(2)] using walk_alloc_ok [OF assms, of "[]" "bpath (unat bn)"] tree_okD(5) [OF assms(1)] by simp

lemma tmpfs_bmap_find:
  assumes "p \<noteq> 0" "unat bn < MAXB"
  shows "tmpfs_bmap p bn False s = Ok (walk_path (mem s) p (bpath (unat bn)), s)"
proof -
  have "walk_alloc os b False s = Ok (walk_path (mem s) b os, s)" if "b \<noteq> 0" for os b
    using that by (induction os arbitrary: b) (auto simp: slot_page_def Let_def)
  then show ?thesis using assms by (simp add: tmpfs_bmap_path)
qed

section \<open>Writing\<close>

text \<open>The effect of changing \<open>l\<close> bytes of block \<open>n\<close> from byte \<open>o\<close> on.\<close>

lemma unat_window:
  assumes "k + l < 2 ^ 64"
  shows "unat (y - of_nat k :: u64) < l \<longleftrightarrow> k \<le> unat y \<and> unat y < k + l"
proof -
  have "unat (of_nat k :: u64) = k" using assms by (intro unat_of_nat_small) simp
  moreover have "unat y < 2 ^ 64" by (rule order_less_le_trans [OF unsigned_less]) simp
  ultimately show ?thesis using assms by (auto simp: unat_sub_if')
qed

lemma write_block:
  fixes d :: "nat \<Rightarrow> u8"
  assumes T: "tree_ok s xs h p" and n: "n < MAXB" and b: "b = walk_path (mem s) p (bpath n)" "b \<noteq> 0" and l: "k + l \<le> 4096"
  defines "m \<equiv> \<lambda>x. if unat (x - (b + of_nat k)) < l then d (unat (x - (b + of_nat k))) else mem s x"
  shows "keeps h p s xs (s\<lparr>mem := m\<rparr>) xs"
    "i < MAXB * 4096 \<Longrightarrow> content m p i = (if i div 4096 = n \<and> k \<le> i mod 4096 \<and> i mod 4096 < k + l then d (i mod 4096 - k) else content (mem s) p i)"
proof -
  note D = tree_okD [OF T]
  have l64: "k + l < 2 ^ 64" using l by simp
  have tn: "tnode (bpath n)" using tnode_bpath [OF n, of "bpath n" "[]"] by simp
  note B = D(7) [OF tn bpath_ne b(2) [unfolded b(1)], folded b(1)]
  have b12: "aligned 12 b" using B kpage_aligned by blast
  have pos: "unat (x - (b + of_nat k)) < l \<longleftrightarrow> in_page b x \<and> k \<le> unat (x - b) \<and> unat (x - b) < k + l" for x
    using unat_window [OF l64, of "x - b"] l by (auto simp: in_page_def diff_diff_eq)
  have c: "in_page b a \<or> m a = mem s a" for a using pos by (auto simp: m_def)
  have nb: "tbase (mem s) h p os \<noteq> b" if "tnode (os @ [x])" "walk_path (mem s) p os \<noteq> 0" for os x
  proof (cases "os = []")
    case True
    then show ?thesis using B by (auto simp: tbase_def)
  next
    case False
    have "os \<noteq> bpath n" using that(1) bpath_leaf by auto
    then show ?thesis using D(8) [OF tnode_snocD [OF that(1)] tn False bpath_ne that(2)] False b(1) by (auto simp: tbase_def)
  qed
  have q: "b \<notin> set xs" using B by blast
  have w: "walk_path m p os = walk_path (mem s) p os" if "tnode os" for os
    by (rule tree_ok_mem(2) [OF T c b12 q _ that]) (rule nb)
  have "tree_ok (s\<lparr>mem := m\<rparr>) xs h p" by (rule tree_ok_mem(1) [OF T c b12 q]) (rule nb)
  moreover have "m a = mem s a \<and> foreign (s\<lparr>mem := m\<rparr>) xs p a" if "foreign s xs p a" for a
    using that tn b(2) c [of a] w unfolding foreign_def by (simp add: b(1))
  ultimately show "keeps h p s xs (s\<lparr>mem := m\<rparr>) xs" using w unfolding keeps_def by simp
  assume i: "i < MAXB * 4096"
  show "content m p i = (if i div 4096 = n \<and> k \<le> i mod 4096 \<and> i mod 4096 < k + l then d (i mod 4096 - k) else content (mem s) p i)"
  proof (cases "i div 4096 = n")
    case True
    have j: "unat (of_nat (i mod 4096) :: u64) = i mod 4096" by (simp add: unat_of_nat)
    have e: "b + of_nat (i mod 4096) - (b + of_nat k) = of_nat (i mod 4096) - of_nat k" by simp
    have "unat (of_nat (i mod 4096) - of_nat k :: u64) = i mod 4096 - k" if "k \<le> i mod 4096"
      using that j l by (simp add: unat_sub_if' unat_of_nat)
    then have "m (b + of_nat (i mod 4096)) = (if k \<le> i mod 4096 \<and> i mod 4096 < k + l then d (i mod 4096 - k) else mem s (b + of_nat (i mod 4096)))"
      unfolding m_def e using unat_window [OF l64, of "of_nat (i mod 4096)"] j by auto
    then show ?thesis using True b w [OF tn] by (simp add: content_def)
  next
    case False
    have k: "i div 4096 < MAXB" "tnode (bpath (i div 4096))" using i tnode_bpath [of "i div 4096" "bpath (i div 4096)" "[]"] by auto
    let ?c = "walk_path (mem s) p (bpath (i div 4096))"
    have "m (?c + of_nat (i mod 4096)) = mem s (?c + of_nat (i mod 4096))" if "?c \<noteq> 0"
    proof -
      have "?c \<noteq> b" using D(8) [OF k(2) tn bpath_ne bpath_ne that] bpath_inj [OF k(1) n] False b(1) by auto
      moreover have "in_page ?c (?c + of_nat (i mod 4096))" by (simp add: in_page_def unat_of_nat)
      moreover have "aligned 12 ?c" using D(7) [OF k(2) bpath_ne that] kpage_aligned by blast
      ultimately show ?thesis using c [of "?c + of_nat (i mod 4096)"] in_page_unique [OF _ b12] by blast
    qed
    then show ?thesis using False w [OF k(2)] by (simp add: content_def Let_def)
  qed
qed

lemma unat_block: "unat (ucast (off div PGSIZE :: u64) :: u32) = unat off div 4096" if "unat off < 2 ^ 44"
proof -
  have "unat (off div PGSIZE) = unat off div 4096" by (simp only: unat_div_distrib) simp
  moreover have "unat off div 4096 < 2 ^ 32" using that by (simp add: div_less_iff_less_mult)
  ultimately show ?thesis by (simp add: unsigned_ucast_eq take_bit_nat_eq_self)
qed

text \<open>One round of the loop: the bytes up to the end of the block, or of the range.\<close>

lemma sint_small:
  assumes "unat (x :: u64) \<le> 4096"
  shows "sint x = int (unat x)"
proof -
  have "uint x \<le> 4096" using assms by (simp only: uint_nat)
  moreover have "- 9223372036854775808 \<le> uint x" using uint_ge_0 [of x] by linarith
  ultimately have "sint x = uint x" unfolding sint_uint by (intro signed_take_bit_int_eq_self) simp_all
  then show ?thesis by (simp only: uint_nat)
qed

lemma write_loop_ok:
  assumes "tree_ok s xs h p" "unat tot \<le> MAXB * 4096" "unat off \<le> unat tot" "unat buffer + (unat tot - unat off) < 2 ^ 64"
    and "\<forall>k < unat tot - unat off. foreign s xs p (buffer + of_nat k)"
  shows "\<exists>ok s' xs'. tmpfs_write_loop p buffer off tot s = Ok (ok, s') \<and> keeps h p s xs s' xs' \<and> (\<not> ok \<longrightarrow> xs' = []) \<and>
    (ok \<longrightarrow> (\<forall>i < MAXB * 4096. content (mem s') p i =
        (if unat off \<le> i \<and> i < unat tot then mem s (buffer + of_nat (i - unat off)) else content (mem s) p i)) \<and>
      (\<forall>i. unat off \<le> i \<longrightarrow> i < unat tot \<longrightarrow> walk_path (mem s') p (bpath (i div 4096)) \<noteq> 0))"
  using assms
proof (induction "unat tot - unat off" arbitrary: off buffer s xs rule: less_induct)
  case less
  note T = less.prems(1)
  show ?case
  proof (cases "off < tot")
    case False
    then have "unat off = unat tot" using less.prems(3) by (simp add: word_less_nat_alt)
    then show ?thesis using False keeps_refl [OF T]
      by (intro exI [of _ True] exI [of _ s] exI [of _ xs]) (auto simp: tmpfs_write_loop.simps [of p buffer off tot s])
  next
    case True
    then have lt: "unat off < unat tot" by (simp only: word_less_nat_alt)
    define n where "n = unat off div 4096"
    define k where "k = unat off mod 4096"
    define l where "l = min (4096 - k) (unat tot - unat off)"
    have ok: "unat off = 4096 * n + k" "k < 4096" by (simp_all add: n_def k_def)
    have nb: "n < MAXB" using lt less.prems(2) by (simp add: n_def div_less_iff_less_mult)
    have l: "k + l \<le> 4096" "0 < l" "l \<le> unat tot - unat off" using lt ok by (auto simp: l_def)
    have bn: "unat (ucast (off div PGSIZE) :: u32) = n" using lt less.prems(2) by (simp add: unat_block n_def)
    have pr: "unat (page_rest off tot) = l" using unat_page_rest [OF True] by (simp add: l_def k_def)
    obtain t ys where t: "tmpfs_bmap p (ucast (off div PGSIZE)) True s = Ok (walk_path (mem t) p (bpath n), t)"
        "extends h p s xs t ys" "walk_path (mem t) p (bpath n) = 0 \<longrightarrow> ys = []"
      using tmpfs_bmap_alloc [OF T, of "ucast (off div PGSIZE)"] nb unfolding bn by blast
    let ?b = "walk_path (mem t) p (bpath n)"
    have kt: "keeps h p s xs t ys" and Tt: "tree_ok t ys h p" using t(2) by (auto simp: extends_def keeps_def)
    show ?thesis
    proof (cases "?b = 0")
      case b0: True
      then show ?thesis using True t kt
        by (intro exI [of _ False] exI [of _ t] exI [of _ ys]) (simp add: tmpfs_write_loop.simps [of p buffer off tot s])
    next
      case False
      define u where "u = t\<lparr>mem := memmove (mem t) (?b + off mod PGSIZE) buffer (sint (page_rest off tot))\<rparr>"
      have loop: "tmpfs_write_loop p buffer off tot s = tmpfs_write_loop p (buffer + page_rest off tot) (off + page_rest off tot) tot u"
        using True t(1) False by (simp add: tmpfs_write_loop.simps [of p buffer off tot s] Let_def u_def)
      have m: "mem u = (\<lambda>x. if unat (x - (?b + of_nat k)) < l then mem s (buffer + of_nat (unat (x - (?b + of_nat k)))) else mem t x)"
      proof -
        have o: "off mod PGSIZE = of_nat k" by (simp only: word_eq_iff_unat unat_mod_distrib) (simp add: k_def unat_of_nat)
        have s: "sint (page_rest off tot) = int l" using sint_small [of "page_rest off tot"] pr l by simp
        have tn: "tnode (bpath n)" using tnode_bpath [OF nb, of "bpath n" "[]"] by simp
        have kb: "kpage t ?b" using tree_okD(7) [OF Tt tn bpath_ne False] by simp
        have "unat ?b < unat PHYSTOP_HIGH" using kb by (simp only: kpage_def word_less_nat_alt)
        then have d: "unat (?b + of_nat k) + l \<le> 2 ^ 64"
          using aligned_add_unat [of 12 ?b k] kpage_aligned(1) [OF kb] ok(2) l(1) by simp
        have e: "unat buffer + l \<le> 2 ^ 64" using less.prems(4) l(3) by simp
        have "mem t (buffer + (x - (?b + of_nat k))) = mem s (buffer + of_nat (unat (x - (?b + of_nat k))))" if "unat (x - (?b + of_nat k)) < l" for x
        proof -
          have "foreign s xs p (buffer + of_nat (unat (x - (?b + of_nat k))))" using less.prems(5) that l(3) by (meson order_less_le_trans)
          then show ?thesis using kt by (simp add: keeps_def)
        qed
        then show ?thesis unfolding u_def o s using memmove_eq [OF d e, of "mem t"] by (simp add: fun_eq_iff)
      qed
      have u: "keeps h p t ys u ys" "\<And>i. i < MAXB * 4096 \<Longrightarrow> content (mem u) p i =
          (if i div 4096 = n \<and> k \<le> i mod 4096 \<and> i mod 4096 < k + l then mem s (buffer + of_nat (i mod 4096 - k)) else content (mem t) p i)"
        using write_block [OF Tt nb refl False l(1), where d = "\<lambda>i. mem s (buffer + of_nat i)"] m by (auto simp: u_def)
      have ku: "keeps h p s xs u ys" by (rule keeps_trans [OF kt u(1)])
      have pl: "page_rest off tot = of_nat l" by (simp flip: pr)
      have uo: "unat (off + page_rest off tot) = unat off + l" unfolding pl using l less.prems(2) by (intro unat_add_nat) simp
      have ub: "unat (buffer + page_rest off tot) = unat buffer + l" unfolding pl using l less.prems(4) by (intro unat_add_nat) simp
      obtain ok' s' xs' where r: "tmpfs_write_loop p (buffer + page_rest off tot) (off + page_rest off tot) tot u = Ok (ok', s')"
          "keeps h p u ys s' xs'" "\<not> ok' \<longrightarrow> xs' = []"
          "ok' \<Longrightarrow> \<forall>i < MAXB * 4096. content (mem s') p i = (if unat off + l \<le> i \<and> i < unat tot then mem u (buffer + page_rest off tot + of_nat (i - (unat off + l))) else content (mem u) p i)"
          "ok' \<Longrightarrow> \<forall>i. unat off + l \<le> i \<longrightarrow> i < unat tot \<longrightarrow> walk_path (mem s') p (bpath (i div 4096)) \<noteq> 0"
      proof -
        have f: "foreign u ys p (buffer + page_rest off tot + of_nat k)" if "k < unat tot - (unat off + l)" for k
          using ku less.prems(5) that l unfolding keeps_def pl by (simp add: add.assoc flip: of_nat_add)
        have Tu: "tree_ok u ys h p" using u(1) by (simp add: keeps_def)
        have c: "unat tot - (unat off + l) < unat tot - unat off" "unat off + l \<le> unat tot"
          "unat buffer + l + (unat tot - (unat off + l)) < 2 ^ 64" "\<forall>k < unat tot - (unat off + l). foreign u ys p (buffer + page_rest off tot + of_nat k)"
          using lt l less.prems(4) f by auto
        show thesis
          using less.hyps [where off = "off + page_rest off tot" and buffer = "buffer + page_rest off tot", unfolded uo ub, OF c(1) Tu less.prems(2) c(2-4)] that
          by blast
      qed
      have win: "i div 4096 = n \<and> k \<le> i mod 4096 \<and> i mod 4096 < k + l \<longleftrightarrow> unat off \<le> i \<and> i < unat off + l" for i
      proof
        assume a: "i div 4096 = n \<and> k \<le> i mod 4096 \<and> i mod 4096 < k + l"
        then have "i = 4096 * n + i mod 4096" using mult_div_mod_eq [of 4096 i] by simp
        then show "unat off \<le> i \<and> i < unat off + l" using a ok(1) by linarith
      next
        assume a: "unat off \<le> i \<and> i < unat off + l"
        define j where "j = i - 4096 * n"
        have "i = 4096 * n + j" "j < 4096" "k \<le> j" "j < k + l" using a ok(1) l(1) unfolding j_def by linarith+
        then show "i div 4096 = n \<and> k \<le> i mod 4096 \<and> i mod 4096 < k + l" by simp
      qed
      have ct: "content (mem t) p i = content (mem s) p i" if "i < MAXB * 4096" for i using t(2) that by (simp add: extends_def)
      have cs: "content (mem s') p i = (if unat off \<le> i \<and> i < unat tot then mem s (buffer + of_nat (i - unat off)) else content (mem s) p i)"
        if "ok'" "i < MAXB * 4096" for i
      proof (cases "unat off + l \<le> i \<and> i < unat tot")
        case True
        have e: "l + (i - (unat off + l)) = i - unat off" using True by linarith
        have a: "buffer + page_rest off tot + of_nat (i - (unat off + l)) = buffer + of_nat (i - unat off)"
          unfolding pl add.assoc of_nat_add [symmetric] e ..
        have "foreign s xs p (buffer + of_nat (i - unat off))" by (rule less.prems(5) [rule_format]) (use True in linarith)
        then have us: "mem u (buffer + of_nat (i - unat off)) = mem s (buffer + of_nat (i - unat off))" using ku unfolding keeps_def by blast
        have cu: "content (mem s') p i = mem u (buffer + of_nat (i - unat off))"
          using r(4) [OF that(1), rule_format, OF that(2)] unfolding if_P [OF True] a .
        have c: "unat off \<le> i \<and> i < unat tot" using True by linarith
        show ?thesis unfolding if_P [OF c] by (rule trans [OF cu us])
      next
        case False
        have c1: "content (mem s') p i = content (mem u) p i" using r(4) [OF that(1), rule_format, OF that(2)] unfolding if_not_P [OF False] .
        show ?thesis
        proof (cases "unat off \<le> i \<and> i < unat off + l")
          case True
          then have w: "i div 4096 = n \<and> k \<le> i mod 4096 \<and> i mod 4096 < k + l" using win by blast
          then have d: "i mod 4096 - k = i - unat off" using mult_div_mod_eq [of 4096 i] ok(1) by simp
          have c: "unat off \<le> i \<and> i < unat tot" using True l(3) lt by linarith
          show ?thesis using u(2) [OF that(2)] unfolding if_P [OF w] if_P [OF c] c1 d .
        next
          case o: False
          then have w: "\<not> (i div 4096 = n \<and> k \<le> i mod 4096 \<and> i mod 4096 < k + l)" using win by blast
          have c: "\<not> (unat off \<le> i \<and> i < unat tot)" using o False by linarith
          show ?thesis using u(2) [OF that(2)] unfolding if_not_P [OF w] if_not_P [OF c] c1 ct [OF that(2)] .
        qed
      qed
      have nz: "walk_path (mem s') p (bpath (i div 4096)) \<noteq> 0" if "ok'" "unat off \<le> i" "i < unat tot" for i
      proof (cases "unat off + l \<le> i")
        case True
        then show ?thesis using r(5) [OF that(1)] that(3) by simp
      next
        case i: False
        then have "i div 4096 = n" using win [of i] that(2) by simp
        moreover have "walk_path (mem s') p (bpath n) = ?b"
          using keeps_trans [OF u(1) r(2)] tnode_bpath [OF nb, of "bpath n" "[]"] False by (simp add: keeps_def)
        ultimately show ?thesis using False by simp
      qed
      show ?thesis using loop r(1,3) keeps_trans [OF ku r(2)] cs nz by (intro exI [of _ ok'] exI [of _ s'] exI [of _ xs']) simp
    qed
  qed
qed

section \<open>Reading\<close>

text \<open>A change of foreign bytes keeps the file.\<close>

lemma foreign_change:
  assumes T: "tree_ok s xs h p" and c: "\<And>a. foreign s xs p a \<or> m a = mem s a"
  shows "tree_ok (s\<lparr>mem := m\<rparr>) xs h p" "foreign (s\<lparr>mem := m\<rparr>) xs p = foreign s xs p"
    "i < MAXB * 4096 \<Longrightarrow> content m p i = content (mem s) p i" "tnode os \<Longrightarrow> walk_path m p os = walk_path (mem s) p os"
proof -
  note D = tree_okD [OF T]
  have w: "walk_path m p os = walk_path (mem s) p os" if "tnode os" for os
  proof (rule walk_cong [OF D(5) _ that])
    fix os x assume t: "tnode (os @ [x])" "walk_path (mem s) p os \<noteq> 0"
    show "load64 m (walk_path (mem s) p os + of_nat x) = load64 (mem s) (walk_path (mem s) p os + of_nat x)"
    proof (rule load64_cong)
      fix i :: nat assume i: "i < 8"
      let ?a = "walk_path (mem s) p os + of_nat x + of_nat i"
      have "\<not> foreign s xs p ?a"
      proof (cases "os = []")
        case True
        have x: "24 \<le> x" "x < 120" "8 dvd x" using tnode_offset [OF t(1)] True by auto
        then have "x \<le> 112" by (auto elim!: dvdE)
        moreover have "?a - p = of_nat (x + i)" using True by simp
        moreover have "unat (of_nat (x + i) :: u64) = x + i" using x i by (intro unat_of_nat_small) simp
        ultimately have "24 \<le> unat (?a - p) \<and> unat (?a - p) < 120" using x(1) i by simp
        then show ?thesis unfolding foreign_def by blast
      next
        case False
        then have "in_page (walk_path (mem s) p os) ?a"
          using in_page_word [OF tbase_page(1) [OF T tnode_snocD [OF t(1)] t(2)] slot_place(1) [OF T t] i] slot_place(2) [OF T t] by (simp add: tbase_def)
        then show ?thesis unfolding foreign_def using tnode_snocD [OF t(1)] False t(2) by blast
      qed
      then show "m ?a = mem s ?a" using c by blast
    qed
  qed
  then show "tnode os \<Longrightarrow> walk_path m p os = walk_path (mem s) p os" .
  have "load64 m x = load64 (mem s) x" if "x \<in> set xs" for x
  proof (rule load64_cong)
    fix i :: nat assume "i < 8"
    then have "in_page x (x + of_nat i)" by (simp add: in_page_def unat_of_nat)
    then show "m (x + of_nat i) = mem s (x + of_nat i)" using c that unfolding foreign_def by blast
  qed
  then have "kalloc_ready (s\<lparr>mem := m\<rparr>) xs"
    using D(1) free_path_cong [of xs m "mem s" "head_addr s" "head_next s"] by (simp add: kalloc_ready_def kalloc_inv_def kpage_def)
  then show "tree_ok (s\<lparr>mem := m\<rparr>) xs h p" using D(2-8) w unfolding tree_ok_def by (simp add: kpage_def)
  show "foreign (s\<lparr>mem := m\<rparr>) xs p = foreign s xs p" unfolding foreign_def fun_eq_iff using w by simp
  assume i: "i < MAXB * 4096"
  have k: "tnode (bpath (i div 4096))" using i tnode_bpath [of "i div 4096" "bpath (i div 4096)" "[]"] by auto
  let ?c = "walk_path (mem s) p (bpath (i div 4096))"
  have "m (?c + of_nat (i mod 4096)) = mem s (?c + of_nat (i mod 4096))" if "?c \<noteq> 0"
  proof -
    have "in_page ?c (?c + of_nat (i mod 4096))" by (simp add: in_page_def unat_of_nat)
    then show ?thesis using c that k unfolding foreign_def by (metis bpath_ne)
  qed
  then show "content m p i = content (mem s) p i" using w [OF k] by (simp add: content_def Let_def)
qed

text \<open>Memory with \<open>r\<close> bytes of the file from \<open>off\<close> on at \<open>buffer\<close>.\<close>

definition copied :: "memory \<Rightarrow> u64 \<Rightarrow> u64 \<Rightarrow> nat \<Rightarrow> nat \<Rightarrow> memory" where
  "copied m p buffer off r = (\<lambda>a. if unat (a - buffer) < r then content m p (off + unat (a - buffer)) else m a)"

lemma read_loop_ok:
  assumes "tree_ok s xs h p" "unat tot \<le> MAXB * 4096" "unat off \<le> unat tot" "unat buffer + (unat tot - unat off) < 2 ^ 64"
    and "\<forall>k < unat tot - unat off. foreign s xs p (buffer + of_nat k)"
  shows "\<exists>r. r \<le> unat tot - unat off \<and>
    tmpfs_read_loop p buffer off tot s = Ok (off + of_nat r, s\<lparr>mem := copied (mem s) p buffer (unat off) r\<rparr>) \<and>
    (r < unat tot - unat off \<longrightarrow> walk_path (mem s) p (bpath ((unat off + r) div 4096)) = 0)"
  using assms
proof (induction "unat tot - unat off" arbitrary: off buffer s rule: less_induct)
  case less
  note T = less.prems(1)
  note p0 = tree_okD(5) [OF T]
  show ?case
  proof (cases "off < tot")
    case False
    then have "unat off = unat tot" using less.prems(3) by (simp add: word_less_nat_alt)
    then show ?thesis using False
      by (intro exI [of _ 0]) (auto simp: tmpfs_read_loop.simps [of p buffer off tot s] copied_def)
  next
    case True
    then have lt: "unat off < unat tot" by (simp only: word_less_nat_alt)
    define n where "n = unat off div 4096"
    define k where "k = unat off mod 4096"
    define l where "l = min (4096 - k) (unat tot - unat off)"
    have ok: "unat off = 4096 * n + k" "k < 4096" by (simp_all add: n_def k_def)
    have nb: "n < MAXB" using lt less.prems(2) by (simp add: n_def div_less_iff_less_mult)
    have l: "k + l \<le> 4096" "0 < l" "l \<le> unat tot - unat off" using lt ok by (auto simp: l_def)
    have bn: "unat (ucast (off div PGSIZE) :: u32) = n" using lt less.prems(2) by (simp add: unat_block n_def)
    have pr: "unat (page_rest off tot) = l" using unat_page_rest [OF True] by (simp add: l_def k_def)
    have pl: "page_rest off tot = of_nat l" by (simp flip: pr)
    have tn: "tnode (bpath n)" using tnode_bpath [OF nb, of "bpath n" "[]"] by simp
    let ?b = "walk_path (mem s) p (bpath n)"
    have bm: "tmpfs_bmap p (ucast (off div PGSIZE)) False s = Ok (?b, s)" using tmpfs_bmap_find [OF p0, of "ucast (off div PGSIZE)" s] nb bn by simp
    show ?thesis
    proof (cases "?b = 0")
      case b0: True
      have "copied (mem s) p buffer (unat off) 0 = mem s" by (simp add: copied_def)
      then show ?thesis using True b0 bm
        by (intro exI [of _ 0]) (simp add: tmpfs_read_loop.simps [of p buffer off tot s] n_def)
    next
      case False
      define m where "m = copied (mem s) p buffer (unat off) l"
      define u where "u = s\<lparr>mem := m\<rparr>"
      have mm: "memmove (mem s) buffer (?b + off mod PGSIZE) (sint (page_rest off tot)) = m"
      proof -
        have o: "off mod PGSIZE = of_nat k" by (simp only: word_eq_iff_unat unat_mod_distrib) (simp add: k_def unat_of_nat)
        have s: "sint (page_rest off tot) = int l" using sint_small [of "page_rest off tot"] pr l by simp
        have kb: "kpage s ?b" using tree_okD(7) [OF T tn bpath_ne False] by simp
        have "unat ?b < unat PHYSTOP_HIGH" using kb by (simp only: kpage_def word_less_nat_alt)
        then have e: "unat (?b + of_nat k) + l \<le> 2 ^ 64"
          using aligned_add_unat [of 12 ?b k] kpage_aligned(1) [OF kb] ok(2) l(1) by simp
        have d: "unat buffer + l \<le> 2 ^ 64" using less.prems(4) l(3) by simp
        have "mem s (?b + of_nat k + (x - buffer)) = content (mem s) p (unat off + unat (x - buffer))" if "unat (x - buffer) < l" for x
        proof -
          define j where "j = k + unat (x - buffer)"
          have j: "unat off + unat (x - buffer) = 4096 * n + j" "j < 4096" using ok that l(1) by (auto simp: j_def)
          have "(unat off + unat (x - buffer)) div 4096 = n" "(unat off + unat (x - buffer)) mod 4096 = k + unat (x - buffer)"
            unfolding j(1) using j(2) by (simp_all, simp add: j_def)
          then show ?thesis using False by (simp add: content_def add.assoc)
        qed
        then show ?thesis unfolding o s memmove_eq [OF d e] m_def copied_def by (auto simp: fun_eq_iff)
      qed
      have loop: "tmpfs_read_loop p buffer off tot s = tmpfs_read_loop p (buffer + page_rest off tot) (off + page_rest off tot) tot u"
        using True bm False mm by (simp add: tmpfs_read_loop.simps [of p buffer off tot s] Let_def u_def)
      have c: "foreign s xs p a \<or> m a = mem s a" for a
      proof (cases "unat (a - buffer) < l")
        case True
        then have "foreign s xs p (buffer + of_nat (unat (a - buffer)))" using less.prems(5) l(3) by (meson order_less_le_trans)
        then show ?thesis by simp
      qed (simp add: m_def copied_def)
      note F = foreign_change [OF T c]
      have uo: "unat (off + page_rest off tot) = unat off + l" unfolding pl using l less.prems(2) by (intro unat_add_nat) simp
      have ub: "unat (buffer + page_rest off tot) = unat buffer + l" unfolding pl using l less.prems(4) by (intro unat_add_nat) simp
      obtain r where r: "r \<le> unat tot - (unat off + l)"
          "tmpfs_read_loop p (buffer + page_rest off tot) (off + page_rest off tot) tot u =
             Ok (off + page_rest off tot + of_nat r, u\<lparr>mem := copied (mem u) p (buffer + page_rest off tot) (unat off + l) r\<rparr>)"
          "r < unat tot - (unat off + l) \<longrightarrow> walk_path (mem u) p (bpath ((unat off + l + r) div 4096)) = 0"
      proof -
        have f: "foreign u xs p (buffer + page_rest off tot + of_nat k)" if "k < unat tot - (unat off + l)" for k
          unfolding u_def F(2) pl using less.prems(5) that l by (simp add: add.assoc flip: of_nat_add)
        have Tu: "tree_ok u xs h p" using F(1) by (simp add: u_def)
        have c: "unat tot - (unat off + l) < unat tot - unat off" "unat off + l \<le> unat tot"
          "unat buffer + l + (unat tot - (unat off + l)) < 2 ^ 64" "\<forall>k < unat tot - (unat off + l). foreign u xs p (buffer + page_rest off tot + of_nat k)"
          using lt l less.prems(4) f by auto
        show thesis
          using less.hyps [where off = "off + page_rest off tot" and buffer = "buffer + page_rest off tot", unfolded uo ub, OF c(1) Tu less.prems(2) c(2-4)] that
          by blast
      qed
      have cc: "copied m p (buffer + of_nat l) (unat off + l) r = copied (mem s) p buffer (unat off) (l + r)"
      proof
        fix a
        have lr: "l + r \<le> unat tot - unat off" using l r(1) by linarith
        then have l64: "l + r < 2 ^ 64" using less.prems(4) by linarith
        have w: "unat (a - (buffer + of_nat l)) < r \<longleftrightarrow> l \<le> unat (a - buffer) \<and> unat (a - buffer) < l + r"
          using unat_window [OF l64, of "a - buffer"] by (simp only: diff_diff_eq)
        show "copied m p (buffer + of_nat l) (unat off + l) r a = copied (mem s) p buffer (unat off) (l + r) a"
        proof (cases "l \<le> unat (a - buffer) \<and> unat (a - buffer) < l + r")
          case True
          have "unat (of_nat l :: u64) = l" using l64 by (intro unat_of_nat_small) simp
          then have "unat (a - buffer - of_nat l) = unat (a - buffer) - l" using True by (simp only: unat_sub_if') simp
          then have "unat off + l + unat (a - (buffer + of_nat l)) = unat off + unat (a - buffer)" using True by (simp only: diff_diff_eq) linarith
          moreover have "unat off + unat (a - buffer) < MAXB * 4096" using True lr less.prems(2) lt by linarith
          ultimately show ?thesis using w True F(3) by (simp add: copied_def add.assoc)
        next
          case False
          then show ?thesis using w unfolding copied_def m_def by auto
        qed
      qed
      have "walk_path (mem u) p (bpath ((unat off + l + r) div 4096)) = walk_path (mem s) p (bpath ((unat off + l + r) div 4096))"
        if "r < unat tot - (unat off + l)"
      proof -
        have "(unat off + l + r) div 4096 < MAXB" using that less.prems(2) by (simp add: div_less_iff_less_mult)
        then show ?thesis using F(4) tnode_bpath [of "(unat off + l + r) div 4096" "bpath ((unat off + l + r) div 4096)" "[]"] by (simp add: u_def)
      qed
      then show ?thesis using loop r l lt cc
        by (intro exI [of _ "l + r"]) (auto simp: u_def pl add.assoc)
    qed
  qed
qed

section \<open>The operations\<close>

lemma acquiresleep_free:
  assumes "held s = []" "\<not> slk_locked (sleeplocks s l)"
  shows "acquiresleep l s = Ok (Done (), upd_sleeplock l (\<lambda>k. k\<lparr>slk_locked := True, slk_pid := pid (get_proc s)\<rparr>) s)"
  using assms by (simp add: acquiresleep_def acquiresleep_loop_def upd_sleeplock_def get_proc_def Let_def)

lemma releasesleep_free:
  assumes "held s = []"
  shows "\<exists>P. releasesleep l s = Ok ((upd_sleeplock l (\<lambda>k. k\<lparr>slk_locked := False, slk_pid := 0\<rparr>) s)\<lparr>proc := P\<rparr>)"
proof -
  let ?t = "upd_sleeplock l (\<lambda>k. k\<lparr>slk_pid := 0\<rparr>) (upd_sleeplock l (\<lambda>k. k\<lparr>slk_locked := False\<rparr>) (s\<lparr>held := [SleepSpin l]\<rparr>))"
  have "wakeup (LockChan l) ?t = Ok (?t\<lparr>proc := woken (LockChan l) ?t\<rparr>)" by (rule wakeup_eq) (simp add: upd_sleeplock_def)
  moreover have "u\<lparr>held := []\<rparr> = u" if "held u = []" for u :: "'a sched_state_scheme" using that by (cases u) simp
  ultimately show ?thesis using assms
    by (intro exI [of _ "woken (LockChan l) ?t"]) (simp add: releasesleep_def Let_def upd_sleeplock_def)
qed

lemma tree_ok_more [simp]:
  "tree_ok (upd_sleeplock l g s) = tree_ok s" "foreign (upd_sleeplock l g s) = foreign s"
  "tree_ok (t\<lparr>proc := P\<rparr>) = tree_ok t" "foreign (t\<lparr>proc := P\<rparr>) = foreign t"
  by (simp_all add: fun_eq_iff tree_ok_def foreign_def upd_sleeplock_def kalloc_ready_def kalloc_inv_def kpage_def)

lemma upd_sleeplock_sel [simp]:
  "mem (upd_sleeplock l g s) = mem s" "held (upd_sleeplock l g s) = held s" "vnodes (upd_sleeplock l g v) = vnodes v"
  "sleeplocks (upd_sleeplock l g s) = (sleeplocks s)(l := g (sleeplocks s l))"
  by (simp_all add: upd_sleeplock_def)

lemma more_eq:
  fixes s s' :: "'a vfs_state_scheme"
  shows "kalloc_state.more s' = kalloc_state.more s \<Longrightarrow> vnodes s' = vnodes s \<and> sleeplocks s' = sleeplocks s"
  by (cases s; cases s') simp

lemma size_foreign:
  assumes "tree_ok s xs h p" "j < 8"
  shows "foreign s xs p (ti_size p + of_nat j)"
proof -
  note D = tree_okD [OF assms(1)]
  have e: "ti_size p + of_nat j - p = of_nat (8 + j)" by simp
  have u: "unat (of_nat (8 + j) :: u64) = 8 + j" using assms(2) by (intro unat_of_nat_small) simp
  have e': "ti_size p + of_nat j - h = (p - h) + of_nat (8 + j)" by simp
  have "unat ((p - h) + of_nat (8 + j)) = unat (p - h) + (8 + j)" using D(6) assms(2) by (intro unat_add_nat) simp
  then have i: "in_page h (ti_size p + of_nat j)" unfolding in_page_def e' using D(6) assms(2) by linarith
  have n: "\<not> in_page q (ti_size p + of_nat j)" if "aligned 12 q" "q \<noteq> h" for q
    using in_page_unique [OF that(1) D(2) _ i] that(2) by blast
  note n
  moreover have "aligned 12 q" if "q \<in> set xs" for q
    using D(1) that by (auto simp: kalloc_ready_def dest!: kalloc_invD(4) kpage_aligned(1))
  ultimately have "\<forall>q \<in> set xs. \<not> in_page q (ti_size p + of_nat j)" using D(3) by blast
  moreover have "\<not> in_page (walk_path (mem s) p os) (ti_size p + of_nat j)" if "tnode os" "os \<noteq> []" "walk_path (mem s) p os \<noteq> 0" for os
    using D(7) [OF that] kpage_aligned(1) n by blast
  moreover have "\<not> (24 \<le> unat (ti_size p + of_nat j - p) \<and> unat (ti_size p + of_nat j - p) < 120)" unfolding e u using assms(2) by simp
  ultimately show ?thesis unfolding foreign_def by blast
qed

text \<open>
  A file whose inode is at \<open>p\<close>, opened as \<open>f\<close>, with its lock free; and a buffer in memory that does not
  belong to the file and is not free.
\<close>

definition tmp_file :: "'a vfs_state_scheme \<Rightarrow> u64 list \<Rightarrow> u64 \<Rightarrow> u64 \<Rightarrow> kfile \<Rightarrow> bool" where
  "tmp_file s xs h p f \<longleftrightarrow> tree_ok s xs h p \<and> held s = [] \<and>
     (\<exists>v. f_node f = Some v \<and> vi_private (vnodes s v) = p \<and> \<not> slk_locked (sleeplocks s (vi_lock (vnodes s v))))"

definition outside_buf :: "'a kalloc_state_scheme \<Rightarrow> u64 list \<Rightarrow> u64 \<Rightarrow> u64 \<Rightarrow> nat \<Rightarrow> bool" where
  "outside_buf s xs p buffer n \<longleftrightarrow> buffer \<noteq> 0 \<and> unat buffer + n < 2 ^ 64 \<and> (\<forall>k < n. foreign s xs p (buffer + of_nat k))"

definition file_size :: "'a kalloc_state_scheme \<Rightarrow> u64 \<Rightarrow> nat" where
  "file_size s p = unat (load64 (mem s) (ti_size p))"

lemma load64_foreign:
  assumes "tree_ok s xs h p" "\<And>a. foreign s xs p a \<Longrightarrow> m a = mem s a"
  shows "load64 m (ti_size p) = load64 (mem s) (ti_size p)"
  by (rule load64_cong) (rule assms(2) [OF size_foreign [OF assms(1)]])

lemma range_facts:
  assumes "unat (off :: u64) + unat (sz :: u32) \<le> MAXB * 4096"
  shows "unat (off + ucast sz) = unat off + unat sz" "\<not> off + ucast sz < off" "\<not> off + ucast sz > TMPFS_MAXSIZE"
    "to_c_int (uint (off + ucast sz - off)) = int (unat sz)"
proof -
  have z: "ucast sz = (of_nat (unat sz) :: u64)" by simp
  show u: "unat (off + ucast sz) = unat off + unat sz" unfolding z using assms by (intro unat_add_nat) simp
  show "\<not> off + ucast sz < off" "\<not> off + ucast sz > TMPFS_MAXSIZE" using assms u by (simp_all add: word_less_nat_alt)
  have "uint (ucast sz :: u64) = int (unat sz)" 
    using uint_lt2p [of sz] by (simp add: unsigned_ucast_eq take_bit_int_eq_self_iff)
  moreover have "to_c_int (int (unat sz)) = int (unat sz)" by (rule to_c_int_id) (use assms in linarith)+
  ultimately show "to_c_int (uint (off + ucast sz - off)) = int (unat sz)" by simp
qed

lemma releasesleep_tmp:
  fixes u :: "'a tmpfs_state_scheme"
  assumes "tree_ok u ys h p" "held u = []" "f_node f = Some v" "vi_private (vnodes u v) = p"
  shows "\<exists>u'. releasesleep (vi_lock (vnodes u v)) u = Ok u' \<and> tmp_file u' ys h p f \<and> mem u' = mem u \<and>
    foreign u' = foreign u \<and> vnodes u' = vnodes u"
proof -
  obtain P where "releasesleep (vi_lock (vnodes u v)) u =
      Ok ((upd_sleeplock (vi_lock (vnodes u v)) (\<lambda>k. k\<lparr>slk_locked := False, slk_pid := 0\<rparr>) u)\<lparr>proc := P\<rparr>)"
    using releasesleep_free [OF assms(2)] by blast
  then show ?thesis using assms by (simp add: tmp_file_def)
qed

lemma tmpfs_write_effect:
  fixes s :: "'a tmpfs_state_scheme"
  assumes F: "tmp_file s xs h p f" and B: "outside_buf s xs p buffer (unat sz)" and R: "unat (f_offset f) + unat sz \<le> MAXB * 4096"
  shows "\<exists>r s' xs'. tmpfs_vfs_write f buffer sz s = Ok (Done r, s') \<and> tmp_file s' xs' h p f \<and> (\<forall>a. foreign s xs p a \<longrightarrow> foreign s' xs' p a) \<and>
    vnodes s' = vnodes s \<and>
    (r = - 1 \<and> xs' = [] \<or> r = int (unat sz) \<and> file_size s' p = max (file_size s p) (unat (f_offset f) + unat sz) \<and>
      (\<forall>i < MAXB * 4096. content (mem s') p i = (if unat (f_offset f) \<le> i \<and> i < unat (f_offset f) + unat sz
        then mem s (buffer + of_nat (i - unat (f_offset f))) else content (mem s) p i)) \<and>
      (\<forall>i. unat (f_offset f) \<le> i \<longrightarrow> i < unat (f_offset f) + unat sz \<longrightarrow> walk_path (mem s') p (bpath (i div 4096)) \<noteq> 0))"
proof -
  obtain v where v: "f_node f = Some v" "vi_private (vnodes s v) = p" "\<not> slk_locked (sleeplocks s (vi_lock (vnodes s v)))" "held s = []"
    and T: "tree_ok s xs h p" using F by (auto simp: tmp_file_def)
  define l where "l = vi_lock (vnodes s v)"
  define off tot where "off = f_offset f" and "tot = off + ucast sz"
  note rf = range_facts [OF R, folded off_def]
  define t where "t = upd_sleeplock l (\<lambda>k. k\<lparr>slk_locked := True, slk_pid := pid (get_proc s)\<rparr>) s"
  have t: "acquiresleep l s = Ok (Done (), t)" unfolding t_def by (rule acquiresleep_free) (use v in \<open>simp_all add: l_def\<close>)
  have tt: "tree_ok t xs h p" "foreign t = foreign s" "mem t = mem s" "vnodes t = vnodes s" "held t = []"
    "sleeplocks t = (sleeplocks s)(l := (sleeplocks s l)\<lparr>slk_locked := True, slk_pid := pid (get_proc s)\<rparr>)"
    using T v by (simp_all add: t_def)
  have ut: "unat tot = unat off + unat sz" using rf(1) by (simp add: tot_def)
  obtain ok u ys where w: "tmpfs_write_loop p buffer off tot t = Ok (ok, u)" and ku: "keeps h p t xs u ys" and nok: "\<not> ok \<longrightarrow> ys = []"
    and cu: "ok \<longrightarrow> (\<forall>i < MAXB * 4096. content (mem u) p i =
        (if unat off \<le> i \<and> i < unat tot then mem t (buffer + of_nat (i - unat off)) else content (mem t) p i)) \<and>
      (\<forall>i. unat off \<le> i \<longrightarrow> i < unat tot \<longrightarrow> walk_path (mem u) p (bpath (i div 4096)) \<noteq> 0)"
    using write_loop_ok [OF tt(1), of tot off buffer] R B tt(2) unfolding ut outside_buf_def by (auto simp: off_def)
  have mu: "vnodes u = vnodes s" "sleeplocks u = sleeplocks t" "held u = []" "tree_ok u ys h p"
    using ku more_eq [of u t] tt by (simp_all add: keeps_def)
  have fu: "mem u a = mem s a \<and> foreign u ys p a" if "foreign s xs p a" for a using ku that tt by (simp add: keeps_def)
  have b0: "buffer \<noteq> 0" "p \<noteq> 0" using B tree_okD(5) [OF T] by (auto simp: outside_buf_def)
  have run: "tmpfs_vfs_write f buffer sz s =
      (if \<not> ok then bnd (releasesleep l u) (fin (- 1))
       else bnd (releasesleep l (u\<lparr>mem := store64 (mem u) (ti_size p) (if load64 (mem u) (ti_size p) > tot then load64 (mem u) (ti_size p) else tot)\<rparr>))
         (fin (int (unat sz))))"
    using v t w b0 rf(2-4) mu(1) tt(4) unfolding tmpfs_vfs_write_def bndb_def
    by (simp add: Let_def flip: l_def off_def tot_def)
  show ?thesis
  proof (cases ok)
    case False
    obtain u' where "releasesleep l u = Ok u'" "tmp_file u' ys h p f" "mem u' = mem u" "foreign u' = foreign u" "vnodes u' = vnodes u"
      using releasesleep_tmp [OF mu(4,3) v(1)] v(2) mu(1) by (auto simp: l_def)
    then show ?thesis using run False nok fu mu(1) by (auto simp: fin_def)
  next
    case True
    let ?z = "if load64 (mem u) (ti_size p) > tot then load64 (mem u) (ti_size p) else tot"
    define m where "m = store64 (mem u) (ti_size p) ?z"
    have c: "foreign u ys p a \<or> m a = mem u a" for a
    proof (cases "unat (a - ti_size p) < 8")
      case i: True
      then have "foreign u ys p (ti_size p + of_nat (unat (a - ti_size p)))" by (rule size_foreign [OF mu(4)])
      then show ?thesis by simp
    next
      case False
      then show ?thesis by (simp add: m_def store64_other)
    qed
    note fc = foreign_change [OF mu(4), of m, OF c]
    have sz: "load64 m (ti_size p) = ?z" by (simp add: m_def)
    have lu: "load64 (mem u) (ti_size p) = load64 (mem s) (ti_size p)" by (rule load64_foreign [OF T]) (use fu in blast)
    obtain u' where u': "releasesleep l (u\<lparr>mem := m\<rparr>) = Ok u'" "tmp_file u' ys h p f" "mem u' = m" "foreign u' = foreign (u\<lparr>mem := m\<rparr>)"
      "vnodes u' = vnodes u"
      using releasesleep_tmp [OF fc(1) _ v(1)] v(2) mu by (auto simp: l_def)
    have r: "tmpfs_vfs_write f buffer sz s = Ok (Done (int (unat sz)), u')" using run True u'(1) by (simp add: fin_def flip: m_def)
    have fs: "file_size u' p = max (file_size s p) (unat off + unat sz)"
      using sz lu ut by (simp add: file_size_def u'(3) word_less_nat_alt max_def)
    have "content m p i = (if unat off \<le> i \<and> i < unat off + unat sz then mem s (buffer + of_nat (i - unat off)) else content (mem s) p i)"
      if "i < MAXB * 4096" for i
      using cu True fc(3) [OF that] that unfolding ut tt(3) by simp
    moreover have "walk_path m p (bpath (i div 4096)) \<noteq> 0" if "unat off \<le> i" "i < unat off + unat sz" for i
      using cu True that fc(4) [of "bpath (i div 4096)"] tnode_bpath [of "i div 4096" "bpath (i div 4096)" "[]"] R unfolding ut by (simp add: off_def)
    ultimately show ?thesis using r fs u' fu fc(2) mu(1)
      by (intro exI [of _ "int (unat sz)"] exI [of _ u'] exI [of _ ys]) (simp flip: off_def)
  qed
qed


lemma tmpfs_read_effect:
  fixes s :: "'a tmpfs_state_scheme"
  assumes F: "tmp_file s xs h p f" and B: "outside_buf s xs p dst (unat sz)" and R: "unat (f_offset f) + unat sz \<le> MAXB * 4096"
  defines "n \<equiv> min (unat sz) (file_size s p - unat (f_offset f))"
  shows "\<exists>r t. tmpfs_vfs_read f dst sz s = Ok (Done (int r), t) \<and> r \<le> n \<and> tmp_file t xs h p f \<and> mem t = copied (mem s) p dst (unat (f_offset f)) r \<and>
    (r < n \<longrightarrow> walk_path (mem s) p (bpath ((unat (f_offset f) + r) div 4096)) = 0)"
proof -
  obtain v where v: "f_node f = Some v" "vi_private (vnodes s v) = p" "\<not> slk_locked (sleeplocks s (vi_lock (vnodes s v)))" "held s = []"
    and T: "tree_ok s xs h p" using F by (auto simp: tmp_file_def)
  define l where "l = vi_lock (vnodes s v)"
  define off where "off = f_offset f"
  note rf = range_facts [OF R, folded off_def]
  define t where "t = upd_sleeplock l (\<lambda>k. k\<lparr>slk_locked := True, slk_pid := pid (get_proc s)\<rparr>) s"
  have t: "acquiresleep l s = Ok (Done (), t)" unfolding t_def by (rule acquiresleep_free) (use v in \<open>simp_all add: l_def\<close>)
  have tt: "tree_ok t xs h p" "foreign t = foreign s" "mem t = mem s" "vnodes t = vnodes s" "held t = []"
    using T v by (simp_all add: t_def)
  have b0: "dst \<noteq> 0" "p \<noteq> 0" using B tree_okD(5) [OF T] by (auto simp: outside_buf_def)
  let ?sz = "load64 (mem s) (ti_size p)"
  show ?thesis
  proof (cases "off \<ge> ?sz")
    case True
    obtain u where u: "releasesleep l t = Ok u" "tmp_file u xs h p f" "mem u = mem t"
      using releasesleep_tmp [OF tt(1,5) v(1)] v(2) tt(4) by (auto simp: l_def)
    have "tmpfs_vfs_read f dst sz s = Ok (Done 0, u)"
      using v t b0 rf(2,3) True u tt unfolding tmpfs_vfs_read_def bndb_def by (simp add: Let_def fin_def flip: l_def off_def)
    then show ?thesis using u tt True by (intro exI [of _ 0] exI [of _ u]) (simp add: copied_def n_def file_size_def word_le_nat_alt flip: off_def)
  next
    case False
    define tot where "tot = (if off + ucast sz > ?sz then ?sz else off + ucast sz)"
    have ut: "unat tot = unat off + n" "n \<le> unat sz"
      using False rf(1) by (auto simp: tot_def n_def file_size_def word_less_nat_alt word_le_nat_alt simp flip: off_def)
    obtain r where r: "r \<le> n" "tmpfs_read_loop p dst off tot t = Ok (off + of_nat r, t\<lparr>mem := copied (mem t) p dst (unat off) r\<rparr>)"
      "r < n \<longrightarrow> walk_path (mem t) p (bpath ((unat off + r) div 4096)) = 0"
      using read_loop_ok [OF tt(1), of tot off dst] R B tt(2) ut unfolding outside_buf_def by (auto simp: off_def)
    let ?m = "copied (mem t) p dst (unat off) r"
    have c: "foreign t xs p a \<or> ?m a = mem t a" for a
    proof (cases "unat (a - dst) < r")
      case True
      then have "unat (a - dst) < unat sz" using r(1) ut(2) by simp
      then have "foreign t xs p (dst + of_nat (unat (a - dst)))" using B unfolding outside_buf_def tt(2) by blast
      then show ?thesis by simp
    qed (simp add: copied_def)
    note fc = foreign_change [OF tt(1), of ?m, OF c]
    obtain u where u: "releasesleep l (t\<lparr>mem := ?m\<rparr>) = Ok u" "tmp_file u xs h p f" "mem u = ?m"
      using releasesleep_tmp [OF fc(1) _ v(1)] v(2) tt by (auto simp: l_def)
    have "uint (of_nat r :: u64) = int r" using r(1) ut(2) R by (simp add: unsigned_of_nat take_bit_nat_eq_self_iff)
    moreover have "to_c_int (int r) = int r" by (rule to_c_int_id) (use r(1) ut(2) R in linarith)+
    ultimately have "tmpfs_vfs_read f dst sz s = Ok (Done (int r), u)"
      using v t b0 rf(2,3) False u tt r(2) unfolding tmpfs_vfs_read_def bndb_def
      by (simp add: Let_def tot_def flip: l_def off_def split: if_split_asm) (simp_all add: fin_def l_def)
    then show ?thesis using u tt r by (intro exI [of _ r] exI [of _ u]) (simp flip: off_def)
  qed
qed

section \<open>Properties\<close>

lemma uint_not_neg [simp]: "uint (x :: u32) \<noteq> - 1"
  using uint_ge_0 [of x] by linarith

text \<open>A machine with one free page, and an empty file whose inode is at \<open>0x1008\<close>.\<close>

definition tmp_ex :: tmpfs_state where
  "tmp_ex = (let b = kfree_put boot_p boot in undefined\<lparr>mem := mem b, held := [], head_addr := head_addr b, kernel_end := kernel_end b,
     head_next := head_next b, FMM_size := FMM_size b, refcnt := refcnt b,
     sleeplocks := \<lambda>_. undefined\<lparr>slk_locked := False\<rparr>, vnodes := \<lambda>_. undefined\<lparr>vi_private := 0x1008, vi_size := 0\<rparr>\<rparr>)"

definition tmp_ex_file :: kfile where
  "tmp_ex_file = undefined\<lparr>f_node := Some (Cached 0), f_offset := 0\<rparr>"

lemma tmp_ex_mem: "\<not> in_page boot_p a \<Longrightarrow> mem tmp_ex a = 0"
  by (auto simp: tmp_ex_def Let_def kfree_put_def boot_def store64_other memset_page in_page_def)

lemma not_in_boot: "unat a < 0x100000 \<Longrightarrow> \<not> in_page boot_p a"
  by (simp add: in_page_def unat_sub_if')

lemma tmp_ex_walk:
  assumes "os \<noteq> []" "tnode os"
  shows "walk_path (mem tmp_ex) 0x1008 os = 0"
proof -
  obtain x ys where x: "os = x # ys" using assms(1) by (cases os) auto
  have "x < 120" using assms(2) by (auto simp: x tnode_def prefix_def bpath_def split: if_splits)
  have "load64 (mem tmp_ex) (0x1008 + of_nat x) = load64 (\<lambda>_. 0) (0x1008 + of_nat x)"
  proof (rule load64_cong)
    fix i :: nat assume "i < 8"
    then have "unat (of_nat (0x1008 + x + i) :: u64) = 0x1008 + x + i" using \<open>x < 120\<close> by (intro unat_of_nat_small) simp
    then have "\<not> in_page boot_p (0x1008 + of_nat x + of_nat i)" using \<open>x < 120\<close> \<open>i < 8\<close> by (intro not_in_boot) simp
    then show "mem tmp_ex (0x1008 + of_nat x + of_nat i) = 0" by (rule tmp_ex_mem)
  qed
  then show ?thesis by (simp add: x load_zero)
qed

lemma tmp_ex_ok: "tmp_file tmp_ex [boot_p] 0x1000 0x1008 tmp_ex_file"
proof -
  have "kalloc_ready tmp_ex [boot_p]" using boot_ready(4) by (simp add: tmp_ex_def kalloc_ready_def kalloc_inv_def kpage_def Let_def)
  then have "tree_ok tmp_ex [boot_p] 0x1000 0x1008" using tmp_ex_walk by (auto simp: tree_ok_def aligned_def)
  then show ?thesis by (simp add: tmp_file_def tmp_ex_file_def) (simp add: tmp_ex_def Let_def)
qed

lemma tmp_ex_buf:
  assumes "unat b \<ge> 0x2000" "unat b < 0x10000" "n < 4096"
  shows "outside_buf tmp_ex [boot_p] 0x1008 b n"
proof -
  have "foreign tmp_ex [boot_p] 0x1008 (b + of_nat k)" if "k < n" for k
  proof -
    have "unat (b + of_nat k) = unat b + k" using assms that by (intro unat_add_nat) simp
    then show ?thesis using assms that tmp_ex_walk not_in_boot [of "b + of_nat k"] by (auto simp: foreign_def unat_sub_if')
  qed
  then show ?thesis using assms by (auto simp: outside_buf_def)
qed

text \<open>A short write at the beginning of a file succeeds if its first block is there or a page is free.\<close>

lemma small_write:
  fixes s :: "'a tmpfs_state_scheme"
  assumes F: "tmp_file s xs h p f" "f_offset f = 0" "b \<noteq> 0" and X: "load64 (mem s) (p + 24) \<noteq> 0 \<or> xs \<noteq> []"
  shows "\<exists>s'. tmpfs_vfs_write f b 5 s = Ok (Done 5, s')"
proof -
  obtain v where v: "f_node f = Some v" "vi_private (vnodes s v) = p" "\<not> slk_locked (sleeplocks s (vi_lock (vnodes s v)))" "held s = []"
    and T: "tree_ok s xs h p" using F by (auto simp: tmp_file_def)
  define t where "t = upd_sleeplock (vi_lock (vnodes s v)) (\<lambda>k. k\<lparr>slk_locked := True, slk_pid := pid (get_proc s)\<rparr>) s"
  have t: "acquiresleep (vi_lock (vnodes s v)) s = Ok (Done (), t)" unfolding t_def by (rule acquiresleep_free) (use v in simp_all)
  have tt: "tree_ok t xs h p" "mem t = mem s" "vnodes t = vnodes s" "held t = []" using T v by (simp_all add: t_def)
  have r: "kalloc_inv t xs" "MemLock \<notin> set (held t)" using tree_okD(1) [OF tt(1)] by (auto simp: kalloc_ready_def)
  have "\<exists>a u. slot_page (p + 24) True t = Ok (a, u) \<and> a \<noteq> 0 \<and> held u = [] \<and> vnodes u = vnodes s"
  proof (cases "load64 (mem s) (p + 24) = 0")
    case True
    then obtain x ys where x: "xs = x # ys" using X by (cases xs) auto
    have "kpage t x" using kalloc_invD(4) [OF r(1)] x by simp
    then have "x \<noteq> 0" using kalloc_invD(1) [OF r(1)] by (auto simp: kpage_def)
    then show ?thesis using True tt r kalloc_Cons [OF r(1) [unfolded x] r(2)] by (simp add: slot_page_def kalloc_take_def)
  qed (use tt in \<open>simp add: slot_page_def\<close>)
  then obtain a u where u: "slot_page (p + 24) True t = Ok (a, u)" "a \<noteq> 0" "held u = []" "vnodes u = vnodes s" by blast
  obtain m where m: "tmpfs_write_loop p b 0 5 t = Ok (True, u\<lparr>mem := m\<rparr>)"
    using u by (simp add: tmpfs_write_loop.simps [of _ _ 0] tmpfs_write_loop.simps [of _ _ 5] tmpfs_bmap_def page_rest_def Let_def)
  have "\<exists>u'. bnd (releasesleep (vi_lock (vnodes s v)) (u\<lparr>mem := m'\<rparr>)) (fin 5) = Ok (Done 5, u')" for m'
    using releasesleep_free [of "u\<lparr>mem := m'\<rparr>" "vi_lock (vnodes s v)"] u(3) by (auto simp: fin_def)
  then show ?thesis
    using v t m F tt u tree_okD(5) [OF T] unfolding tmpfs_vfs_write_def bndb_def
    by (auto simp: Let_def to_c_int_def)
qed

text \<open>
  C17. A write of \<open>sz\<close> bytes within the maximal size of a file, from a buffer outside of the file and of free memory,
  always returns. Either memory ran out and it returns -1, or it returns \<open>sz\<close>, the size of the file is at
  least the end of the range, the bytes of the range are those of the buffer, and all other bytes of the file are
  as before. The tree of block pointers stays well formed in both cases.
\<close>

theorem tmpfs_write_correct:
  assumes "tmp_file s xs h p f" "outside_buf s xs p buffer (unat sz)" "unat (f_offset f) + unat sz \<le> MAXB * 4096"
  shows "\<exists>r s' xs'. tmpfs_vfs_write f buffer sz s = Ok (Done r, s') \<and> tmp_file s' xs' h p f \<and>
    (r = - 1 \<and> xs' = [] \<or> r = int (unat sz) \<and> file_size s' p = max (file_size s p) (unat (f_offset f) + unat sz) \<and>
      (\<forall>i < MAXB * 4096. content (mem s') p i = (if unat (f_offset f) \<le> i \<and> i < unat (f_offset f) + unat sz
        then mem s (buffer + of_nat (i - unat (f_offset f))) else content (mem s) p i)))"
  using tmpfs_write_effect [OF assms] by blast

theorem tmpfs_write_correct_witness:
  "\<exists>r s' xs'. tmpfs_vfs_write tmp_ex_file 0x2000 5 tmp_ex = Ok (Done r, s') \<and> tmp_file s' xs' 0x1000 0x1008 tmp_ex_file \<and>
    (r = - 1 \<and> xs' = [] \<or> r = 5 \<and> file_size s' 0x1008 \<ge> 5)"
  using tmpfs_write_correct [OF tmp_ex_ok tmp_ex_buf [of "0x2000" "unat (5 :: u32)"]] by (fastforce simp: tmp_ex_file_def)

text \<open>
  C18. What was written is what is read: after a successful write, a read of the same range returns the full
  length and delivers the bytes of the buffer that was written.
\<close>

theorem tmpfs_write_read:
  assumes "tmp_file s xs h p f" "outside_buf s xs p buffer (unat sz)" "outside_buf s xs p dst (unat sz)"
    and "unat (f_offset f) + unat sz \<le> MAXB * 4096" "tmpfs_vfs_write f buffer sz s = Ok (Done (int (unat sz)), s')"
  shows "\<exists>t. tmpfs_vfs_read f dst sz s' = Ok (Done (int (unat sz)), t) \<and>
    (\<forall>k < unat sz. mem t (dst + of_nat k) = mem s (buffer + of_nat k))"
proof -
  let ?o = "unat (f_offset f)"
  obtain xs' where w: "tmp_file s' xs' h p f" "\<forall>a. foreign s xs p a \<longrightarrow> foreign s' xs' p a"
      "file_size s' p = max (file_size s p) (?o + unat sz)"
      "\<forall>i < MAXB * 4096. content (mem s') p i = (if ?o \<le> i \<and> i < ?o + unat sz then mem s (buffer + of_nat (i - ?o)) else content (mem s) p i)"
      "\<forall>i. ?o \<le> i \<longrightarrow> i < ?o + unat sz \<longrightarrow> walk_path (mem s') p (bpath (i div 4096)) \<noteq> 0"
    using tmpfs_write_effect [OF assms(1,2,4)] assms(5) by auto
  have "outside_buf s' xs' p dst (unat sz)" using assms(3) w(2) by (simp add: outside_buf_def)
  from tmpfs_read_effect [OF w(1) this assms(4)] w(3) obtain r t where
    t: "tmpfs_vfs_read f dst sz s' = Ok (Done (int r), t)" "r \<le> unat sz" "mem t = copied (mem s') p dst ?o r"
      "r < unat sz \<longrightarrow> walk_path (mem s') p (bpath ((?o + r) div 4096)) = 0"
    by (auto simp: min_def max_def split: if_split_asm)
  have r: "r = unat sz" using t(2,4) w(5) by (metis add_less_cancel_left le_add1 le_neq_implies_less)
  have "mem t (dst + of_nat k) = mem s (buffer + of_nat k)" if "k < unat sz" for k
  proof -
    have "unat (of_nat k :: u64) = k" using that assms(4) by (intro unat_of_nat_small) simp
    then show ?thesis using t(3) r that w(4) assms(4) by (simp add: copied_def)
  qed
  then show ?thesis using t(1) r by blast
qed

theorem tmpfs_write_read_witness:
  "\<exists>s' t. tmpfs_vfs_write tmp_ex_file 0x2000 5 tmp_ex = Ok (Done 5, s') \<and> tmpfs_vfs_read tmp_ex_file 0x3000 5 s' = Ok (Done 5, t) \<and>
    mem t 0x3004 = mem tmp_ex 0x2004"
proof -
  obtain s' where s': "tmpfs_vfs_write tmp_ex_file 0x2000 5 tmp_ex = Ok (Done 5, s')"
    using small_write [OF tmp_ex_ok, of "0x2000"] by (auto simp: tmp_ex_file_def)
  then show ?thesis using tmpfs_write_read [OF tmp_ex_ok tmp_ex_buf tmp_ex_buf, of "0x2000" 5 "0x3000" s']
    by (auto simp: tmp_ex_file_def dest: spec [of _ 4])
qed



end
